(* ===== verification/Prelude.thy ===== *)
theory Prelude
  imports Complex_Main "HOL-Library.Char_ord" "HOL-Library.List_Lexorder"
begin

text \<open>
  Shared vocabulary of the development: Go strings, errors, pointers and floating-point values as
  HOL values, the sequencing combinators that stand for \<^verbatim>\<open>if err != nil { return err }\<close>, and the
  generic list and option lemmas the components use.

  Conventions.  A Go \<^verbatim>\<open>string\<close> or \<^verbatim>\<open>[]byte\<close> is a \<^typ>\<open>string\<close> (a list of bytes).  A pointer that
  may be nil is an \<^typ>\<open>'a option\<close>.  A function that returns \<^verbatim>\<open>error\<close> returns \<open>go_error option\<close>
  (\<open>None\<close> is nil); one that returns a value and an error returns \<open>go_error + 'a\<close>.  Integers that
  the code never lets overflow are \<^typ>\<open>int\<close>; instants are nanoseconds since the Unix epoch and
  durations are nanoseconds, both \<^typ>\<open>int\<close>.
\<close>

named_theorems inversion \<open>what a successful or failed sequenced computation says of its parts\<close>
named_theorems frame \<open>what an operation leaves unchanged\<close>
named_theorems invariants \<open>preservation of well-formedness by the operations\<close>

section \<open>Strings\<close>

type_synonym bytes = string

text \<open>\<^verbatim>\<open>strings.HasPrefix\<close>, \<^verbatim>\<open>strings.Contains\<close> and \<^verbatim>\<open>strings.Split\<close> with a one-byte separator.\<close>

definition HasPrefix :: "string \<Rightarrow> string \<Rightarrow> bool" where
  "HasPrefix s p \<longleftrightarrow> take (length p) s = p"

fun Contains :: "string \<Rightarrow> string \<Rightarrow> bool" where
  "Contains [] sub \<longleftrightarrow> sub = []"
| "Contains (c # s) sub \<longleftrightarrow> HasPrefix (c # s) sub \<or> Contains s sub"

fun Split :: "char \<Rightarrow> string \<Rightarrow> string list" where
  "Split sep [] = [[]]"
| "Split sep (c # s) =
     (if c = sep then [] # Split sep s
      else case Split sep s of [] \<Rightarrow> [[c]] | w # ws \<Rightarrow> (c # w) # ws)"

text \<open>Decimal rendering, as \<^verbatim>\<open>fmt\<close> prints an integer with \<^verbatim>\<open>%d\<close>.\<close>

fun show_nat :: "nat \<Rightarrow> string" where
  "show_nat n =
     (if n < 10 then [char_of (48 + n)] else show_nat (n div 10) @ [char_of (48 + n mod 10)])"

declare show_nat.simps [simp del]

text \<open>Evaluation on numerals: the rules apply once the argument is known.\<close>

lemma show_nat_eval:
  "n < 10 \<Longrightarrow> show_nat n = [char_of (48 + n)]"
  "10 \<le> n \<Longrightarrow> show_nat n = show_nat (n div 10) @ [char_of (48 + n mod 10)]"
  by (simp_all add: show_nat.simps [of n])

definition show_int :: "int \<Rightarrow> string" where
  "show_int i = (if i < 0 then ''-'' @ show_nat (nat (- i)) else show_nat (nat i))"

text \<open>
  \<^verbatim>\<open>%q\<close>: the string between double quotes, with the quote, the backslash and the control bytes
  escaped.  Bytes above 127 are kept, which is what Go prints for printable UTF-8 text.
\<close>

definition hex_digit :: "nat \<Rightarrow> char" where
  "hex_digit n = (if n < 10 then char_of (48 + n) else char_of (87 + n))"

definition quote_char :: "char \<Rightarrow> string" where
  "quote_char c =
     (let n = (of_char c :: nat) in
      if n = 34 then [CHR 0x5C, CHR 0x22]
      else if n = 92 then [CHR 0x5C, CHR 0x5C]
      else if n = 7 then [CHR 0x5C, CHR ''a'']
      else if n = 8 then [CHR 0x5C, CHR ''b'']
      else if n = 9 then [CHR 0x5C, CHR ''t'']
      else if n = 10 then [CHR 0x5C, CHR ''n'']
      else if n = 11 then [CHR 0x5C, CHR ''v'']
      else if n = 12 then [CHR 0x5C, CHR ''f'']
      else if n = 13 then [CHR 0x5C, CHR ''r'']
      else if n < 32 \<or> n = 127
      then [CHR 0x5C, CHR ''x'', hex_digit (n div 16), hex_digit (n mod 16)]
      else [c])"

definition go_quote :: "string \<Rightarrow> string" where
  "go_quote s = [CHR 0x22] @ concat (map quote_char s) @ [CHR 0x22]"

lemma HasPrefix_append [simp]: "HasPrefix (p @ s) p"
  by (simp add: HasPrefix_def)

lemma HasPrefix_iff: "HasPrefix s p \<longleftrightarrow> (\<exists>r. s = p @ r)"
  unfolding HasPrefix_def by (metis append_eq_conv_conj append_take_drop_id)

lemma HasPrefixE:
  assumes "HasPrefix s p"
  obtains r where "s = p @ r"
  using assms by (auto simp: HasPrefix_iff)

lemma Contains_prefix: "HasPrefix s sub \<Longrightarrow> Contains s sub"
  by (cases s) (auto simp: HasPrefix_def)

lemma Contains_append_left: "Contains s sub \<Longrightarrow> Contains (p @ s) sub"
  by (induction p) auto

lemma Contains_append_right: "Contains s sub \<Longrightarrow> Contains (s @ t) sub"
proof (induction s sub rule: Contains.induct)
  case (1 sub)
  then show ?case by (cases t) (auto simp: HasPrefix_def)
next
  case (2 c s sub)
  have "HasPrefix (c # s @ t) sub" if "HasPrefix (c # s) sub"
    using that by (metis HasPrefix_iff append_Cons append_assoc)
  with 2 show ?case by auto
qed

text \<open>A literal that occurs between two other pieces of a message is contained in the message.\<close>

lemma Contains_middle: "Contains (p @ sub @ t) sub"
  by (intro Contains_append_left Contains_prefix) simp

section \<open>Errors\<close>

text \<open>
  The sentinel errors the service compares against with \<^verbatim>\<open>errors.Is\<close>.  An error value is its text
  and the sentinels on its unwrap chain; \<^verbatim>\<open>fmt.Errorf("...: %w", err)\<close> prefixes the text and keeps
  the chain.
\<close>

datatype sentinel =
    ErrValidation | ErrNotFound | ErrIntegrityConflict | ErrGridNotProvisioned | ErrHouseIdentity
  | ErrUnknownGrid | ErrEmptySnapshot
  | ErrHandlerPanic | ErrWorkerPanic | ErrNoHandler
  | errWorkerStopped | errRecordInterrupted
  | ErrFailureUnavailable | RedisErrNotFound
  | ContextCanceled | ContextDeadlineExceeded

record go_error =
  err_text :: string
  err_chain :: "sentinel list"

definition errors_Is :: "go_error \<Rightarrow> sentinel \<Rightarrow> bool" where
  "errors_Is e s \<longleftrightarrow> s \<in> set (err_chain e)"

definition errors_New :: "string \<Rightarrow> go_error" where
  "errors_New t = \<lparr>err_text = t, err_chain = []\<rparr>"

definition sentinel_error :: "sentinel \<Rightarrow> string \<Rightarrow> go_error" where
  "sentinel_error s t = \<lparr>err_text = t, err_chain = [s]\<rparr>"

definition Errorf_w :: "string \<Rightarrow> go_error \<Rightarrow> go_error" where
  "Errorf_w pre e = e\<lparr>err_text := pre @ err_text e\<rparr>"

lemma errors_Is_Errorf_w [simp]: "errors_Is (Errorf_w pre e) s = errors_Is e s"
  by (simp add: errors_Is_def Errorf_w_def)

lemma err_text_Errorf_w [simp]: "err_text (Errorf_w pre e) = pre @ err_text e"
  by (simp add: Errorf_w_def)

lemma errors_Is_sentinel_error [simp]: "errors_Is (sentinel_error s t) s' \<longleftrightarrow> s' = s"
  by (simp add: errors_Is_def sentinel_error_def)

lemma errors_Is_errors_New [simp]: "\<not> errors_Is (errors_New t) s"
  by (simp add: errors_Is_def errors_New_def)

section \<open>Sequencing\<close>

text \<open>
  \<open>bindE\<close> is \<^verbatim>\<open>v, err := f(); if err != nil { return err }\<close>; \<open>checkE\<close> is the same for a call that
  returns only an error; \<open>failWith\<close> rewrites the error on the way out.
\<close>

definition bindE :: "'e + 'a \<Rightarrow> ('a \<Rightarrow> 'e + 'b) \<Rightarrow> 'e + 'b" where
  "bindE m k = (case m of Inl e \<Rightarrow> Inl e | Inr x \<Rightarrow> k x)"

definition checkE :: "'e option \<Rightarrow> 'e + 'b \<Rightarrow> 'e + 'b" where
  "checkE c k = (case c of Some e \<Rightarrow> Inl e | None \<Rightarrow> k)"

definition failWith :: "('e \<Rightarrow> 'f) \<Rightarrow> 'e + 'a \<Rightarrow> 'f + 'a" where
  "failWith g m = (case m of Inl e \<Rightarrow> Inl (g e) | Inr x \<Rightarrow> Inr x)"

lemma bindE_simps [simp]: "bindE (Inl e) k = Inl e" "bindE (Inr x) k = k x"
  by (simp_all add: bindE_def)

lemma checkE_simps [simp]: "checkE None k = k" "checkE (Some e) k = Inl e"
  by (simp_all add: checkE_def)

lemma failWith_simps [simp]: "failWith g (Inl e) = Inl (g e)" "failWith g (Inr x) = Inr x"
  by (simp_all add: failWith_def)

lemma bindE_Inr_iff [inversion]: "bindE m k = Inr y \<longleftrightarrow> (\<exists>x. m = Inr x \<and> k x = Inr y)"
  by (cases m) auto

lemma bindE_Inl_iff: "bindE m k = Inl e \<longleftrightarrow> m = Inl e \<or> (\<exists>x. m = Inr x \<and> k x = Inl e)"
  by (cases m) auto

lemma checkE_Inr_iff [inversion]: "checkE c k = Inr y \<longleftrightarrow> c = None \<and> k = Inr y"
  by (cases c) auto

lemma checkE_Inl_iff: "checkE c k = Inl e \<longleftrightarrow> c = Some e \<or> (c = None \<and> k = Inl e)"
  by (cases c) auto

lemma guard_Inr_iff [inversion]: "(if P then Inl e else k) = Inr y \<longleftrightarrow> \<not> P \<and> k = Inr y"
  by simp

lemma failWith_Inr_iff [inversion]: "failWith g m = Inr y \<longleftrightarrow> m = Inr y"
  by (cases m) auto

lemma failWith_Inl_iff: "failWith g m = Inl f \<longleftrightarrow> (\<exists>e. m = Inl e \<and> f = g e)"
  by (cases m) auto

text \<open>
  Computations with state: \<open>('s, 'a) act\<close> takes the state and returns a result or an error together
  with the new state, which is kept on the error path as well (an error does not undo what the call
  already did).
\<close>

type_synonym ('s, 'a) act = "'s \<Rightarrow> (go_error + 'a) \<times> 's"

definition ret :: "'a \<Rightarrow> ('s, 'a) act" where
  "ret x s = (Inr x, s)"

definition throw :: "go_error \<Rightarrow> ('s, 'a) act" where
  "throw e s = (Inl e, s)"

definition andThen :: "('s, 'a) act \<Rightarrow> ('a \<Rightarrow> ('s, 'b) act) \<Rightarrow> ('s, 'b) act" where
  "andThen m k s = (case m s of (Inl e, s') \<Rightarrow> (Inl e, s') | (Inr x, s') \<Rightarrow> k x s')"

definition wrapErr :: "(go_error \<Rightarrow> go_error) \<Rightarrow> ('s, 'a) act \<Rightarrow> ('s, 'a) act" where
  "wrapErr g m s = (case m s of (r, s') \<Rightarrow> (failWith g r, s'))"

definition liftE :: "go_error + 'a \<Rightarrow> ('s, 'a) act" where
  "liftE r s = (r, s)"

lemma ret_apply [simp]: "ret x s = (Inr x, s)"
  by (simp add: ret_def)

lemma throw_apply [simp]: "throw e s = (Inl e, s)"
  by (simp add: throw_def)

lemma liftE_apply [simp]: "liftE r s = (r, s)"
  by (simp add: liftE_def)

lemma andThen_Inr_iff [inversion]:
  "andThen m k s = (Inr y, s') \<longleftrightarrow> (\<exists>x t. m s = (Inr x, t) \<and> k x t = (Inr y, s'))"
  by (auto simp: andThen_def split: prod.splits sum.splits)

lemma andThen_Inl_iff:
  "andThen m k s = (Inl e, s') \<longleftrightarrow>
     m s = (Inl e, s') \<or> (\<exists>x t. m s = (Inr x, t) \<and> k x t = (Inl e, s'))"
  by (auto simp: andThen_def split: prod.splits sum.splits)

lemma wrapErr_Inr_iff [inversion]: "wrapErr g m s = (Inr y, s') \<longleftrightarrow> m s = (Inr y, s')"
  by (auto simp: wrapErr_def inversion split: prod.splits)

lemma wrapErr_Inl_iff:
  "wrapErr g m s = (Inl f, s') \<longleftrightarrow> (\<exists>e. m s = (Inl e, s') \<and> f = g e)"
  by (auto simp: wrapErr_def failWith_Inl_iff split: prod.splits)

lemma andThen_eqs:
  "m s = (Inr x, t) \<Longrightarrow> andThen m k s = k x t"
  "m s = (Inl e, t) \<Longrightarrow> andThen m k s = (Inl e, t)"
  by (simp_all add: andThen_def)

lemma wrapErr_eqs:
  "m s = (Inr x, t) \<Longrightarrow> wrapErr g m s = (Inr x, t)"
  "m s = (Inl e, t) \<Longrightarrow> wrapErr g m s = (Inl (g e), t)"
  by (simp_all add: wrapErr_def)

text \<open>A sequence keeps whatever both of its parts keep.\<close>

lemma andThen_keeps:
  assumes "\<And>r t. m s = (r, t) \<Longrightarrow> P t"
    and "\<And>x t r u. P t \<Longrightarrow> k x t = (r, u) \<Longrightarrow> P u"
    and "andThen m k s = (r, u)"
  shows "P u"
  using assms by (auto simp: andThen_def split: prod.splits sum.splits)

section \<open>Floating point\<close>

text \<open>
  A \<^verbatim>\<open>float64\<close> is NaN, an infinity or a finite value; the finite values are kept as the rational
  number they denote (both zeros are \<^term>\<open>0 :: rat\<close>, which Go's comparisons do not tell apart).
  Comparisons with NaN are false.
\<close>

datatype float64 = NaN | PosInf | NegInf | Fin rat

definition math_IsNaN :: "float64 \<Rightarrow> bool" where
  "math_IsNaN v \<longleftrightarrow> v = NaN"

definition math_IsInf :: "float64 \<Rightarrow> bool" where
  "math_IsInf v \<longleftrightarrow> v = PosInf \<or> v = NegInf"

fun f64_lt :: "float64 \<Rightarrow> float64 \<Rightarrow> bool" where
  "f64_lt NaN w = False"
| "f64_lt v NaN = False"
| "f64_lt v NegInf = False"
| "f64_lt NegInf w = True"
| "f64_lt PosInf w = False"
| "f64_lt v PosInf = True"
| "f64_lt (Fin a) (Fin b) \<longleftrightarrow> a < b"

definition f64_eq :: "float64 \<Rightarrow> float64 \<Rightarrow> bool" where
  "f64_eq v w \<longleftrightarrow> v = w \<and> v \<noteq> NaN"

definition f64_le :: "float64 \<Rightarrow> float64 \<Rightarrow> bool" where
  "f64_le v w \<longleftrightarrow> f64_lt v w \<or> f64_eq v w"

definition finite64 :: "float64 \<Rightarrow> bool" where
  "finite64 v \<longleftrightarrow> (case v of Fin _ \<Rightarrow> True | _ \<Rightarrow> False)"

lemma finite64_iff: "finite64 v \<longleftrightarrow> (\<exists>a. v = Fin a)"
  by (cases v) (auto simp: finite64_def)

lemma finite64_simps [simp]:
  "finite64 (Fin a)" "\<not> finite64 NaN" "\<not> finite64 PosInf" "\<not> finite64 NegInf"
  by (simp_all add: finite64_def)

lemma finite64_not_special: "finite64 v \<longleftrightarrow> \<not> math_IsNaN v \<and> \<not> math_IsInf v"
  by (cases v) (auto simp: finite64_def math_IsNaN_def math_IsInf_def)

lemma f64_eq_finite [simp]: "finite64 v \<Longrightarrow> f64_eq v w \<longleftrightarrow> v = w"
  by (auto simp: f64_eq_def finite64_def)

lemma f64_le_Fin [simp]: "f64_le (Fin a) (Fin b) \<longleftrightarrow> a \<le> b"
  by (auto simp: f64_le_def f64_eq_def)

section \<open>Time\<close>

abbreviation ns_microsecond :: int where "ns_microsecond \<equiv> 1000"
abbreviation ns_millisecond :: int where "ns_millisecond \<equiv> 1000000"
abbreviation ns_second :: int where "ns_second \<equiv> 1000000000"
abbreviation ns_minute :: int where "ns_minute \<equiv> 60000000000"
abbreviation ns_hour :: int where "ns_hour \<equiv> 3600000000000"

text \<open>
  \<^verbatim>\<open>time.Time.Truncate\<close> rounds down to a multiple of the duration since the zero time, which for the
  durations used here (microseconds, seconds) is a multiple since the Unix epoch.
\<close>

definition time_Truncate :: "int \<Rightarrow> int \<Rightarrow> int" where
  "time_Truncate d t = t - t mod d"

definition UnixMilli :: "int \<Rightarrow> int" where
  "UnixMilli t = t div ns_millisecond"

lemma time_Truncate_idem [simp]: "time_Truncate d (time_Truncate d t) = time_Truncate d t"
  by (simp add: time_Truncate_def mod_diff_left_eq)

lemma time_Truncate_le: "0 < d \<Longrightarrow> time_Truncate d t \<le> t"
  by (simp add: time_Truncate_def)

lemma time_Truncate_mono:
  assumes "0 < d" "s \<le> t"
  shows "time_Truncate d s \<le> time_Truncate d t"
proof -
  have "d * (s div d) \<le> d * (t div d)"
    using assms by (simp add: zdiv_mono1)
  then show ?thesis
    by (simp add: time_Truncate_def minus_mod_eq_mult_div)
qed

text \<open>Dropping the nanoseconds below the microsecond does not change the millisecond.\<close>

lemma UnixMilli_Truncate [simp]: "UnixMilli (time_Truncate ns_microsecond t) = UnixMilli t"
proof -
  have "time_Truncate ns_microsecond t = 1000 * (t div 1000)"
    by (simp add: time_Truncate_def minus_mod_eq_mult_div)
  then have "UnixMilli (time_Truncate ns_microsecond t) = (1000 * (t div 1000)) div (1000 * 1000)"
    by (simp add: UnixMilli_def)
  also have "\<dots> = t div 1000 div 1000"
    by (subst div_mult_mult1) simp_all
  also have "\<dots> = t div 1000000"
    by (simp add: zdiv_zmult2_eq [symmetric])
  finally show ?thesis by (simp add: UnixMilli_def)
qed

section \<open>Lists used as tables\<close>

text \<open>
  A relational table is the list of its rows.  \<open>upsert_at\<close> is an \<^verbatim>\<open>UPDATE ... WHERE\<close>; a key is unique
  when the list of keys is distinct.
\<close>

definition update_where :: "('r \<Rightarrow> bool) \<Rightarrow> ('r \<Rightarrow> 'r) \<Rightarrow> 'r list \<Rightarrow> 'r list" where
  "update_where p f = map (\<lambda>r. if p r then f r else r)"

lemma update_where_simps [simp]:
  "update_where p f [] = []"
  "update_where p f (r # rs) = (if p r then f r else r) # update_where p f rs"
  by (simp_all add: update_where_def)

lemma length_update_where [simp]: "length (update_where p f rs) = length rs"
  by (simp add: update_where_def)

lemma map_update_where [simp]:
  "(\<And>r. p r \<Longrightarrow> key (f r) = key r) \<Longrightarrow> map key (update_where p f rs) = map key rs"
  by (induction rs) auto

lemma set_update_where: "set (update_where p f rs) = f ` {r \<in> set rs. p r} \<union> {r \<in> set rs. \<not> p r}"
  by (induction rs) auto

lemma in_update_where: "r \<in> set rs \<Longrightarrow> p r \<Longrightarrow> f r \<in> set (update_where p f rs)"
  by (force simp: set_update_where)

lemma update_where_id [simp]: "(\<And>r. r \<in> set rs \<Longrightarrow> \<not> p r) \<Longrightarrow> update_where p f rs = rs"
  by (induction rs) auto

lemma find_update_where_other:
  "(\<And>r. p r \<Longrightarrow> \<not> q r) \<Longrightarrow> (\<And>r. p r \<Longrightarrow> \<not> q (f r)) \<Longrightarrow>
   find q (update_where p f rs) = find q rs"
  by (induction rs) auto

lemma find_update_where_same:
  "(\<And>r. q (f r) = q r) \<Longrightarrow>
   find q (update_where p f rs) = map_option (\<lambda>r. if p r then f r else r) (find q rs)"
  by (induction rs) auto

lemma find_append: "find p (xs @ ys) = (case find p xs of Some x \<Rightarrow> Some x | None \<Rightarrow> find p ys)"
  by (induction xs) auto

lemma find_Some_in: "find p xs = Some x \<Longrightarrow> x \<in> set xs \<and> p x"
  by (induction xs) (auto split: if_splits)

lemma find_None_in: "find p xs = None \<Longrightarrow> x \<in> set xs \<Longrightarrow> \<not> p x"
  by (auto simp: find_None_iff)

lemma distinct_key_eq:
  "distinct (map key xs) \<Longrightarrow> x \<in> set xs \<Longrightarrow> y \<in> set xs \<Longrightarrow> key x = key y \<Longrightarrow> x = y"
  by (metis distinct_map inj_onD)

lemma find_distinct_key:
  assumes "distinct (map key xs)" "x \<in> set xs"
  shows "find (\<lambda>r. key r = key x) xs = Some x"
proof -
  have "find (\<lambda>r. key r = key x) xs \<noteq> None"
    using assms(2) by (auto simp: find_None_iff)
  then obtain y where y: "find (\<lambda>r. key r = key x) xs = Some y" by auto
  then have "y \<in> set xs" "key y = key x" by (auto dest: find_Some_in)
  with assms have "y = x" by (auto dest: distinct_key_eq)
  with y show ?thesis by simp
qed

end
