(* ===== verification/Utf8.thy ===== *)
theory Utf8
  imports Prelude
begin

text \<open>
  UTF-8 as Go's \<^verbatim>\<open>unicode/utf8\<close> and \<^verbatim>\<open>strings.ToValidUTF8\<close> see it, and the text clean-up the failure store
  (\<^verbatim>\<open>sanitizeText\<close> in \<^verbatim>\<open>internal/store/postgres/failures.go\<close>) and the panic boundary (\<^verbatim>\<open>panicText\<close> in
  \<^verbatim>\<open>internal/ingestion/panic.go\<close>) apply before anything is written to a text column.
\<close>

section \<open>Runes\<close>

definition byte :: "char \<Rightarrow> nat" where
  "byte c = of_char c"

definition cont :: "char \<Rightarrow> bool" where
  "cont c \<longleftrightarrow> 128 \<le> byte c \<and> byte c < 192"

text \<open>The number of bytes of a valid rune at the front of the string; 0 when there is none.\<close>

fun rune_width :: "string \<Rightarrow> nat" where
  "rune_width [] = 0"
| "rune_width (a # s) =
     (let n = byte a in
      if n < 128 then 1
      else if n < 194 then 0
      else if n < 224 then (case s of b # _ \<Rightarrow> if cont b then 2 else 0 | _ \<Rightarrow> 0)
      else if n < 240 then
        (case s of b # c # _ \<Rightarrow>
           if cont b \<and> cont c \<and> (n = 224 \<longrightarrow> 160 \<le> byte b) \<and> (n = 237 \<longrightarrow> byte b < 160) then 3 else 0
         | _ \<Rightarrow> 0)
      else if n < 245 then
        (case s of b # c # d # _ \<Rightarrow>
           if cont b \<and> cont c \<and> cont d \<and> (n = 240 \<longrightarrow> 144 \<le> byte b) \<and> (n = 244 \<longrightarrow> byte b < 144)
           then 4 else 0
         | _ \<Rightarrow> 0)
      else 0)"

lemma rune_width_le: "rune_width s \<le> length s"
  by (cases s) (auto simp: Let_def split: list.splits)

lemma rune_width_prefix:
  assumes "0 < rune_width s"
  shows "rune_width (take (rune_width s) s @ t) = rune_width s"
  using assms by (cases s) (auto simp: Let_def split: list.splits if_splits)

text \<open>\<^verbatim>\<open>[]rune(s)\<close> for a valid string, as the list of its encoded runes.\<close>

function runes :: "string \<Rightarrow> string list option" where
  "runes s =
     (if s = [] then Some []
      else if rune_width s = 0 then None
      else map_option (Cons (take (rune_width s) s)) (runes (drop (rune_width s) s)))"
  by auto
termination
proof (relation "measure length")
  fix s :: string
  assume "s \<noteq> []" "rune_width s \<noteq> 0"
  then show "(drop (rune_width s) s, s) \<in> measure length"
    using rune_width_le [of s] by simp
qed simp

declare runes.simps [simp del]

definition valid_utf8 :: "string \<Rightarrow> bool" where
  "valid_utf8 s \<longleftrightarrow> runes s \<noteq> None"

text \<open>A rune: a string that is one valid encoding.\<close>

definition is_rune :: "string \<Rightarrow> bool" where
  "is_rune r \<longleftrightarrow> r \<noteq> [] \<and> rune_width r = length r"

lemma runes_Nil [simp]: "runes [] = Some []"
  by (simp add: runes.simps)

lemma is_rune_take: "0 < rune_width s \<Longrightarrow> is_rune (take (rune_width s) s)"
  using rune_width_le [of s] rune_width_prefix [of s "[]"] by (auto simp: is_rune_def)

lemma rune_width_append: "is_rune r \<Longrightarrow> rune_width (r @ t) = length r"
  using rune_width_prefix [of r t] by (simp add: is_rune_def)

lemma runes_append: "is_rune r \<Longrightarrow> runes (r @ t) = map_option (Cons r) (runes t)"
  by (subst runes.simps) (simp add: rune_width_append, simp add: is_rune_def)

lemma runes_concat: "list_all is_rune rs \<Longrightarrow> runes (concat rs) = Some rs"
  by (induction rs) (simp_all add: runes_append)

lemma runes_Some: "runes s = Some rs \<Longrightarrow> concat rs = s \<and> list_all is_rune rs"
proof (induction s arbitrary: rs rule: runes.induct)
  case (1 s)
  show ?case
  proof (cases "s = []")
    case True
    with 1(2) show ?thesis by simp
  next
    case False
    with 1(2) have w: "rune_width s \<noteq> 0" by (subst (asm) runes.simps) (auto split: if_splits)
    with False 1(2) obtain ts where ts: "runes (drop (rune_width s) s) = Some ts"
        "rs = take (rune_width s) s # ts"
      by (subst (asm) runes.simps) auto
    from 1(1) [OF False w ts(1)] ts(2) w show ?thesis
      by (simp add: is_rune_take)
  qed
qed

lemma valid_utf8_iff: "valid_utf8 s \<longleftrightarrow> (\<exists>rs. list_all is_rune rs \<and> s = concat rs)"
  unfolding valid_utf8_def using runes_Some runes_concat by (metis not_None_eq)

section \<open>Cleaning\<close>

definition replacement :: string where
  "replacement = [CHR 0xEF, CHR 0xBF, CHR 0xBD]"

definition ellipsis :: string where
  "ellipsis = [CHR 0xE2, CHR 0x80, CHR 0xA6]"

text \<open>\<^verbatim>\<open>strings.ToValidUTF8(s, "\uFFFD")\<close>: a run of invalid bytes becomes one replacement; the flag says
  that the run has already been replaced.\<close>

function ToValidUTF8 :: "bool \<Rightarrow> string \<Rightarrow> string" where
  "ToValidUTF8 invalid s =
     (if s = [] then []
      else if rune_width s = 0
      then (if invalid then [] else replacement) @ ToValidUTF8 True (tl s)
      else take (rune_width s) s @ ToValidUTF8 False (drop (rune_width s) s))"
  by auto
termination
proof (relation "measure (\<lambda>(_, s). length s)")
  fix invalid and s :: string
  assume "s \<noteq> []" "rune_width s \<noteq> 0"
  then show "((False, drop (rune_width s) s), invalid, s) \<in> measure (\<lambda>(_, s). length s)"
    using rune_width_le [of s] by simp
qed auto

declare ToValidUTF8.simps [simp del]

definition strip_nul :: "string \<Rightarrow> string" where
  "strip_nul s = filter (\<lambda>c. byte c \<noteq> 0) s"

text \<open>The clean-up with its limit: 2000 runes for a failure reason, 500 for a panic value.\<close>

definition clean_text :: "nat \<Rightarrow> string \<Rightarrow> string" where
  "clean_text limit s =
     (let t = strip_nul (ToValidUTF8 False s) in
      case runes t of
        None \<Rightarrow> t
      | Some rs \<Rightarrow> if length rs > limit then concat (take limit rs) @ ellipsis else t)"

definition maxReasonRunes :: nat where
  "maxReasonRunes = 2000"

definition maxPanicTextRunes :: nat where
  "maxPanicTextRunes = 500"

definition sanitizeText :: "string \<Rightarrow> string" where
  "sanitizeText s = clean_text maxReasonRunes s"

definition panicText :: "string \<Rightarrow> string" where
  "panicText v = clean_text maxPanicTextRunes v"

text \<open>What a \<^verbatim>\<open>TEXT\<close> column accepts.\<close>

definition text_ok :: "string \<Rightarrow> bool" where
  "text_ok s \<longleftrightarrow> valid_utf8 s \<and> (\<forall>c \<in> set s. byte c \<noteq> 0)"

lemma replacement_rune: "is_rune replacement" "is_rune ellipsis"
  by (simp_all add: is_rune_def replacement_def ellipsis_def byte_def cont_def Let_def)

lemma valid_utf8_append: "valid_utf8 s \<Longrightarrow> valid_utf8 t \<Longrightarrow> valid_utf8 (s @ t)"
  unfolding valid_utf8_iff by (metis concat_append list_all_append)

lemma valid_utf8_rune: "is_rune r \<Longrightarrow> valid_utf8 r"
  unfolding valid_utf8_iff by (intro exI [of _ "[r]"]) simp

lemma valid_utf8_Nil [simp]: "valid_utf8 []"
  by (simp add: valid_utf8_def)

lemma ToValidUTF8_valid: "valid_utf8 (ToValidUTF8 invalid s)"
proof (induction invalid s rule: ToValidUTF8.induct)
  case (1 invalid s)
  then show ?case
    by (subst ToValidUTF8.simps)
       (simp add: valid_utf8_append valid_utf8_rune replacement_rune is_rune_take)
qed

text \<open>A NUL byte is a rune of its own, so dropping it keeps the text valid.\<close>

lemma rune_nul:
  assumes "is_rune r"
  shows "strip_nul r = r \<or> strip_nul r = []"
proof -
  have "length r = 1 \<or> (\<forall>c \<in> set r. byte c \<noteq> 0)"
  proof (cases r)
    case (Cons a s)
    with assms show ?thesis
      by (auto simp: is_rune_def Let_def cont_def split: list.splits if_splits)
  qed (use assms in \<open>simp add: is_rune_def\<close>)
  then show ?thesis
  proof
    assume "length r = 1"
    then show ?thesis by (cases r) (auto simp: strip_nul_def)
  next
    assume "\<forall>c \<in> set r. byte c \<noteq> 0"
    then show ?thesis by (simp add: strip_nul_def)
  qed
qed

lemma strip_nul_append: "strip_nul (s @ t) = strip_nul s @ strip_nul t"
  by (simp add: strip_nul_def)

lemma strip_nul_valid: "valid_utf8 s \<Longrightarrow> valid_utf8 (strip_nul s)"
proof -
  assume "valid_utf8 s"
  then obtain rs where rs: "list_all is_rune rs" "s = concat rs" by (auto simp: valid_utf8_iff)
  have "valid_utf8 (strip_nul (concat rs))" if "list_all is_rune rs" for rs
    using that
  proof (induction rs)
    case Nil
    then show ?case by (simp add: strip_nul_def)
  next
    case (Cons r rs)
    then show ?case
      using rune_nul [of r] by (auto simp: strip_nul_append valid_utf8_append valid_utf8_rune)
  qed
  with rs show ?thesis by simp
qed

lemma ellipsis_nul: "\<forall>c \<in> set ellipsis. byte c \<noteq> 0"
  by (simp add: ellipsis_def byte_def)

lemma clean_text_ok: "text_ok (clean_text limit s)"
proof -
  let ?t = "strip_nul (ToValidUTF8 False s)"
  have v: "valid_utf8 ?t" by (intro strip_nul_valid ToValidUTF8_valid)
  then obtain rs where rs: "runes ?t = Some rs" by (auto simp: valid_utf8_def)
  have nul: "\<forall>c \<in> set ?t. byte c \<noteq> 0" by (simp add: strip_nul_def)
  have all: "concat rs = ?t" "list_all is_rune rs" using runes_Some [OF rs] by auto
  have "set (concat (take limit rs)) \<subseteq> set ?t"
    unfolding all(1) [symmetric] by (auto dest: in_set_takeD)
  with nul ellipsis_nul have "\<forall>c \<in> set (concat (take limit rs) @ ellipsis). byte c \<noteq> 0" by auto
  moreover have "valid_utf8 (concat (take limit rs) @ ellipsis)"
    using all(2) replacement_rune(2) unfolding valid_utf8_iff
    by (intro exI [of _ "take limit rs @ [ellipsis]"]) (auto simp: list_all_iff dest: in_set_takeD)
  ultimately show ?thesis
    using v nul rs by (simp add: clean_text_def text_ok_def)
qed

lemma clean_text_bound: "\<exists>rs. runes (clean_text limit s) = Some rs \<and> length rs \<le> limit + 1"
proof -
  let ?t = "strip_nul (ToValidUTF8 False s)"
  have "valid_utf8 ?t" by (intro strip_nul_valid ToValidUTF8_valid)
  then obtain rs where rs: "runes ?t = Some rs" by (auto simp: valid_utf8_def)
  have all: "list_all is_rune (take limit rs @ [ellipsis])"
    using runes_Some [OF rs] replacement_rune(2) by (auto simp: list_all_iff dest: in_set_takeD)
  show ?thesis
  proof (cases "length rs > limit")
    case True
    with rs have "clean_text limit s = concat (take limit rs @ [ellipsis])"
      by (simp add: clean_text_def)
    with runes_concat [OF all] show ?thesis by simp
  next
    case False
    with rs show ?thesis by (simp add: clean_text_def)
  qed
qed

text \<open>Text that is already clean and short is kept as it is.\<close>

lemma ToValidUTF8_id: "valid_utf8 s \<Longrightarrow> ToValidUTF8 invalid s = s"
proof -
  assume "valid_utf8 s"
  then obtain rs where rs: "list_all is_rune rs" "s = concat rs" by (auto simp: valid_utf8_iff)
  have "ToValidUTF8 invalid (concat rs) = concat rs" if "list_all is_rune rs" for rs
    using that
  proof (induction rs arbitrary: invalid)
    case Nil
    then show ?case by (simp add: ToValidUTF8.simps)
  next
    case (Cons r rs)
    then have "rune_width (r @ concat rs) = length r" "r \<noteq> []"
      by (simp_all add: rune_width_append) (simp add: is_rune_def)
    with Cons show ?case by (subst ToValidUTF8.simps) simp
  qed
  with rs show ?thesis by simp
qed

lemma clean_text_id:
  assumes "text_ok s" "runes s = Some rs" "length rs \<le> limit"
  shows "clean_text limit s = s"
proof -
  have "strip_nul (ToValidUTF8 False s) = s"
    using assms(1) by (simp add: text_ok_def ToValidUTF8_id strip_nul_def)
  with assms(2,3) show ?thesis by (simp add: clean_text_def)
qed

lemma text_ok_ascii: "list_all (\<lambda>c. 0 < byte c \<and> byte c < 128) s \<Longrightarrow> text_ok s"
proof -
  assume s: "list_all (\<lambda>c. 0 < byte c \<and> byte c < 128) s"
  have "is_rune [c]" if "byte c < 128" for c using that by (simp add: is_rune_def)
  with s have "list_all is_rune (map (\<lambda>c. [c]) s)" by (auto simp: list_all_iff)
  then have "valid_utf8 s"
    unfolding valid_utf8_iff by (intro exI [of _ "map (\<lambda>c. [c]) s"]) simp
  with s show ?thesis by (auto simp: text_ok_def list_all_iff)
qed

end
