(* ===== verification/GoStd.thy ===== *)
theory GoStd
  imports Utf8 "HOL-Library.Log_Nat"
begin

text \<open>
  What the configuration, the query service and the registration use of Go's standard library: trimming and
  case mapping of strings, the parsers of \<^verbatim>\<open>strconv\<close> and \<^verbatim>\<open>time.ParseDuration\<close>, \<^verbatim>\<open>errors.Join\<close> and the
  unpadded URL alphabet of \<^verbatim>\<open>encoding/base64\<close>.
\<close>

section \<open>Strings\<close>

text \<open>The encodings of the runes with the White_Space property, as \<^verbatim>\<open>unicode.IsSpace\<close> has them.\<close>

definition space_runes :: "string list" where
  "space_runes =
     [[CHR 0x09], [CHR 0x0A], [CHR 0x0B], [CHR 0x0C], [CHR 0x0D], [CHR 0x20],
      [CHR 0xC2, CHR 0x85], [CHR 0xC2, CHR 0xA0], [CHR 0xE1, CHR 0x9A, CHR 0x80]] @
     map (\<lambda>n. [CHR 0xE2, CHR 0x80, char_of n]) ([128..<139] @ [168, 169, 175 :: nat]) @
     [[CHR 0xE2, CHR 0x81, CHR 0x9F], [CHR 0xE3, CHR 0x80, CHR 0x80]]"

definition leading_space :: "string list \<Rightarrow> string \<Rightarrow> nat" where
  "leading_space spaces s = (case find (HasPrefix s) spaces of None \<Rightarrow> 0 | Some r \<Rightarrow> length r)"

function trim_left :: "string list \<Rightarrow> string \<Rightarrow> string" where
  "trim_left spaces s =
     (if s = [] \<or> leading_space spaces s = 0 then s else trim_left spaces (drop (leading_space spaces s) s))"
  by pat_completeness auto
termination by (relation "measure (\<lambda>(_, s). length s)") auto

declare trim_left.simps [simp del]

text \<open>Trailing space is leading space of the reversed bytes: no encoding is a suffix of another.\<close>

definition TrimSpace :: "string \<Rightarrow> string" where
  "TrimSpace s = rev (trim_left (map rev space_runes) (rev (trim_left space_runes s)))"

definition TrimRight :: "char \<Rightarrow> string \<Rightarrow> string" where
  "TrimRight c s = rev (dropWhile (\<lambda>d. d = c) (rev s))"

text \<open>
  Case mapping: ASCII bytes directly; the mapping of the other runes is the Unicode table, a parameter.
  Bytes that are no rune become the replacement rune.
\<close>

record unicode =
  uc_upper :: "string \<Rightarrow> string"
  uc_lower :: "string \<Rightarrow> string"

definition ascii_upper :: "char \<Rightarrow> char" where
  "ascii_upper c = (if 97 \<le> byte c \<and> byte c \<le> 122 then char_of (byte c - 32) else c)"

definition ascii_lower :: "char \<Rightarrow> char" where
  "ascii_lower c = (if 65 \<le> byte c \<and> byte c \<le> 90 then char_of (byte c + 32) else c)"

function case_map :: "(char \<Rightarrow> char) \<Rightarrow> (string \<Rightarrow> string) \<Rightarrow> string \<Rightarrow> string" where
  "case_map f g s =
     (if s = [] then []
      else if rune_width s = 0 then replacement @ case_map f g (tl s)
      else if rune_width s = 1 then f (hd s) # case_map f g (tl s)
      else g (take (rune_width s) s) @ case_map f g (drop (rune_width s) s))"
  by pat_completeness auto
termination
proof (relation "measure (\<lambda>(_, _, s). length s)", goal_cases)
  case (4 f g s)
  then show ?case using rune_width_le [of s] by simp
qed auto

declare case_map.simps [simp del]

definition ToUpper :: "unicode \<Rightarrow> string \<Rightarrow> string" where
  "ToUpper u = case_map ascii_upper (uc_upper u)"

definition ToLower :: "unicode \<Rightarrow> string \<Rightarrow> string" where
  "ToLower u = case_map ascii_lower (uc_lower u)"

lemma case_map_eval [simp]:
  "case_map f g [] = []"
  "byte c < 128 \<Longrightarrow> case_map f g (c # s) = f c # case_map f g s"
  by (simp_all add: case_map.simps [of f g "[]"] case_map.simps [of f g "c # s"])

lemma case_map_ascii: "list_all (\<lambda>c. byte c < 128) s \<Longrightarrow> case_map f g s = map f s"
  by (induction s) auto

lemma trim_left_idem [simp]: "trim_left spaces (trim_left spaces s) = trim_left spaces s"
proof (induction spaces s rule: trim_left.induct)
  case (1 spaces s)
  then show ?case by (cases "s = [] \<or> leading_space spaces s = 0") (subst (2 3) trim_left.simps, simp add: trim_left.simps)+
qed

section \<open>Errors\<close>

text \<open>\<^verbatim>\<open>errors.Join\<close>: nil when there is no error, otherwise the texts on separate lines.\<close>

definition errors_Join :: "go_error list \<Rightarrow> go_error option" where
  "errors_Join errs =
     (if errs = [] then None
      else Some \<lparr>err_text = concat (map (\<lambda>e. err_text e @ [CHR 0x0A]) (butlast errs)) @ err_text (last errs),
                 err_chain = concat (map err_chain errs)\<rparr>)"

lemma errors_Join_None [simp]: "errors_Join errs = None \<longleftrightarrow> errs = []"
  by (simp add: errors_Join_def)

text \<open>The text of a join holds the text of each error.\<close>

lemma errors_Join_Contains:
  assumes "errors_Join errs = Some e" "x \<in> set errs"
  shows "Contains (err_text e) (err_text x)"
proof -
  let ?head = "concat (map (\<lambda>e. err_text e @ [CHR 0x0A]) (butlast errs))"
  have e: "err_text e = ?head @ err_text (last errs)" and ne: "errs \<noteq> []"
    using assms(1) by (auto simp: errors_Join_def split: if_splits)
  have "x \<in> set (butlast errs @ [last errs])" using assms(2) ne by simp
  then consider "x = last errs" | "x \<in> set (butlast errs)" by auto
  then show ?thesis
  proof cases
    case 1
    then show ?thesis unfolding e using Contains_middle [of ?head "err_text x" "[]"] by simp
  next
    case 2
    then obtain as bs where "butlast errs = as @ x # bs" by (meson split_list)
    then show ?thesis
      unfolding e using Contains_middle [of "concat (map (\<lambda>e. err_text e @ [CHR 0x0A]) as)" "err_text x"] by simp
  qed
qed

section \<open>Numbers\<close>

definition digit_value :: "char \<Rightarrow> int" where
  "digit_value c = int (byte c) - 48"

definition is_digit :: "char \<Rightarrow> bool" where
  "is_digit c \<longleftrightarrow> 48 \<le> byte c \<and> byte c \<le> 57"

fun decimal :: "int \<Rightarrow> string \<Rightarrow> int" where
  "decimal acc [] = acc"
| "decimal acc (c # s) = decimal (10 * acc + digit_value c) s"

text \<open>\<^verbatim>\<open>strconv.ParseInt(s, 10, bits)\<close>, \<open>None\<close> for any error; \<^verbatim>\<open>strconv.Atoi\<close> is the case of 64 bits.\<close>

definition ParseInt :: "nat \<Rightarrow> string \<Rightarrow> int option" where
  "ParseInt bits s =
     (let (neg, ds) = (case s of c # r \<Rightarrow> if c = CHR ''-'' then (True, r) else if c = CHR ''+'' then (False, r) else (False, s)
                       | [] \<Rightarrow> (False, []));
          v = (if neg then - decimal 0 ds else decimal 0 ds) in
      if ds = [] \<or> \<not> list_all is_digit ds then None
      else if - (2 ^ (bits - 1)) \<le> v \<and> v < 2 ^ (bits - 1) then Some v else None)"

lemma ParseInt_range: "ParseInt bits s = Some v \<Longrightarrow> - (2 ^ (bits - 1)) \<le> v \<and> v < 2 ^ (bits - 1)"
  by (auto simp: ParseInt_def Let_def split: prod.splits if_splits)

definition ParseBool :: "string \<Rightarrow> bool option" where
  "ParseBool s =
     (if s \<in> {''1'', ''t'', ''T'', ''TRUE'', ''true'', ''True''} then Some True
      else if s \<in> {''0'', ''f'', ''F'', ''FALSE'', ''false'', ''False''} then Some False
      else None)"

section \<open>Durations\<close>

text \<open>
  Rounding of a non-negative rational to the nearest \<^verbatim>\<open>float64\<close>, ties to even, in the normal range, which
  the fractions below never leave.
\<close>

definition pow2 :: "int \<Rightarrow> rat" where
  "pow2 k = (if 0 \<le> k then 2 ^ nat k else 1 / 2 ^ nat (- k))"

definition round_even :: "rat \<Rightarrow> int" where
  "round_even q =
     (let n = \<lfloor>q\<rfloor>; r = q - of_int n in
      if r < 1 / 2 then n else if r > 1 / 2 then n + 1 else if even n then n else n + 1)"

definition round64 :: "rat \<Rightarrow> rat" where
  "round64 q =
     (if q \<le> 0 then 0
      else let (n, d) = quotient_of q;
               k0 = 53 - (bitlen n - bitlen d);
               k = (if q * pow2 k0 \<ge> 2 ^ 53 then k0 - 1 else k0)
           in of_int (round_even (q * pow2 k)) / pow2 k)"

text \<open>The digits at the front, \<open>None\<close> when the number passes \<open>2 ^ 63\<close>.\<close>

fun leadingInt :: "int \<Rightarrow> string \<Rightarrow> (int \<times> string) option" where
  "leadingInt x [] = Some (x, [])"
| "leadingInt x (c # s) =
     (if \<not> is_digit c then Some (x, c # s)
      else if x > 2 ^ 63 div 10 then None
      else let y = 10 * x + digit_value c in if y > 2 ^ 63 then None else leadingInt y s)"

text \<open>The fraction's digits and its scale; digits past the precision are dropped.\<close>

fun leadingFraction :: "bool \<Rightarrow> int \<Rightarrow> rat \<Rightarrow> string \<Rightarrow> int \<times> rat \<times> string" where
  "leadingFraction overflow x scale [] = (x, scale, [])"
| "leadingFraction overflow x scale (c # s) =
     (if \<not> is_digit c then (x, scale, c # s)
      else if overflow then leadingFraction True x scale s
      else if x > (2 ^ 63 - 1) div 10 then leadingFraction True x scale s
      else let y = 10 * x + digit_value c in
        if y > 2 ^ 63 then leadingFraction True x scale s
        else leadingFraction False y (round64 (scale * 10)) s)"

definition unitMap :: "string \<Rightarrow> int option" where
  "unitMap u =
     (if u = ''ns'' then Some 1
      else if u \<in> {''us'', [CHR 0xC2, CHR 0xB5, CHR ''s''], [CHR 0xCE, CHR 0xBC, CHR ''s'']} then Some 1000
      else if u = ''ms'' then Some 1000000
      else if u = ''s'' then Some 1000000000
      else if u = ''m'' then Some 60000000000
      else if u = ''h'' then Some 3600000000000
      else None)"

definition unit_char :: "char \<Rightarrow> bool" where
  "unit_char c \<longleftrightarrow> c \<noteq> CHR ''.'' \<and> \<not> is_digit c"

lemma leadingInt_length: "leadingInt x s = Some (v, r) \<Longrightarrow> length r \<le> length s"
  by (induction x s rule: leadingInt.induct) (auto simp: Let_def split: if_splits)

lemma leadingFraction_length: "leadingFraction ov x sc s = (f, sc', r) \<Longrightarrow> length r \<le> length s"
  by (induction ov x sc s rule: leadingFraction.induct) (force simp: Let_def split: if_splits)+

text \<open>The optional fraction: its digits, its scale, whether it had digits, and what is left.\<close>

definition fractionPart :: "string \<Rightarrow> int \<times> rat \<times> bool \<times> string" where
  "fractionPart s =
     (case s of
        [] \<Rightarrow> (0, 1, False, [])
      | c # r \<Rightarrow>
          if c = CHR ''.''
          then (case leadingFraction False 0 1 r of (f, scale, r') \<Rightarrow> (f, scale, length r' \<noteq> length r, r'))
          else (0, 1, False, s))"

text \<open>One number with its unit: the value in nanoseconds and what is left.\<close>

definition durationPart :: "string \<Rightarrow> (int \<times> string) option" where
  "durationPart s =
     (case leadingInt 0 s of None \<Rightarrow> None
      | Some (v, s1) \<Rightarrow>
          (case fractionPart s1 of (f, scale, post, s2) \<Rightarrow>
             let pre = (length s1 \<noteq> length s); u = takeWhile unit_char s2; s3 = dropWhile unit_char s2 in
             if \<not> pre \<and> \<not> post then None
             else if u = [] then None
             else (case unitMap u of None \<Rightarrow> None
               | Some unit \<Rightarrow>
                   if v > 2 ^ 63 div unit then None
                   else if f = 0 then Some (v * unit, s3)
                   else let w = v * unit + \<lfloor>round64 (of_int f * round64 (of_int unit / scale))\<rfloor> in
                     if w > 2 ^ 63 then None else Some (w, s3))))"

lemma fractionPart_length: "fractionPart s = (f, scale, post, r) \<Longrightarrow> length r \<le> length s"
  by (auto simp: fractionPart_def split: list.splits if_splits prod.splits dest: leadingFraction_length)

lemma durationPart_shorter:
  assumes "durationPart s = Some (v, r)"
  shows "length r < length s"
proof -
  obtain x s1 where l1: "leadingInt 0 s = Some (x, s1)"
    using assms by (cases "leadingInt 0 s") (auto simp: durationPart_def)
  obtain f scale post s2 where l2: "fractionPart s1 = (f, scale, post, s2)" by (metis prod.exhaust)
  have u: "takeWhile unit_char s2 \<noteq> [] \<and> r = dropWhile unit_char s2"
    using assms unfolding durationPart_def l1 l2 Let_def option.case prod.case
    by (simp split: if_splits option.splits)
  have "length s2 = length (takeWhile unit_char s2) + length (dropWhile unit_char s2)"
    by (metis length_append takeWhile_dropWhile_id)
  with leadingInt_length [OF l1] fractionPart_length [OF l2] u show ?thesis
    by (cases "takeWhile unit_char s2") auto
qed

function durationSum :: "int \<Rightarrow> string \<Rightarrow> int option" where
  "durationSum d s =
     (if s = [] then Some d
      else case durationPart s of None \<Rightarrow> None
        | Some (v, r) \<Rightarrow> let d' = (d + v) mod 2 ^ 64 in if d' > 2 ^ 63 then None else durationSum d' r)"
  by pat_completeness auto
termination by (relation "measure (\<lambda>(_, s). length s)") (auto dest: durationPart_shorter)

declare durationSum.simps [simp del]

text \<open>\<^verbatim>\<open>time.ParseDuration\<close>; the sum is a 64-bit counter.\<close>

definition ParseDuration :: "string \<Rightarrow> int option" where
  "ParseDuration s0 =
     (let (neg, s) = (case s0 of c # r \<Rightarrow> if c = CHR ''-'' then (True, r) else if c = CHR ''+'' then (False, r) else (False, s0)
                      | [] \<Rightarrow> (False, [])) in
      if s = ''0'' then Some 0
      else if s = [] then None
      else (case durationSum 0 s of None \<Rightarrow> None
        | Some d \<Rightarrow> if neg then Some (- d) else if d > 2 ^ 63 - 1 then None else Some d))"

lemma durationSum_bound: "durationSum d s = Some n \<Longrightarrow> 0 \<le> d \<Longrightarrow> d \<le> 2 ^ 63 \<Longrightarrow> 0 \<le> n \<and> n \<le> 2 ^ 63"
proof (induction d s rule: durationSum.induct)
  case (1 d s)
  show ?case
  proof (cases "s = []")
    case True
    with 1(2-) show ?thesis by (simp add: durationSum.simps)
  next
    case False
    with 1(2) obtain v r where "durationPart s = Some (v, r)" "(d + v) mod 2 ^ 64 \<le> 2 ^ 63"
      "durationSum ((d + v) mod 2 ^ 64) r = Some n"
      by (subst (asm) durationSum.simps) (auto simp: Let_def split: option.splits if_splits)
    with 1(1) [OF False] show ?thesis by simp
  qed
qed

text \<open>A parsed duration is an \<^verbatim>\<open>int64\<close>.\<close>

lemma ParseDuration_range: "ParseDuration s = Some v \<Longrightarrow> - (2 ^ 63) \<le> v \<and> v < 2 ^ 63"
  by (auto simp: ParseDuration_def Let_def split: prod.splits if_splits option.splits dest!: durationSum_bound)

section \<open>Base64\<close>

definition b64_char :: "nat \<Rightarrow> char" where
  "b64_char n =
     (if n < 26 then char_of (65 + n) else if n < 52 then char_of (71 + n)
      else if n < 62 then char_of (n - 4) else if n = 62 then CHR ''-'' else CHR ''_'')"

definition b64_value :: "char \<Rightarrow> nat option" where
  "b64_value c =
     (let n = byte c in
      if 65 \<le> n \<and> n \<le> 90 then Some (n - 65) else if 97 \<le> n \<and> n \<le> 122 then Some (n - 71)
      else if 48 \<le> n \<and> n \<le> 57 then Some (n + 4) else if c = CHR ''-'' then Some 62
      else if c = CHR ''_'' then Some 63 else None)"

fun sextets :: "nat list \<Rightarrow> nat list" where
  "sextets [] = []"
| "sextets [a] = [a div 4, a mod 4 * 16]"
| "sextets [a, b] = [a div 4, a mod 4 * 16 + b div 16, b mod 16 * 4]"
| "sextets (a # b # c # r) =
     [a div 4, a mod 4 * 16 + b div 16, b mod 16 * 4 + c div 64, c mod 64] @ sextets r"

fun octets :: "nat list \<Rightarrow> nat list option" where
  "octets [] = Some []"
| "octets [a] = None"
| "octets [a, b] = Some [a * 4 + b div 16]"
| "octets [a, b, c] = Some [a * 4 + b div 16, b mod 16 * 16 + c div 4]"
| "octets (a # b # c # d # r) =
     map_option ((@) [a * 4 + b div 16, b mod 16 * 16 + c div 4, c mod 4 * 64 + d]) (octets r)"

text \<open>\<^verbatim>\<open>base64.RawURLEncoding\<close>; the decoder passes over line breaks and does not look at the unused bits.\<close>

definition b64_EncodeToString :: "string \<Rightarrow> string" where
  "b64_EncodeToString s = map b64_char (sextets (map byte s))"

definition b64_DecodeString :: "string \<Rightarrow> string option" where
  "b64_DecodeString s =
     (let vs = map b64_value (filter (\<lambda>c. c \<noteq> CHR 0x0A \<and> c \<noteq> CHR 0x0D) s) in
      if None \<in> set vs then None
      else map_option (map char_of) (octets (map the vs)))"


lemma b64_value_char: "n < 64 \<Longrightarrow> b64_value (b64_char n) = Some n"
  unfolding b64_char_def b64_value_def byte_def Let_def
  by (cases "n < 26"; cases "n < 52"; cases "n < 62"; cases "n = 62") auto

lemma b64_char_no_break: "n < 64 \<Longrightarrow> b64_char n \<noteq> CHR 0x0A \<and> b64_char n \<noteq> CHR 0x0D"
  using b64_value_char [of n] by (auto simp: b64_value_def byte_def Let_def)

lemma sextets_bound: "list_all (\<lambda>a. a < 256) xs \<Longrightarrow> list_all (\<lambda>a. a < 64) (sextets xs)"
  by (induction xs rule: sextets.induct) auto

lemma octets_sextets: "list_all (\<lambda>a. a < 256) xs \<Longrightarrow> octets (sextets xs) = Some xs"
proof (induction xs rule: sextets.induct)
  case (4 a b c r)
  have "(a mod 4 * 16 + b div 16) div 16 = a mod 4" "(a mod 4 * 16 + b div 16) mod 16 = b div 16"
    "(b mod 16 * 4 + c div 64) div 4 = b mod 16" "(b mod 16 * 4 + c div 64) mod 4 = c div 64"
    using 4(2) by (simp_all add: div_add1_eq mod_add_eq [symmetric] less_mult_imp_div_less)
  with 4 show ?case by simp
qed auto

lemma byte_bound: "byte c < 256"
  by (simp add: byte_def)

lemma char_of_byte [simp]: "char_of (byte c) = c"
  by (simp add: byte_def)

text \<open>Decoding undoes encoding.\<close>

lemma b64_roundtrip: "b64_DecodeString (b64_EncodeToString s) = Some s"
proof -
  let ?v = "sextets (map byte s)"
  have b: "list_all (\<lambda>a. a < 256) (map byte s)" by (simp add: list_all_iff byte_bound)
  have "map b64_value (filter (\<lambda>c. c \<noteq> CHR 0x0A \<and> c \<noteq> CHR 0x0D) (map b64_char vs)) = map Some vs"
    if "list_all (\<lambda>a. a < 64) vs" for vs
    using that by (induction vs) (auto simp: b64_value_char b64_char_no_break)
  from this [OF sextets_bound [OF b]] octets_sextets [OF b] show ?thesis
    by (simp add: b64_DecodeString_def b64_EncodeToString_def comp_def Let_def image_iff)
qed

lemma b64_encode_empty: "b64_EncodeToString s = [] \<longleftrightarrow> s = []"
  using b64_roundtrip [of s] by (auto simp: b64_EncodeToString_def b64_DecodeString_def Let_def)

end
