(* ===== verification/Domain.thy ===== *)
theory Domain
  imports Prelude
begin

text \<open>
  The internal domain types (\<^verbatim>\<open>internal/domain\<close>): the decoded meter reading and heartbeat with their
  assets, the enumerations, and the validation error every decoder failure is made of.
\<close>

section \<open>Enumerations\<close>

text \<open>
  \<^verbatim>\<open>DeviceClass\<close> and \<^verbatim>\<open>AssetType\<close> are string types in the source: a value converted from a stored
  column or an unvalidated payload may be any string.
\<close>

type_synonym DeviceClass = string
type_synonym AssetType = string

definition DeviceClassConsumer :: DeviceClass where
  "DeviceClassConsumer = ''consumer''"

definition DeviceClassResidentialProsumer :: DeviceClass where
  "DeviceClassResidentialProsumer = ''residential_prosumer''"

definition DeviceClassCommercial :: DeviceClass where
  "DeviceClassCommercial = ''commercial''"

definition AssetTypeBESS :: AssetType where
  "AssetTypeBESS = ''bess''"

definition AssetTypeEV :: AssetType where
  "AssetTypeEV = ''ev''"

lemmas enum_defs =
  DeviceClassConsumer_def DeviceClassResidentialProsumer_def DeviceClassCommercial_def
  AssetTypeBESS_def AssetTypeEV_def

section \<open>Telemetry\<close>

record StorageAssetReading =
  sr_AssetID :: string
  sr_AssetType :: AssetType
  sr_SocPct :: float64
  sr_PowerKw :: float64
  sr_CapacityKwh :: float64
  sr_PluggedIn :: "bool option"

record MeterReading =
  mr_SchemaVersion :: string
  mr_MeterID :: string
  mr_HouseID :: string
  mr_GridID :: string
  mr_DeviceClass :: DeviceClass
  mr_EventTime :: int
  mr_Seq :: int
  mr_SolarKw :: float64
  mr_ConsumptionKw :: float64
  mr_NetKw :: float64
  mr_StorageAssets :: "StorageAssetReading list"
  mr_WeatherIrradianceWm2 :: "float64 option"
  mr_CloudCoverPct :: "float64 option"

section \<open>Heartbeats\<close>

record FlexibleAsset =
  fa_AssetID :: string
  fa_AssetType :: AssetType
  fa_CapacityKwh :: float64
  fa_MaxChargeKw :: float64
  fa_MaxDischargeKw :: float64
  fa_V2GCapable :: "bool option"

record Heartbeat =
  hb_SchemaVersion :: string
  hb_GridID :: string
  hb_HouseID :: string
  hb_MeterID :: string
  hb_Status :: string
  hb_DeviceClass :: DeviceClass
  hb_RatedSolarKw :: float64
  hb_FlexibleAssets :: "FlexibleAsset list"

section \<open>Validation errors\<close>

text \<open>\<^verbatim>\<open>NewValidationError\<close>: the text names the field, the unwrap chain holds \<^verbatim>\<open>ErrValidation\<close>.\<close>

definition NewValidationError :: "string \<Rightarrow> string \<Rightarrow> go_error" where
  "NewValidationError field reason =
     \<lparr>err_text = ''validation: field '' @ go_quote field @ '': '' @ reason,
      err_chain = [ErrValidation]\<rparr>"

lemma errors_Is_validation [simp]: "errors_Is (NewValidationError f r) s \<longleftrightarrow> s = ErrValidation"
  by (simp add: errors_Is_def NewValidationError_def)

text \<open>A validation error and nothing else.\<close>

definition is_validation :: "go_error \<Rightarrow> bool" where
  "is_validation e \<longleftrightarrow> err_chain e = [ErrValidation]"

lemma is_validation_errors [simp]:
  "is_validation (NewValidationError f r)" "is_validation (Errorf_w pre e) \<longleftrightarrow> is_validation e"
  by (simp_all add: is_validation_def NewValidationError_def Errorf_w_def)

lemma is_validation_Is [simp]: "is_validation e \<Longrightarrow> errors_Is e s \<longleftrightarrow> s = ErrValidation"
  by (simp add: is_validation_def errors_Is_def)

end
