(* ===== verification/Sql.thy ===== *)
theory Sql
  imports Domain
begin

text \<open>
  The TimescaleDB side of the service: the tables of \<^verbatim>\<open>migrations/*.sql\<close> as lists of rows, single
  statements, and \<^verbatim>\<open>pgx.BeginFunc\<close> transactions.

  The database server is not part of the repository; what is modelled is the SQL text the code sends.
  Its environment is explicit: every statement, \<^verbatim>\<open>BEGIN\<close> and \<^verbatim>\<open>COMMIT\<close> takes the next entry of a list
  of faults (an empty list is a server that does not fail), which says whether the exchange succeeds,
  fails without effect, or takes effect with the reply lost.  Statements of one call run without
  interference from other connections.  Text columns are compared bytewise.
\<close>

section \<open>Rows\<close>

record grids_row =
  g_grid_id :: string
  g_lat :: float64
  g_lon :: float64
  g_display_name :: "string option"

record houses_row =
  h_house_id :: string
  h_grid_id :: string
  h_meter_id :: "string option"
  h_device_class :: string
  h_rated_solar_kw :: "float64 option"
  h_last_heartbeat_at :: int

record assets_row =
  a_asset_id :: string
  a_house_id :: string
  a_asset_type :: string
  a_capacity_kwh :: float64
  a_max_charge_kw :: float64
  a_max_discharge_kw :: float64
  a_v2g_capable :: "bool option"
  a_first_seen_at :: int
  a_last_seen_at :: int

record meter_row =
  m_time :: int
  m_meter_id :: string
  m_house_id :: string
  m_grid_id :: string
  m_device_class :: string
  m_schema_version :: string
  m_seq :: int
  m_solar_kw :: float64
  m_consumption_kw :: float64
  m_net_kw :: float64
  m_weather_irradiance_wm2 :: "float64 option"
  m_cloud_cover_pct :: "float64 option"

record storage_row =
  s_time :: int
  s_meter_id :: string
  s_house_id :: string
  s_asset_id :: string
  s_asset_type :: string
  s_soc_pct :: float64
  s_power_kw :: float64
  s_capacity_kwh :: float64
  s_plugged_in :: "bool option"

record failures_row =
  f_id :: int
  f_kafka_topic :: string
  f_kafka_partition :: int
  f_kafka_offset :: int
  f_kafka_key :: "bytes option"
  f_raw_payload :: bytes
  f_payload_sha256 :: string
  f_failure_stage :: string
  f_error_reason :: string
  f_attempt_count :: int
  f_first_failed_at :: int
  f_last_failed_at :: int
  f_resolution :: string
  f_resolved_at :: "int option"
  f_resolved_by :: "string option"

text \<open>A meter registration; the user is the text of a UUID.\<close>

record registrations_row =
  r_id :: string
  r_user_id :: string
  r_meter_id :: string
  r_registration_id :: string
  r_approval_status :: string
  r_role :: string
  r_created_at :: int
  r_updated_at :: int

record tables =
  t_grids :: "grids_row list"
  t_houses :: "houses_row list"
  t_flexible_assets :: "assets_row list"
  t_discovered_assets :: "assets_row list"
  t_meter_readings :: "meter_row list"
  t_storage_readings :: "storage_row list"
  t_failures :: "failures_row list"
  t_failures_seq :: int
  t_meter_registrations :: "registrations_row list"

text \<open>Primary and unique keys.\<close>

definition meter_pk :: "meter_row \<Rightarrow> int \<times> string \<times> int" where
  "meter_pk r = (m_time r, m_meter_id r, m_seq r)"

definition storage_pk :: "storage_row \<Rightarrow> int \<times> string \<times> string" where
  "storage_pk r = (s_time r, s_meter_id r, s_asset_id r)"

definition failure_key :: "failures_row \<Rightarrow> string \<times> int \<times> int \<times> string" where
  "failure_key r = (f_kafka_topic r, f_kafka_partition r, f_kafka_offset r, f_failure_stage r)"

definition tables_ok :: "tables \<Rightarrow> bool" where
  "tables_ok T \<longleftrightarrow>
     distinct (map g_grid_id (t_grids T)) \<and>
     distinct (map h_house_id (t_houses T)) \<and>
     distinct (map h_meter_id (filter (\<lambda>h. h_meter_id h \<noteq> None) (t_houses T))) \<and>
     (\<forall>h \<in> set (t_houses T). h_grid_id h \<in> g_grid_id ` set (t_grids T)) \<and>
     distinct (map a_asset_id (t_flexible_assets T)) \<and>
     distinct (map a_asset_id (t_discovered_assets T)) \<and>
     distinct (map meter_pk (t_meter_readings T)) \<and>
     distinct (map storage_pk (t_storage_readings T)) \<and>
     distinct (map failure_key (t_failures T)) \<and>
     distinct (map f_id (t_failures T)) \<and>
     (\<forall>f \<in> set (t_failures T). f_id f < t_failures_seq T)"

text \<open>
  The server orders floating-point values with NaN above everything else and equal to itself.
\<close>

definition pg_le :: "float64 \<Rightarrow> float64 \<Rightarrow> bool" where
  "pg_le v w \<longleftrightarrow> w = NaN \<or> f64_le v w"

definition pg_lt :: "float64 \<Rightarrow> float64 \<Rightarrow> bool" where
  "pg_lt v w \<longleftrightarrow> (w = NaN \<and> v \<noteq> NaN) \<or> f64_lt v w"

lemma pg_le_Fin [simp]: "pg_le (Fin a) (Fin b) \<longleftrightarrow> a \<le> b"
  by (simp add: pg_le_def)

lemma pg_lt_Fin [simp]: "pg_lt (Fin a) (Fin b) \<longleftrightarrow> a < b"
  by (simp add: pg_lt_def)

section \<open>Faults and statements\<close>

datatype infra = Conn string | CtxCanceled | CtxDeadline

fun infra_error :: "infra \<Rightarrow> go_error" where
  "infra_error (Conn t) = errors_New t"
| "infra_error CtxCanceled = sentinel_error ContextCanceled ''context canceled''"
| "infra_error CtxDeadline = sentinel_error ContextDeadlineExceeded ''context deadline exceeded''"

datatype fault = Succeed | Fail infra | Lost infra

record pg =
  pg_tables :: tables
  pg_faults :: "fault list"
  pg_clock :: int

text \<open>
  What a statement can report: an infrastructure error, an error of the server with its SQLSTATE, or
  \<^verbatim>\<open>pgx.ErrNoRows\<close> from scanning an empty result.
\<close>

datatype sql_error = Infra infra | PgError string string | NoRows

fun sql_go_error :: "sql_error \<Rightarrow> go_error" where
  "sql_go_error (Infra i) = infra_error i"
| "sql_go_error (PgError code t) =
     errors_New (''ERROR: '' @ t @ '' (SQLSTATE '' @ code @ '')'')"
| "sql_go_error NoRows = errors_New ''no rows in result set''"

definition pgUniqueViolation :: string where
  "pgUniqueViolation = ''23505''"

definition pgForeignKeyViolation :: string where
  "pgForeignKeyViolation = ''23503''"

definition pgCheckViolation :: string where
  "pgCheckViolation = ''23514''"

fun next_fault :: "fault list \<Rightarrow> fault \<times> fault list" where
  "next_fault [] = (Succeed, [])"
| "next_fault (f # fs) = (f, fs)"

definition stmt :: "(int \<Rightarrow> tables \<Rightarrow> (sql_error + 'a) \<times> tables) \<Rightarrow> pg \<Rightarrow> (sql_error + 'a) \<times> pg" where
  "stmt q p =
     (case next_fault (pg_faults p) of
        (Succeed, fs) \<Rightarrow>
          (case q (pg_clock p) (pg_tables p) of
             (r, T) \<Rightarrow> (r, p\<lparr>pg_tables := T, pg_faults := fs\<rparr>))
      | (Fail i, fs) \<Rightarrow> (Inl (Infra i), p\<lparr>pg_faults := fs\<rparr>)
      | (Lost i, fs) \<Rightarrow>
          (Inl (Infra i), p\<lparr>pg_tables := snd (q (pg_clock p) (pg_tables p)), pg_faults := fs\<rparr>))"

definition BeginFunc :: "(pg, 'a) act \<Rightarrow> (pg, 'a) act" where
  "BeginFunc fn p =
     (case next_fault (pg_faults p) of
        (Fail i, fs) \<Rightarrow> (Inl (infra_error i), p\<lparr>pg_faults := fs\<rparr>)
      | (Lost i, fs) \<Rightarrow> (Inl (infra_error i), p\<lparr>pg_faults := fs\<rparr>)
      | (Succeed, fs) \<Rightarrow>
          (case fn (p\<lparr>pg_faults := fs\<rparr>) of
             (Inl e, q) \<Rightarrow> (Inl e, q\<lparr>pg_tables := pg_tables p\<rparr>)
           | (Inr x, q) \<Rightarrow>
               (case next_fault (pg_faults q) of
                  (Succeed, gs) \<Rightarrow> (Inr x, q\<lparr>pg_faults := gs\<rparr>)
                | (Fail i, gs) \<Rightarrow>
                    (Inl (infra_error i), q\<lparr>pg_faults := gs, pg_tables := pg_tables p\<rparr>)
                | (Lost i, gs) \<Rightarrow> (Inl (infra_error i), q\<lparr>pg_faults := gs\<rparr>))))"

text \<open>\<open>pg_quiet\<close>: no fault is pending, so every exchange succeeds.\<close>

abbreviation pg_quiet :: "pg \<Rightarrow> bool" where
  "pg_quiet p \<equiv> pg_faults p = []"

lemma infra_error_not_permanent [simp]:
  "errors_Is (infra_error i) s \<longleftrightarrow>
     (i = CtxCanceled \<and> s = ContextCanceled) \<or> (i = CtxDeadline \<and> s = ContextDeadlineExceeded)"
  by (cases i) auto

lemma sql_go_error_is [simp]:
  "errors_Is (sql_go_error x) s \<Longrightarrow> s = ContextCanceled \<or> s = ContextDeadlineExceeded"
  by (cases x) auto

lemma stmt_quiet:
  "pg_quiet p \<Longrightarrow> stmt q p =
     (fst (q (pg_clock p) (pg_tables p)), p\<lparr>pg_tables := snd (q (pg_clock p) (pg_tables p))\<rparr>)"
  by (simp add: stmt_def split: prod.splits)

text \<open>
  A statement either did not run, and reports an infrastructure error, or ran once; the clock is not
  touched.
\<close>

lemma stmt_cases:
  assumes "stmt q p = (r, p')"
  obtains (run) "pg_tables p' = snd (q (pg_clock p) (pg_tables p))"
      "r = fst (q (pg_clock p) (pg_tables p))" "pg_clock p' = pg_clock p"
  | (failed) i where "r = Inl (Infra i)" "pg_tables p' = pg_tables p" "pg_clock p' = pg_clock p"
  | (lost) i where "r = Inl (Infra i)" "pg_tables p' = snd (q (pg_clock p) (pg_tables p))"
      "pg_clock p' = pg_clock p"
  using assms by (auto simp: stmt_def split: prod.splits fault.splits)

lemma stmt_Inr:
  assumes "stmt q p = (Inr x, p')"
  shows "q (pg_clock p) (pg_tables p) = (Inr x, pg_tables p')" "pg_clock p' = pg_clock p"
  using assms by (auto simp: stmt_def split: prod.splits fault.splits)

lemma stmt_InrD:
  "stmt q p = (Inr x, p') \<Longrightarrow>
     q (pg_clock p) (pg_tables p) = (Inr x, pg_tables p') \<and> pg_clock p' = pg_clock p"
  by (simp add: stmt_Inr)

lemma stmt_tables:
  "stmt q p = (r, p') \<Longrightarrow>
     pg_tables p' = pg_tables p \<or> pg_tables p' = snd (q (pg_clock p) (pg_tables p))"
  by (elim stmt_cases) auto

lemma stmt_clock [frame]: "stmt q p = (r, p') \<Longrightarrow> pg_clock p' = pg_clock p"
  by (elim stmt_cases)

text \<open>A statement that only reads never changes a table.\<close>

lemma stmt_read:
  "(\<And>c T. snd (q c T) = T) \<Longrightarrow> stmt q p = (r, p') \<Longrightarrow> pg_tables p' = pg_tables p"
  by (elim stmt_cases) auto

lemma BeginFunc_Inr:
  assumes "BeginFunc fn p = (Inr x, p')"
  obtains fs q where "fn (p\<lparr>pg_faults := fs\<rparr>) = (Inr x, q)" "pg_tables p' = pg_tables q"
    "pg_clock p' = pg_clock q"
  using assms by (auto simp: BeginFunc_def split: prod.splits fault.splits sum.splits)

text \<open>
  Atomicity: whatever happens, the tables are the old ones or those of a body that succeeded, and an
  error with the new tables means the acknowledgement of the commit was lost.
\<close>

lemma BeginFunc_atomic:
  assumes "BeginFunc fn p = (r, p')"
  obtains (rolled_back) e where "r = Inl e" "pg_tables p' = pg_tables p"
  | (committed) fs q x where "fn (p\<lparr>pg_faults := fs\<rparr>) = (Inr x, q)" "pg_tables p' = pg_tables q"
      "r = Inr x \<or> (\<exists>i. r = Inl (infra_error i))"
proof (cases "next_fault (pg_faults p)")
  case (Pair f fs)
  show thesis
  proof (cases f)
    case Succeed
    show thesis
    proof (cases "fn (p\<lparr>pg_faults := fs\<rparr>)")
      case body: (Pair s q)
      show thesis
      proof (cases s)
        case (Inl e)
        with assms Pair Succeed body show thesis
          by (intro rolled_back [of e]) (auto simp: BeginFunc_def)
      next
        case (Inr x)
        with assms Pair Succeed body have
          "pg_tables p' = pg_tables p \<and> (\<exists>e. r = Inl e) \<or>
           pg_tables p' = pg_tables q \<and> (r = Inr x \<or> (\<exists>i. r = Inl (infra_error i)))"
          by (auto simp: BeginFunc_def split: prod.splits fault.splits)
        with body Inr show thesis
          by (auto intro: rolled_back committed)
      qed
    qed
  qed (use assms Pair rolled_back in \<open>auto simp: BeginFunc_def\<close>)
qed

lemma pg_faults_id [simp]: "pg_quiet p \<Longrightarrow> p\<lparr>pg_faults := []\<rparr> = p"
  by (cases p) simp

lemma BeginFunc_quiet:
  "pg_quiet p \<Longrightarrow> fn p = (Inr x, q) \<Longrightarrow> pg_quiet q \<Longrightarrow> BeginFunc fn p = (Inr x, q)"
  by (simp add: BeginFunc_def)

lemma BeginFunc_quiet_error:
  "pg_quiet p \<Longrightarrow> fn p = (Inl e, q) \<Longrightarrow> BeginFunc fn p = (Inl e, q\<lparr>pg_tables := pg_tables p\<rparr>)"
  by (simp add: BeginFunc_def)

text \<open>A property of the tables that the body of a transaction keeps is kept by the transaction.\<close>

lemma BeginFunc_keeps:
  assumes "BeginFunc fn p = (r, p')" and "P (pg_tables p)"
    and "\<And>fs x q. fn (p\<lparr>pg_faults := fs\<rparr>) = (Inr x, q) \<Longrightarrow> P (pg_tables q)"
  shows "P (pg_tables p')"
  using assms(1)
proof (cases rule: BeginFunc_atomic)
  case (rolled_back e)
  with assms(2) show ?thesis by simp
next
  case (committed fs q x)
  with assms(3) show ?thesis by auto
qed

section \<open>Statements inside the store's methods\<close>

text \<open>\<open>onSql g m\<close> runs a statement and turns its error into the one the Go code returns.\<close>

definition onSql :: "(sql_error \<Rightarrow> go_error) \<Rightarrow> (pg \<Rightarrow> (sql_error + 'a) \<times> pg) \<Rightarrow> (pg, 'a) act" where
  "onSql g m p = (case m p of (r, p') \<Rightarrow> (failWith g r, p'))"

text \<open>The common case: \<^verbatim>\<open>fmt.Errorf("prefix: %w", err)\<close>.\<close>

definition sqlErrorf :: "string \<Rightarrow> sql_error \<Rightarrow> go_error" where
  "sqlErrorf pre x = Errorf_w pre (sql_go_error x)"

lemma onSql_Inr_iff [inversion]: "onSql g m p = (Inr x, p') \<longleftrightarrow> m p = (Inr x, p')"
  by (auto simp: onSql_def inversion split: prod.splits)

lemma onSql_Inl_iff: "onSql g m p = (Inl e, p') \<longleftrightarrow> (\<exists>x. m p = (Inl x, p') \<and> e = g x)"
  by (auto simp: onSql_def failWith_Inl_iff split: prod.splits)

lemma onSql_stmt_quiet:
  "pg_quiet p \<Longrightarrow> onSql g (stmt q) p =
     (failWith g (fst (q (pg_clock p) (pg_tables p))),
      p\<lparr>pg_tables := snd (q (pg_clock p) (pg_tables p))\<rparr>)"
  by (simp add: onSql_def stmt_quiet)

lemma onSql_clock [frame]: "onSql g (stmt q) p = (r, p') \<Longrightarrow> pg_clock p' = pg_clock p"
  by (auto simp: onSql_def dest: stmt_clock split: prod.splits)

lemma sqlErrorf_not_permanent:
  "errors_Is (sqlErrorf pre x) s \<Longrightarrow> s = ContextCanceled \<or> s = ContextDeadlineExceeded"
  by (simp add: sqlErrorf_def)


section \<open>Success means that nothing failed\<close>

text \<open>
  \<open>honest fn\<close>: when \<open>fn\<close> reports success, every exchange it made succeeded, so it did what it does on a
  server that never fails.  Every method is built from statements with combinators that keep this.
\<close>

definition honest :: "(pg, 'a) act \<Rightarrow> bool" where
  "honest fn \<longleftrightarrow>
     (\<forall>p x q. fn p = (Inr x, q) \<longrightarrow> fn (p\<lparr>pg_faults := []\<rparr>) = (Inr x, q\<lparr>pg_faults := []\<rparr>))"

named_theorems honesty \<open>combinators and methods that are honest\<close>

lemma honestD: "honest fn \<Longrightarrow> fn p = (Inr x, q) \<Longrightarrow> fn (p\<lparr>pg_faults := []\<rparr>) = (Inr x, q\<lparr>pg_faults := []\<rparr>)"
  by (simp add: honest_def)

lemma stmt_honest:
  "stmt q p = (Inr x, p') \<Longrightarrow> stmt q (p\<lparr>pg_faults := []\<rparr>) = (Inr x, p'\<lparr>pg_faults := []\<rparr>)"
  by (auto simp: stmt_def split: prod.splits fault.splits)

lemma honest_onSql [honesty]: "honest (onSql g (stmt q))"
  by (auto simp: honest_def onSql_Inr_iff dest: stmt_honest)

lemma honest_ret [honesty]: "honest (ret x)"
  by (simp add: honest_def)

lemma honest_throw [honesty]: "honest (throw e)"
  by (simp add: honest_def)

lemma honest_andThen [honesty]: "honest m \<Longrightarrow> (\<And>x. honest (k x)) \<Longrightarrow> honest (andThen m k)"
  unfolding honest_def andThen_Inr_iff by blast

lemma honest_if [honesty]: "honest m \<Longrightarrow> honest n \<Longrightarrow> honest (if b then m else n)"
  by simp

lemma honest_option [honesty]:
  "honest m \<Longrightarrow> (\<And>x. honest (k x)) \<Longrightarrow> honest (case v of None \<Rightarrow> m | Some x \<Rightarrow> k x)"
  by (cases v) auto

text \<open>
  A transaction with an honest body: rolled back with an error, or the tables are those the body makes
  on a server that does not fail.
\<close>

lemma BeginFunc_honest:
  assumes "honest fn" "BeginFunc fn p = (r, p')"
  obtains (rolled_back) e where "r = Inl e" "pg_tables p' = pg_tables p"
  | (committed) q x where "fn (p\<lparr>pg_faults := []\<rparr>) = (Inr x, q)" "pg_tables p' = pg_tables q"
      "r = Inr x \<or> (\<exists>i. r = Inl (infra_error i))"
  using assms(2)
proof (cases rule: BeginFunc_atomic)
  case (committed fs q x)
  from honestD [OF assms(1) committed(1)] committed(2,3) that(2) show thesis by simp
qed (use that in blast)


section \<open>What a method leaves alone\<close>

text \<open>\<open>keeps f m\<close>: under any faults \<open>m\<close> does not change the part \<open>f\<close> of the tables.\<close>

definition keeps :: "(tables \<Rightarrow> 'c) \<Rightarrow> (pg, 'a) act \<Rightarrow> bool" where
  "keeps f m \<longleftrightarrow> (\<forall>p r q. m p = (r, q) \<longrightarrow> f (pg_tables q) = f (pg_tables p))"

named_theorems keeping \<open>combinators and methods that leave a part of the tables alone\<close>

lemma keepsD: "keeps f m \<Longrightarrow> m p = (r, q) \<Longrightarrow> f (pg_tables q) = f (pg_tables p)"
  by (simp add: keeps_def)

lemma keeps_onSql [keeping]: "(\<And>c T. f (snd (q c T)) = f T) \<Longrightarrow> keeps f (onSql g (stmt q))"
  unfolding keeps_def by (auto simp: onSql_def dest!: stmt_tables split: prod.splits)

lemma keeps_ret [keeping]: "keeps f (ret x)"
  by (simp add: keeps_def)

lemma keeps_throw [keeping]: "keeps f (throw e)"
  by (simp add: keeps_def)

lemma keeps_andThen [keeping]: "keeps f m \<Longrightarrow> (\<And>x. keeps f (k x)) \<Longrightarrow> keeps f (andThen m k)"
  unfolding keeps_def by (auto simp: andThen_def split: prod.splits sum.splits)

lemma keeps_if [keeping]: "keeps f m \<Longrightarrow> keeps f n \<Longrightarrow> keeps f (if b then m else n)"
  by simp

lemma keeps_option [keeping]:
  "keeps f m \<Longrightarrow> (\<And>x. keeps f (k x)) \<Longrightarrow> keeps f (case v of None \<Rightarrow> m | Some x \<Rightarrow> k x)"
  by (cases v) auto

lemma keeps_BeginFunc [keeping]: "keeps f m \<Longrightarrow> keeps f (BeginFunc m)"
proof (unfold keeps_def [of f "BeginFunc m"], intro allI impI)
  fix p r q
  assume m: "keeps f m" and b: "BeginFunc m p = (r, q)"
  show "f (pg_tables q) = f (pg_tables p)"
    by (rule BeginFunc_keeps [OF b]) (use keepsD [OF m] in \<open>fastforce+\<close>)
qed


text \<open>A transaction with an honest body is honest: success means begin, body and commit all succeeded.\<close>

lemma honest_BeginFunc [honesty]:
  assumes "honest fn"
  shows "honest (BeginFunc fn)"
  unfolding honest_def
proof (intro allI impI)
  fix p x q
  assume b: "BeginFunc fn p = (Inr x, q)"
  then obtain fs q1 gs where fn: "fn (p\<lparr>pg_faults := fs\<rparr>) = (Inr x, q1)" and q: "q = q1\<lparr>pg_faults := gs\<rparr>"
    by (auto simp: BeginFunc_def split: prod.splits fault.splits sum.splits)
  from honestD [OF assms fn] have "fn (p\<lparr>pg_faults := []\<rparr>) = (Inr x, q1\<lparr>pg_faults := []\<rparr>)" by simp
  then show "BeginFunc fn (p\<lparr>pg_faults := []\<rparr>) = (Inr x, q\<lparr>pg_faults := []\<rparr>)"
    by (simp add: BeginFunc_def q)
qed

end
