(* ===== verification/GoTime.thy ===== *)
theory GoTime
  imports Prelude
begin

text \<open>
  The rendering of instants with \<^verbatim>\<open>time.Time.Format\<close> in UTC for the two layouts the service uses,
  \<^verbatim>\<open>time.RFC3339\<close> (whole seconds) and \<^verbatim>\<open>time.RFC3339Nano\<close> (fraction without trailing zeros).
\<close>

text \<open>The proleptic Gregorian date of a day counted from the Unix epoch: eras of 400 years that start
  on 1 March, so that the leap day is the last day of a year.\<close>

definition civil_of_days :: "int \<Rightarrow> int \<times> int \<times> int" where
  "civil_of_days days =
     (let z = days + 719468;
          era = z div 146097;
          doe = z mod 146097;
          yoe = (doe - doe div 1460 + doe div 36524 - doe div 146096) div 365;
          doy = doe - (365 * yoe + yoe div 4 - yoe div 100);
          mp = (5 * doy + 2) div 153;
          d = doy - (153 * mp + 2) div 5 + 1;
          m = (if mp < 10 then mp + 3 else mp - 9);
          y = yoe + era * 400 + (if m \<le> 2 then 1 else 0)
      in (y, m, d))"

definition pad :: "nat \<Rightarrow> int \<Rightarrow> string" where
  "pad w i =
     (let s = show_nat (nat \<bar>i\<bar>)
      in (if i < 0 then ''-'' else '''') @ replicate (w - length s) CHR ''0'' @ s)"

definition format_seconds :: "int \<Rightarrow> string" where
  "format_seconds t =
     (let secs = t div ns_second; s = secs mod 86400 in
      case civil_of_days (secs div 86400) of (y, m, d) \<Rightarrow>
        pad 4 y @ ''-'' @ pad 2 m @ ''-'' @ pad 2 d @ ''T'' @
        pad 2 (s div 3600) @ '':'' @ pad 2 (s div 60 mod 60) @ '':'' @ pad 2 (s mod 60))"

definition trim_zeros :: "string \<Rightarrow> string" where
  "trim_zeros s = rev (dropWhile (\<lambda>c. c = CHR ''0'') (rev s))"

definition Format_RFC3339 :: "int \<Rightarrow> string" where
  "Format_RFC3339 t = format_seconds t @ ''Z''"

definition Format_RFC3339Nano :: "int \<Rightarrow> string" where
  "Format_RFC3339Nano t =
     (let frac = trim_zeros (pad 9 (t mod ns_second))
      in format_seconds t @ (if frac = [] then [] else ''.'' @ frac) @ ''Z'')"

text \<open>The layout with whole seconds shows nothing below the second.\<close>

lemma Format_RFC3339_Truncate:
  "Format_RFC3339 (time_Truncate ns_second t) = Format_RFC3339 t"
proof -
  have "time_Truncate ns_second t div ns_second = t div ns_second"
    by (simp add: time_Truncate_def minus_mod_eq_div_mult)
  then show ?thesis by (simp add: Format_RFC3339_def format_seconds_def)
qed

end
