(* ===== verification/Decoder.thy ===== *)
theory Decoder
  imports Domain
begin

text \<open>
  \<^verbatim>\<open>internal/ingestion/decoder.go\<close>: the wire structs, the field validators, the two record decoders
  and the identity check that \<^verbatim>\<open>cmd/register-houses\<close> shares with them.

  Two functions of the Go standard library are arguments of the decoders, collected in a record:
  \<^verbatim>\<open>json.Unmarshal\<close> into each wire struct and \<^verbatim>\<open>time.Parse(time.RFC3339, _)\<close>; both return either the
  text of their error or the decoded value.  No property assumes anything of them.
\<close>

section \<open>Wire structs\<close>

record storageAssetWire =
  sw_AssetID :: string
  sw_AssetType :: string
  sw_SocPct :: "float64 option"
  sw_PowerKw :: "float64 option"
  sw_CapacityKwh :: float64
  sw_PluggedIn :: "bool option"

record meterReadingsWire =
  rw_SolarKw :: "float64 option"
  rw_ConsumptionKw :: "float64 option"
  rw_NetKw :: "float64 option"
  rw_StorageAssets :: "storageAssetWire list"

record meterMetaWire =
  mm_WeatherIrradianceWm2 :: "float64 option"
  mm_CloudCoverPct :: "float64 option"

record meterReadingWire =
  mw_SchemaVersion :: string
  mw_MeterID :: string
  mw_HouseID :: string
  mw_GridID :: string
  mw_DeviceClass :: string
  mw_Timestamp :: string
  mw_Seq :: "int option"
  mw_Readings :: "meterReadingsWire option"
  mw_Meta :: "meterMetaWire option"

record flexibleAssetWire =
  fw_AssetID :: string
  fw_AssetType :: string
  fw_CapacityKwh :: float64
  fw_MaxChargeKw :: "float64 option"
  fw_MaxDischargeKw :: "float64 option"
  fw_V2GCapable :: "bool option"

record heartbeatWire =
  hw_SchemaVersion :: string
  hw_GridID :: string
  hw_HouseID :: string
  hw_MeterID :: string
  hw_Status :: string
  hw_DeviceClass :: string
  hw_RatedSolarKw :: "float64 option"
  hw_FlexibleAssets :: "flexibleAssetWire list"

record go_std =
  unmarshalMeter :: "bytes \<Rightarrow> string + meterReadingWire"
  unmarshalHeartbeat :: "bytes \<Rightarrow> string + heartbeatWire"
  parseRFC3339 :: "string \<Rightarrow> string + int"

section \<open>Constants and character classes\<close>

definition supportedSchemaVersion :: string where
  "supportedSchemaVersion = ''1.0''"

definition maxClockSkewFuture :: int where
  "maxClockSkewFuture = 5 * ns_minute"

definition maxClockSkewPast :: int where
  "maxClockSkewPast = 24 * ns_hour"

definition maxGridIDLen :: nat where
  "maxGridIDLen = 32"

definition maxAssetIDLen :: nat where
  "maxAssetIDLen = 64"

definition maxHouseNum :: nat where
  "maxHouseNum = 10"

definition isLowerAlnum :: "char \<Rightarrow> bool" where
  "isLowerAlnum b \<longleftrightarrow> (CHR ''a'' \<le> b \<and> b \<le> CHR ''z'') \<or> (CHR ''0'' \<le> b \<and> b \<le> CHR ''9'')"

definition isDigit :: "char \<Rightarrow> bool" where
  "isDigit b \<longleftrightarrow> CHR ''0'' \<le> b \<and> b \<le> CHR ''9''"

definition isAssetIDChar :: "char \<Rightarrow> bool" where
  "isAssetIDChar b \<longleftrightarrow>
     (CHR ''a'' \<le> b \<and> b \<le> CHR ''z'') \<or> (CHR ''A'' \<le> b \<and> b \<le> CHR ''Z'') \<or>
     (CHR ''0'' \<le> b \<and> b \<le> CHR ''9'') \<or> b = CHR ''_'' \<or> b = CHR ''-''"

section \<open>Shared field validators\<close>

definition validateSchemaVersion :: "string \<Rightarrow> go_error option" where
  "validateSchemaVersion v =
     (if v = '''' then Some (NewValidationError ''schema_version'' ''required'')
      else if v \<noteq> supportedSchemaVersion
      then Some (NewValidationError ''schema_version''
             (''unsupported version '' @ go_quote v @ '' (expected '' @
              go_quote supportedSchemaVersion @ '')''))
      else None)"

definition validateGridID :: "string \<Rightarrow> go_error option" where
  "validateGridID gridID =
     (if gridID = '''' then Some (NewValidationError ''grid_id'' ''required'')
      else if length gridID > maxGridIDLen
      then Some (NewValidationError ''grid_id''
             (''must be at most '' @ show_nat maxGridIDLen @ '' characters''))
      else if \<not> list_all isLowerAlnum gridID
      then Some (NewValidationError ''grid_id'' ''must be lowercase alphanumeric'')
      else None)"

definition validateHouseID :: "string \<Rightarrow> string \<Rightarrow> go_error option" where
  "validateHouseID houseID gridID =
     (if houseID = '''' then Some (NewValidationError ''house_id'' ''required'')
      else if \<not> HasPrefix houseID gridID \<or> length houseID \<le> length gridID \<or>
              houseID ! length gridID \<noteq> CHR ''-''
      then Some (NewValidationError ''house_id'' 
             (''must start with grid_id prefix followed by '' @ [CHR 0x27, CHR ''-'', CHR 0x27]))
      else let suffix = drop (length gridID + 1) houseID in
        if \<not> HasPrefix suffix ''house''
        then Some (NewValidationError ''house_id'' ''must match {grid_id}-house{N}'')
        else let digits = drop (length ''house'') suffix in
          if digits = '''' \<or> length digits > maxHouseNum
          then Some (NewValidationError ''house_id'' ''must match {grid_id}-house{N}'')
          else if \<not> list_all isDigit digits
          then Some (NewValidationError ''house_id'' ''must match {grid_id}-house{N}'')
          else None)"

definition validateMeterID :: "string \<Rightarrow> string \<Rightarrow> go_error option" where
  "validateMeterID meterID houseID =
     (if meterID = '''' then Some (NewValidationError ''meter_id'' ''required'')
      else if \<not> HasPrefix meterID ''meter-'' \<or> drop (length ''meter-'') meterID \<noteq> houseID
      then Some (NewValidationError ''meter_id''
             (''must equal '' @ [CHR 0x22] @ ''meter-'' @ [CHR 0x22] @ ''+house_id''))
      else None)"

definition validateAssetID :: "string \<Rightarrow> string \<Rightarrow> go_error option" where
  "validateAssetID field assetID =
     (if assetID = '''' then Some (NewValidationError field ''required'')
      else if length assetID > maxAssetIDLen
      then Some (NewValidationError field
             (''must be at most '' @ show_nat maxAssetIDLen @ '' characters''))
      else if \<not> list_all isAssetIDChar assetID
      then Some (NewValidationError field ''invalid characters'')
      else None)"

definition validateDeviceClass :: "string \<Rightarrow> go_error + DeviceClass" where
  "validateDeviceClass v =
     (if v = '''' then Inl (NewValidationError ''device_class'' ''required'')
      else if v = DeviceClassConsumer \<or> v = DeviceClassResidentialProsumer \<or>
              v = DeviceClassCommercial
      then Inr v
      else Inl (NewValidationError ''device_class'' (''unrecognized value '' @ go_quote v)))"

definition validateAssetType :: "string \<Rightarrow> string \<Rightarrow> go_error + AssetType" where
  "validateAssetType field v =
     (if v = '''' then Inl (NewValidationError field ''required'')
      else if v = AssetTypeBESS \<or> v = AssetTypeEV then Inr v
      else Inl (NewValidationError field (''unrecognized value '' @ go_quote v)))"

definition validateCapabilityField :: "string \<Rightarrow> AssetType \<Rightarrow> bool \<Rightarrow> go_error option" where
  "validateCapabilityField field assetType present =
     (if assetType = AssetTypeEV then
        (if \<not> present then Some (NewValidationError field ''required for asset_type ev'') else None)
      else if assetType = AssetTypeBESS then
        (if present
         then Some (NewValidationError field ''must not be present for asset_type bess'')
         else None)
      else None)"

definition validateFinite :: "string \<Rightarrow> float64 \<Rightarrow> go_error option" where
  "validateFinite field v =
     (if math_IsNaN v \<or> math_IsInf v
      then Some (NewValidationError field ''must be a finite number'') else None)"

definition validateClockSkew :: "int \<Rightarrow> int \<Rightarrow> go_error option" where
  "validateClockSkew now eventTime =
     (if eventTime > now + maxClockSkewFuture
      then Some (NewValidationError ''timestamp'' ''too far in the future (max skew 5m0s)'')
      else if eventTime < now - maxClockSkewPast
      then Some (NewValidationError ''timestamp'' ''too far in the past (max skew 24h0m0s)'')
      else None)"

section \<open>Required and optional numbers\<close>

definition requireFinite :: "string \<Rightarrow> float64 option \<Rightarrow> go_error + float64" where
  "requireFinite field v =
     (case v of None \<Rightarrow> Inl (NewValidationError field ''required'')
      | Some x \<Rightarrow> checkE (validateFinite field x) (Inr x))"

definition requireNonNegativeFinite :: "string \<Rightarrow> float64 option \<Rightarrow> go_error + float64" where
  "requireNonNegativeFinite field v =
     bindE (requireFinite field v) (\<lambda>val.
       if f64_lt val (Fin 0) then Inl (NewValidationError field ''must be >= 0'') else Inr val)"

definition requirePercent :: "string \<Rightarrow> float64 option \<Rightarrow> go_error + float64" where
  "requirePercent field v =
     bindE (requireFinite field v) (\<lambda>val.
       if f64_lt val (Fin 0) \<or> f64_lt (Fin 100) val
       then Inl (NewValidationError field ''must be between 0 and 100'') else Inr val)"

definition requireNonNegativeInt :: "string \<Rightarrow> int option \<Rightarrow> go_error + int" where
  "requireNonNegativeInt field v =
     (case v of None \<Rightarrow> Inl (NewValidationError field ''required'')
      | Some x \<Rightarrow> if x < 0 then Inl (NewValidationError field ''must be >= 0'') else Inr x)"

definition optionalNonNegativeFinite ::
    "string \<Rightarrow> float64 option \<Rightarrow> go_error + float64 option" where
  "optionalNonNegativeFinite field v =
     (case v of None \<Rightarrow> Inr None
      | Some _ \<Rightarrow> bindE (requireNonNegativeFinite field v) (\<lambda>val. Inr (Some val)))"

definition optionalPercent :: "string \<Rightarrow> float64 option \<Rightarrow> go_error + float64 option" where
  "optionalPercent field v =
     (case v of None \<Rightarrow> Inr None
      | Some _ \<Rightarrow> bindE (requirePercent field v) (\<lambda>val. Inr (Some val)))"

section \<open>Record decoders\<close>

definition decodeStorageAsset ::
    "nat \<Rightarrow> string list \<Rightarrow> storageAssetWire \<Rightarrow> go_error + StorageAssetReading" where
  "decodeStorageAsset i seen a =
     (let field = ''readings.storage_assets['' @ show_nat i @ '']'' in
      checkE (validateAssetID (field @ ''.asset_id'') (sw_AssetID a)) (
      if sw_AssetID a \<in> set seen
      then Inl (NewValidationError (field @ ''.asset_id'') ''duplicate asset_id in storage_assets'')
      else
      bindE (validateAssetType (field @ ''.asset_type'') (sw_AssetType a)) (\<lambda>assetType.
      bindE (requirePercent (field @ ''.soc_pct'') (sw_SocPct a)) (\<lambda>socPct.
      bindE (requireFinite (field @ ''.power_kw'') (sw_PowerKw a)) (\<lambda>powerKw.
      checkE (validateFinite (field @ ''.capacity_kwh'') (sw_CapacityKwh a)) (
      if f64_le (sw_CapacityKwh a) (Fin 0)
      then Inl (NewValidationError (field @ ''.capacity_kwh'') ''required, must be > 0'')
      else
      checkE (validateCapabilityField (field @ ''.plugged_in'') assetType (sw_PluggedIn a \<noteq> None)) (
      Inr \<lparr>sr_AssetID = sw_AssetID a, sr_AssetType = assetType, sr_SocPct = socPct,
           sr_PowerKw = powerKw, sr_CapacityKwh = sw_CapacityKwh a,
           sr_PluggedIn = sw_PluggedIn a\<rparr>)))))))"

fun decodeStorageAssets ::
    "nat \<Rightarrow> string list \<Rightarrow> storageAssetWire list \<Rightarrow> go_error + StorageAssetReading list" where
  "decodeStorageAssets i seen [] = Inr []"
| "decodeStorageAssets i seen (a # as) =
     bindE (decodeStorageAsset i seen a) (\<lambda>r.
     bindE (decodeStorageAssets (Suc i) (sw_AssetID a # seen) as) (\<lambda>rs. Inr (r # rs)))"

definition decodeFlexibleAsset ::
    "nat \<Rightarrow> string list \<Rightarrow> flexibleAssetWire \<Rightarrow> go_error + FlexibleAsset" where
  "decodeFlexibleAsset i seen a =
     (let field = ''flexible_assets['' @ show_nat i @ '']'' in
      checkE (validateAssetID (field @ ''.asset_id'') (fw_AssetID a)) (
      if fw_AssetID a \<in> set seen
      then Inl (NewValidationError (field @ ''.asset_id'') ''duplicate asset_id in flexible_assets'')
      else
      bindE (validateAssetType (field @ ''.asset_type'') (fw_AssetType a)) (\<lambda>assetType.
      checkE (validateFinite (field @ ''.capacity_kwh'') (fw_CapacityKwh a)) (
      if f64_le (fw_CapacityKwh a) (Fin 0)
      then Inl (NewValidationError (field @ ''.capacity_kwh'') ''required, must be > 0'')
      else
      bindE (requireNonNegativeFinite (field @ ''.max_charge_kw'') (fw_MaxChargeKw a)) (\<lambda>maxChargeKw.
      bindE (requireNonNegativeFinite (field @ ''.max_discharge_kw'') (fw_MaxDischargeKw a))
        (\<lambda>maxDischargeKw.
      checkE (validateCapabilityField (field @ ''.v2g_capable'') assetType (fw_V2GCapable a \<noteq> None)) (
      Inr \<lparr>fa_AssetID = fw_AssetID a, fa_AssetType = assetType, fa_CapacityKwh = fw_CapacityKwh a,
           fa_MaxChargeKw = maxChargeKw, fa_MaxDischargeKw = maxDischargeKw,
           fa_V2GCapable = fw_V2GCapable a\<rparr>)))))))"

fun decodeFlexibleAssets ::
    "nat \<Rightarrow> string list \<Rightarrow> flexibleAssetWire list \<Rightarrow> go_error + FlexibleAsset list" where
  "decodeFlexibleAssets i seen [] = Inr []"
| "decodeFlexibleAssets i seen (a # as) =
     bindE (decodeFlexibleAsset i seen a) (\<lambda>r.
     bindE (decodeFlexibleAssets (Suc i) (fw_AssetID a # seen) as) (\<lambda>rs. Inr (r # rs)))"

text \<open>The optional debug block: absent, both values are absent.\<close>

definition decodeMeta ::
    "meterMetaWire option \<Rightarrow> go_error + float64 option \<times> float64 option" where
  "decodeMeta m =
     (case m of None \<Rightarrow> Inr (None, None)
      | Some meta \<Rightarrow>
          bindE (optionalNonNegativeFinite ''meta.weather_irradiance_wm2''
                   (mm_WeatherIrradianceWm2 meta)) (\<lambda>weatherIrradiance.
          bindE (optionalPercent ''meta.cloud_cover_pct'' (mm_CloudCoverPct meta)) (\<lambda>cloudCover.
          Inr (weatherIrradiance, cloudCover))))"

definition DecodeMeterReading :: "go_std \<Rightarrow> int \<Rightarrow> bytes \<Rightarrow> go_error + MeterReading" where
  "DecodeMeterReading std now raw =
     bindE (failWith (\<lambda>err. NewValidationError ''payload'' (''invalid JSON: '' @ err))
              (unmarshalMeter std raw)) (\<lambda>wire.
     checkE (validateSchemaVersion (mw_SchemaVersion wire)) (
     checkE (validateGridID (mw_GridID wire)) (
     checkE (validateHouseID (mw_HouseID wire) (mw_GridID wire)) (
     checkE (validateMeterID (mw_MeterID wire) (mw_HouseID wire)) (
     bindE (validateDeviceClass (mw_DeviceClass wire)) (\<lambda>deviceClass.
     if mw_Timestamp wire = '''' then Inl (NewValidationError ''timestamp'' ''required'')
     else
     bindE (failWith (\<lambda>err. NewValidationError ''timestamp'' (''not RFC3339: '' @ err))
              (parseRFC3339 std (mw_Timestamp wire))) (\<lambda>eventTime.
     checkE (validateClockSkew now eventTime) (
     bindE (requireNonNegativeInt ''seq'' (mw_Seq wire)) (\<lambda>seq.
     case mw_Readings wire of
       None \<Rightarrow> Inl (NewValidationError ''readings'' ''required'')
     | Some readings \<Rightarrow>
     bindE (requireNonNegativeFinite ''readings.solar_kw'' (rw_SolarKw readings)) (\<lambda>solarKw.
     bindE (requireNonNegativeFinite ''readings.consumption_kw'' (rw_ConsumptionKw readings))
       (\<lambda>consumptionKw.
     bindE (requireFinite ''readings.net_kw'' (rw_NetKw readings)) (\<lambda>netKw.
     bindE (decodeStorageAssets 0 [] (rw_StorageAssets readings)) (\<lambda>storageAssets.
     bindE (decodeMeta (mw_Meta wire)) (\<lambda>(weatherIrradiance, cloudCover).
     Inr \<lparr>mr_SchemaVersion = mw_SchemaVersion wire, mr_MeterID = mw_MeterID wire,
          mr_HouseID = mw_HouseID wire, mr_GridID = mw_GridID wire, mr_DeviceClass = deviceClass,
          mr_EventTime = eventTime, mr_Seq = seq, mr_SolarKw = solarKw,
          mr_ConsumptionKw = consumptionKw, mr_NetKw = netKw, mr_StorageAssets = storageAssets,
          mr_WeatherIrradianceWm2 = weatherIrradiance, mr_CloudCoverPct = cloudCover\<rparr>
     ))))))))))))))"

definition DecodeHeartbeat :: "go_std \<Rightarrow> bytes \<Rightarrow> go_error + Heartbeat" where
  "DecodeHeartbeat std raw =
     bindE (failWith (\<lambda>err. NewValidationError ''payload'' (''invalid JSON: '' @ err))
              (unmarshalHeartbeat std raw)) (\<lambda>wire.
     checkE (validateSchemaVersion (hw_SchemaVersion wire)) (
     checkE (validateGridID (hw_GridID wire)) (
     checkE (validateHouseID (hw_HouseID wire) (hw_GridID wire)) (
     checkE (validateMeterID (hw_MeterID wire) (hw_HouseID wire)) (
     if hw_Status wire = '''' then Inl (NewValidationError ''status'' ''required'')
     else if hw_Status wire \<noteq> ''online''
     then Inl (NewValidationError ''status'' (''unrecognized value '' @ go_quote (hw_Status wire)))
     else
     bindE (validateDeviceClass (hw_DeviceClass wire)) (\<lambda>deviceClass.
     bindE (requireNonNegativeFinite ''rated_solar_kw'' (hw_RatedSolarKw wire)) (\<lambda>ratedSolarKw.
     bindE (decodeFlexibleAssets 0 [] (hw_FlexibleAssets wire)) (\<lambda>flexibleAssets.
     Inr \<lparr>hb_SchemaVersion = hw_SchemaVersion wire, hb_GridID = hw_GridID wire,
          hb_HouseID = hw_HouseID wire, hb_MeterID = hw_MeterID wire, hb_Status = hw_Status wire,
          hb_DeviceClass = deviceClass, hb_RatedSolarKw = ratedSolarKw,
          hb_FlexibleAssets = flexibleAssets\<rparr>))))))))"

definition ValidateHouseIdentity ::
    "string \<Rightarrow> string \<Rightarrow> string \<Rightarrow> string \<Rightarrow> go_error + DeviceClass" where
  "ValidateHouseIdentity gridID houseID meterID deviceClass =
     checkE (validateGridID gridID) (
     checkE (validateHouseID houseID gridID) (
     checkE (validateMeterID meterID houseID) (
     validateDeviceClass deviceClass)))"

section \<open>What the validators accept\<close>

text \<open>The shape of identifiers, stated without the order of the checks.\<close>

definition grid_id_ok :: "string \<Rightarrow> bool" where
  "grid_id_ok g \<longleftrightarrow> g \<noteq> '''' \<and> length g \<le> 32 \<and> (\<forall>c \<in> set g. isLowerAlnum c)"

definition house_id_ok :: "string \<Rightarrow> string \<Rightarrow> bool" where
  "house_id_ok h g \<longleftrightarrow>
     (\<exists>ds. h = g @ ''-house'' @ ds \<and> ds \<noteq> '''' \<and> length ds \<le> 10 \<and> (\<forall>c \<in> set ds. isDigit c))"

definition asset_id_ok :: "string \<Rightarrow> bool" where
  "asset_id_ok a \<longleftrightarrow> a \<noteq> '''' \<and> length a \<le> 64 \<and> (\<forall>c \<in> set a. isAssetIDChar c)"

definition device_class_ok :: "DeviceClass \<Rightarrow> bool" where
  "device_class_ok v \<longleftrightarrow> v \<in> {''consumer'', ''residential_prosumer'', ''commercial''}"

definition asset_type_ok :: "AssetType \<Rightarrow> bool" where
  "asset_type_ok v \<longleftrightarrow> v \<in> {''bess'', ''ev''}"

definition identity_ok :: "string \<Rightarrow> string \<Rightarrow> string \<Rightarrow> DeviceClass \<Rightarrow> bool" where
  "identity_ok g h m c \<longleftrightarrow>
     grid_id_ok g \<and> house_id_ok h g \<and> m = ''meter-'' @ h \<and> device_class_ok c"

lemma validateSchemaVersion_None [simp]: "validateSchemaVersion v = None \<longleftrightarrow> v = ''1.0''"
  by (auto simp: validateSchemaVersion_def supportedSchemaVersion_def)

lemma validateGridID_None: "validateGridID g = None \<longleftrightarrow> grid_id_ok g"
  by (auto simp: validateGridID_def grid_id_ok_def maxGridIDLen_def list_all_iff)

lemma validateHouseID_None: "validateHouseID h g = None \<longleftrightarrow> house_id_ok h g"
proof
  assume v: "validateHouseID h g = None"
  then have "HasPrefix h g" "length g < length h" "h ! length g = CHR ''-''"
    by (auto simp: validateHouseID_def Let_def split: if_splits)
  then obtain r where h: "h = g @ CHR ''-'' # r"
    by (metis HasPrefix_def append_take_drop_id Cons_nth_drop_Suc)
  with v have "HasPrefix r ''house''"
    by (auto simp: validateHouseID_def Let_def split: if_splits)
  then obtain ds where "r = ''house'' @ ds" by (elim HasPrefixE)
  with v h show "house_id_ok h g"
    by (auto simp: validateHouseID_def Let_def house_id_ok_def maxHouseNum_def list_all_iff
             split: if_splits)
next
  assume "house_id_ok h g"
  then show "validateHouseID h g = None"
    by (auto simp: validateHouseID_def house_id_ok_def maxHouseNum_def list_all_iff HasPrefix_def
             nth_append)
qed

lemma validateMeterID_None: "validateMeterID m h = None \<longleftrightarrow> m = ''meter-'' @ h"
  by (auto simp: validateMeterID_def HasPrefix_iff)

lemma validateAssetID_None: "validateAssetID f a = None \<longleftrightarrow> asset_id_ok a"
  by (auto simp: validateAssetID_def asset_id_ok_def maxAssetIDLen_def list_all_iff)

lemma validateDeviceClass_Inr: "validateDeviceClass v = Inr c \<longleftrightarrow> c = v \<and> device_class_ok v"
  by (auto simp: validateDeviceClass_def device_class_ok_def enum_defs)

lemma validateAssetType_Inr: "validateAssetType f v = Inr t \<longleftrightarrow> t = v \<and> asset_type_ok v"
  by (auto simp: validateAssetType_def asset_type_ok_def enum_defs)

lemma validateCapabilityField_None:
  "asset_type_ok t \<Longrightarrow> validateCapabilityField f t present = None \<longleftrightarrow> (present \<longleftrightarrow> t = ''ev'')"
  by (auto simp: validateCapabilityField_def asset_type_ok_def enum_defs)

lemma validateFinite_None: "validateFinite f v = None \<longleftrightarrow> finite64 v"
  by (simp add: validateFinite_def finite64_not_special)

lemma validateClockSkew_None:
  "validateClockSkew now t = None \<longleftrightarrow> now - 24 * ns_hour \<le> t \<and> t \<le> now + 5 * ns_minute"
  by (auto simp: validateClockSkew_def maxClockSkewFuture_def maxClockSkewPast_def)

lemma requireFinite_Inr: "requireFinite f v = Inr x \<longleftrightarrow> v = Some x \<and> finite64 x"
  by (auto simp: requireFinite_def checkE_Inr_iff validateFinite_None split: option.splits)

lemma requireNonNegativeFinite_Inr:
  "requireNonNegativeFinite f v = Inr x \<longleftrightarrow> v = Some x \<and> (\<exists>a. x = Fin a \<and> 0 \<le> a)"
  by (cases x) (auto simp: requireNonNegativeFinite_def inversion requireFinite_Inr)

lemma requirePercent_Inr:
  "requirePercent f v = Inr x \<longleftrightarrow> v = Some x \<and> (\<exists>a. x = Fin a \<and> 0 \<le> a \<and> a \<le> 100)"
  by (cases x) (auto simp: requirePercent_def inversion requireFinite_Inr)

lemma requireNonNegativeInt_Inr: "requireNonNegativeInt f v = Inr x \<longleftrightarrow> v = Some x \<and> 0 \<le> x"
  by (auto simp: requireNonNegativeInt_def split: option.splits)

lemma optionalNonNegativeFinite_Inr:
  "optionalNonNegativeFinite f v = Inr x \<longleftrightarrow> x = v \<and> (\<forall>y. v = Some y \<longrightarrow> (\<exists>a. y = Fin a \<and> 0 \<le> a))"
  by (auto simp: optionalNonNegativeFinite_def bindE_Inr_iff requireNonNegativeFinite_Inr
           split: option.splits)

lemma optionalPercent_Inr:
  "optionalPercent f v = Inr x \<longleftrightarrow>
     x = v \<and> (\<forall>y. v = Some y \<longrightarrow> (\<exists>a. y = Fin a \<and> 0 \<le> a \<and> a \<le> 100))"
  by (auto simp: optionalPercent_def bindE_Inr_iff requirePercent_Inr split: option.splits)

lemmas validators_accept =
  validateGridID_None validateHouseID_None validateMeterID_None validateAssetID_None
  validateDeviceClass_Inr validateAssetType_Inr validateFinite_None validateClockSkew_None
  requireFinite_Inr requireNonNegativeFinite_Inr requirePercent_Inr requireNonNegativeInt_Inr
  optionalNonNegativeFinite_Inr optionalPercent_Inr

section \<open>Accepted payloads\<close>

text \<open>A storage entry of a wire payload that the decoder accepts, and the reading it becomes.\<close>

definition storage_wire_ok :: "storageAssetWire \<Rightarrow> bool" where
  "storage_wire_ok a \<longleftrightarrow>
     asset_id_ok (sw_AssetID a) \<and> asset_type_ok (sw_AssetType a) \<and>
     (\<exists>s. sw_SocPct a = Some (Fin s) \<and> 0 \<le> s \<and> s \<le> 100) \<and>
     (\<exists>p. sw_PowerKw a = Some (Fin p)) \<and>
     (\<exists>c. sw_CapacityKwh a = Fin c \<and> 0 < c) \<and>
     (sw_PluggedIn a \<noteq> None \<longleftrightarrow> sw_AssetType a = ''ev'')"

definition storage_of_wire :: "storageAssetWire \<Rightarrow> StorageAssetReading" where
  "storage_of_wire a =
     \<lparr>sr_AssetID = sw_AssetID a, sr_AssetType = sw_AssetType a, sr_SocPct = the (sw_SocPct a),
      sr_PowerKw = the (sw_PowerKw a), sr_CapacityKwh = sw_CapacityKwh a,
      sr_PluggedIn = sw_PluggedIn a\<rparr>"

definition flexible_wire_ok :: "flexibleAssetWire \<Rightarrow> bool" where
  "flexible_wire_ok a \<longleftrightarrow>
     asset_id_ok (fw_AssetID a) \<and> asset_type_ok (fw_AssetType a) \<and>
     (\<exists>c. fw_CapacityKwh a = Fin c \<and> 0 < c) \<and>
     (\<exists>m. fw_MaxChargeKw a = Some (Fin m) \<and> 0 \<le> m) \<and>
     (\<exists>m. fw_MaxDischargeKw a = Some (Fin m) \<and> 0 \<le> m) \<and>
     (fw_V2GCapable a \<noteq> None \<longleftrightarrow> fw_AssetType a = ''ev'')"

definition flexible_of_wire :: "flexibleAssetWire \<Rightarrow> FlexibleAsset" where
  "flexible_of_wire a =
     \<lparr>fa_AssetID = fw_AssetID a, fa_AssetType = fw_AssetType a, fa_CapacityKwh = fw_CapacityKwh a,
      fa_MaxChargeKw = the (fw_MaxChargeKw a), fa_MaxDischargeKw = the (fw_MaxDischargeKw a),
      fa_V2GCapable = fw_V2GCapable a\<rparr>"

lemma capacity_check: "finite64 v \<and> \<not> f64_le v (Fin 0) \<longleftrightarrow> (\<exists>c. v = Fin c \<and> 0 < c)"
  by (cases v) auto

lemma decodeStorageAsset_Inr:
  "decodeStorageAsset i seen a = Inr r \<longleftrightarrow>
     sw_AssetID a \<notin> set seen \<and> storage_wire_ok a \<and> r = storage_of_wire a"
proof -
  have "decodeStorageAsset i seen a = Inr r \<longleftrightarrow>
      asset_id_ok (sw_AssetID a) \<and> sw_AssetID a \<notin> set seen \<and> asset_type_ok (sw_AssetType a) \<and>
      (\<exists>s. sw_SocPct a = Some (Fin s) \<and> 0 \<le> s \<and> s \<le> 100 \<and>
      (\<exists>p. sw_PowerKw a = Some p \<and> finite64 p \<and>
       finite64 (sw_CapacityKwh a) \<and> \<not> f64_le (sw_CapacityKwh a) (Fin 0) \<and>
       (sw_PluggedIn a \<noteq> None \<longleftrightarrow> sw_AssetType a = ''ev'') \<and> r = storage_of_wire a))"
    unfolding decodeStorageAsset_def Let_def inversion validators_accept
    by (auto simp: storage_of_wire_def validateCapabilityField_None)
  then show ?thesis
    using capacity_check [of "sw_CapacityKwh a"] by (auto simp: storage_wire_ok_def finite64_iff)
qed

lemma decodeStorageAssets_Inr:
  "decodeStorageAssets i seen as = Inr rs \<longleftrightarrow>
     distinct (map sw_AssetID as) \<and> sw_AssetID ` set as \<inter> set seen = {} \<and>
     list_all storage_wire_ok as \<and> rs = map storage_of_wire as"
  by (induction as arbitrary: i seen rs) (auto simp: inversion decodeStorageAsset_Inr)

lemma decodeFlexibleAsset_Inr:
  "decodeFlexibleAsset i seen a = Inr r \<longleftrightarrow>
     fw_AssetID a \<notin> set seen \<and> flexible_wire_ok a \<and> r = flexible_of_wire a"
proof -
  have "decodeFlexibleAsset i seen a = Inr r \<longleftrightarrow>
      asset_id_ok (fw_AssetID a) \<and> fw_AssetID a \<notin> set seen \<and> asset_type_ok (fw_AssetType a) \<and>
      finite64 (fw_CapacityKwh a) \<and> \<not> f64_le (fw_CapacityKwh a) (Fin 0) \<and>
      (\<exists>m. fw_MaxChargeKw a = Some (Fin m) \<and> 0 \<le> m \<and>
      (\<exists>d. fw_MaxDischargeKw a = Some (Fin d) \<and> 0 \<le> d \<and>
       (fw_V2GCapable a \<noteq> None \<longleftrightarrow> fw_AssetType a = ''ev'') \<and> r = flexible_of_wire a))"
    unfolding decodeFlexibleAsset_def Let_def inversion validators_accept
    by (auto simp: flexible_of_wire_def validateCapabilityField_None)
  then show ?thesis
    using capacity_check [of "fw_CapacityKwh a"] by (auto simp: flexible_wire_ok_def)
qed

lemma decodeFlexibleAssets_Inr:
  "decodeFlexibleAssets i seen as = Inr rs \<longleftrightarrow>
     distinct (map fw_AssetID as) \<and> fw_AssetID ` set as \<inter> set seen = {} \<and>
     list_all flexible_wire_ok as \<and> rs = map flexible_of_wire as"
  by (induction as arbitrary: i seen rs) (auto simp: inversion decodeFlexibleAsset_Inr)

text \<open>The whole meter payload: what must hold of the wire value, and the reading it denotes.\<close>

definition readings_wire_ok :: "meterReadingsWire \<Rightarrow> bool" where
  "readings_wire_ok rd \<longleftrightarrow>
     (\<exists>s. rw_SolarKw rd = Some (Fin s) \<and> 0 \<le> s) \<and>
     (\<exists>c. rw_ConsumptionKw rd = Some (Fin c) \<and> 0 \<le> c) \<and>
     (\<exists>n. rw_NetKw rd = Some (Fin n)) \<and>
     distinct (map sw_AssetID (rw_StorageAssets rd)) \<and>
     list_all storage_wire_ok (rw_StorageAssets rd)"

definition meta_wire_ok :: "meterMetaWire option \<Rightarrow> bool" where
  "meta_wire_ok m \<longleftrightarrow> (\<forall>meta. m = Some meta \<longrightarrow>
     (\<forall>y. mm_WeatherIrradianceWm2 meta = Some y \<longrightarrow> (\<exists>a. y = Fin a \<and> 0 \<le> a)) \<and>
     (\<forall>y. mm_CloudCoverPct meta = Some y \<longrightarrow> (\<exists>a. y = Fin a \<and> 0 \<le> a \<and> a \<le> 100)))"

definition meter_wire_ok :: "go_std \<Rightarrow> int \<Rightarrow> meterReadingWire \<Rightarrow> bool" where
  "meter_wire_ok std now w \<longleftrightarrow>
     mw_SchemaVersion w = ''1.0'' \<and>
     identity_ok (mw_GridID w) (mw_HouseID w) (mw_MeterID w) (mw_DeviceClass w) \<and>
     mw_Timestamp w \<noteq> '''' \<and>
     (\<exists>t. parseRFC3339 std (mw_Timestamp w) = Inr t \<and>
          now - 24 * ns_hour \<le> t \<and> t \<le> now + 5 * ns_minute) \<and>
     (\<exists>n. mw_Seq w = Some n \<and> 0 \<le> n) \<and>
     (\<exists>rd. mw_Readings w = Some rd \<and> readings_wire_ok rd) \<and>
     meta_wire_ok (mw_Meta w)"

definition meter_of_wire :: "go_std \<Rightarrow> meterReadingWire \<Rightarrow> MeterReading" where
  "meter_of_wire std w =
     (let rd = the (mw_Readings w) in
      \<lparr>mr_SchemaVersion = mw_SchemaVersion w, mr_MeterID = mw_MeterID w,
       mr_HouseID = mw_HouseID w, mr_GridID = mw_GridID w, mr_DeviceClass = mw_DeviceClass w,
       mr_EventTime = projr (parseRFC3339 std (mw_Timestamp w)), mr_Seq = the (mw_Seq w),
       mr_SolarKw = the (rw_SolarKw rd), mr_ConsumptionKw = the (rw_ConsumptionKw rd),
       mr_NetKw = the (rw_NetKw rd),
       mr_StorageAssets = map storage_of_wire (rw_StorageAssets rd),
       mr_WeatherIrradianceWm2 = Option.bind (mw_Meta w) mm_WeatherIrradianceWm2,
       mr_CloudCoverPct = Option.bind (mw_Meta w) mm_CloudCoverPct\<rparr>)"

lemma decodeMeta_Inr:
  "decodeMeta m = Inr p \<longleftrightarrow>
     meta_wire_ok m \<and>
     p = (Option.bind m mm_WeatherIrradianceWm2, Option.bind m mm_CloudCoverPct)"
  by (cases m) (auto simp: decodeMeta_def meta_wire_ok_def inversion validators_accept)

definition heartbeat_wire_ok :: "heartbeatWire \<Rightarrow> bool" where
  "heartbeat_wire_ok w \<longleftrightarrow>
     hw_SchemaVersion w = ''1.0'' \<and>
     identity_ok (hw_GridID w) (hw_HouseID w) (hw_MeterID w) (hw_DeviceClass w) \<and>
     hw_Status w = ''online'' \<and>
     (\<exists>s. hw_RatedSolarKw w = Some (Fin s) \<and> 0 \<le> s) \<and>
     distinct (map fw_AssetID (hw_FlexibleAssets w)) \<and>
     list_all flexible_wire_ok (hw_FlexibleAssets w)"

definition heartbeat_of_wire :: "heartbeatWire \<Rightarrow> Heartbeat" where
  "heartbeat_of_wire w =
     \<lparr>hb_SchemaVersion = hw_SchemaVersion w, hb_GridID = hw_GridID w, hb_HouseID = hw_HouseID w,
      hb_MeterID = hw_MeterID w, hb_Status = hw_Status w, hb_DeviceClass = hw_DeviceClass w,
      hb_RatedSolarKw = the (hw_RatedSolarKw w),
      hb_FlexibleAssets = map flexible_of_wire (hw_FlexibleAssets w)\<rparr>"

lemma DecodeMeterReading_Inr:
  "DecodeMeterReading std now raw = Inr r \<longleftrightarrow>
     (\<exists>w. unmarshalMeter std raw = Inr w \<and> meter_wire_ok std now w \<and> r = meter_of_wire std w)"
proof (cases "unmarshalMeter std raw")
  case (Inl e)
  then show ?thesis by (simp add: DecodeMeterReading_def)
next
  case (Inr w)
  show ?thesis
  proof (cases "mw_Readings w")
    case None
    with Inr show ?thesis
      by (simp add: DecodeMeterReading_def meter_wire_ok_def inversion)
  next
    case (Some rd)
    have "DecodeMeterReading std now raw = Inr r \<longleftrightarrow> meter_wire_ok std now w \<and> r = meter_of_wire std w"
      unfolding DecodeMeterReading_def Inr Some failWith_simps bindE_simps inversion
        validators_accept option.case decodeStorageAssets_Inr decodeMeta_Inr
        meter_wire_ok_def identity_ok_def readings_wire_ok_def validateSchemaVersion_None
      by (auto simp: meter_of_wire_def Some finite64_iff)
    with Inr show ?thesis by simp
  qed
qed

lemma DecodeHeartbeat_Inr:
  "DecodeHeartbeat std raw = Inr h \<longleftrightarrow>
     (\<exists>w. unmarshalHeartbeat std raw = Inr w \<and> heartbeat_wire_ok w \<and> h = heartbeat_of_wire w)"
proof (cases "unmarshalHeartbeat std raw")
  case (Inl e)
  then show ?thesis by (simp add: DecodeHeartbeat_def)
next
  case (Inr w)
  have "DecodeHeartbeat std raw = Inr h \<longleftrightarrow> heartbeat_wire_ok w \<and> h = heartbeat_of_wire w"
    unfolding DecodeHeartbeat_def Inr failWith_simps bindE_simps inversion
      validators_accept decodeFlexibleAssets_Inr heartbeat_wire_ok_def identity_ok_def
      validateSchemaVersion_None
    by (auto simp: heartbeat_of_wire_def)
  with Inr show ?thesis by simp
qed

section \<open>Rejections are permanent\<close>

text \<open>Every validator failure is a validation error; the decoders add no other kind of failure.\<close>

lemma validate_rejects:
  "validateSchemaVersion v = Some e \<Longrightarrow> is_validation e"
  "validateGridID g = Some e \<Longrightarrow> is_validation e"
  "validateHouseID h g = Some e \<Longrightarrow> is_validation e"
  "validateMeterID m h = Some e \<Longrightarrow> is_validation e"
  "validateAssetID f a = Some e \<Longrightarrow> is_validation e"
  "validateFinite f x = Some e \<Longrightarrow> is_validation e"
  "validateClockSkew now t = Some e \<Longrightarrow> is_validation e"
  "validateCapabilityField f ty present = Some e \<Longrightarrow> is_validation e"
  by (auto simp: validateSchemaVersion_def validateGridID_def validateHouseID_def Let_def
      validateMeterID_def validateAssetID_def validateFinite_def validateClockSkew_def
      validateCapabilityField_def split: if_splits)

lemma class_rejects:
  "validateDeviceClass v = Inl e \<Longrightarrow> is_validation e"
  "validateAssetType f v = Inl e \<Longrightarrow> is_validation e"
  by (auto simp: validateDeviceClass_def validateAssetType_def split: if_splits)

lemma requireFinite_rejects: "requireFinite f v = Inl e \<Longrightarrow> is_validation e"
  by (auto simp: requireFinite_def checkE_Inl_iff dest: validate_rejects split: option.splits)

lemma require_rejects:
  "requireNonNegativeFinite f v = Inl e \<Longrightarrow> is_validation e"
  "requirePercent f v = Inl e \<Longrightarrow> is_validation e"
  "requireNonNegativeInt f n = Inl e \<Longrightarrow> is_validation e"
  by (auto simp: requireNonNegativeFinite_def requirePercent_def requireNonNegativeInt_def
      bindE_Inl_iff dest: requireFinite_rejects split: if_splits option.splits)

lemma optional_rejects:
  "optionalNonNegativeFinite f v = Inl e \<Longrightarrow> is_validation e"
  "optionalPercent f v = Inl e \<Longrightarrow> is_validation e"
  by (auto simp: optionalNonNegativeFinite_def optionalPercent_def bindE_Inl_iff
      dest: require_rejects split: option.splits)

lemmas rejects =
  validate_rejects class_rejects requireFinite_rejects require_rejects optional_rejects

text \<open>The rejection of a sequenced check is the rejection of one of its parts.\<close>

lemma bindE_rejects:
  "(\<And>e. m = Inl e \<Longrightarrow> P e) \<Longrightarrow> (\<And>x e. m = Inr x \<Longrightarrow> k x = Inl e \<Longrightarrow> P e) \<Longrightarrow>
   bindE m k = Inl e \<Longrightarrow> P e"
  by (auto simp: bindE_Inl_iff)

lemma checkE_rejects:
  "(\<And>e. c = Some e \<Longrightarrow> P e) \<Longrightarrow> (\<And>e. k = Inl e \<Longrightarrow> P e) \<Longrightarrow> checkE c k = Inl e \<Longrightarrow> P e"
  by (auto simp: checkE_Inl_iff)

lemma guard_rejects:
  "P e0 \<Longrightarrow> (\<And>e. k = Inl e \<Longrightarrow> P e) \<Longrightarrow> (if b then Inl e0 else k) = Inl e \<Longrightarrow> P e"
  by (auto split: if_splits)

lemma decodeStorageAsset_rejects: "decodeStorageAsset i seen a = Inl e \<Longrightarrow> is_validation e"
  unfolding decodeStorageAsset_def Let_def
  by (auto simp: bindE_Inl_iff checkE_Inl_iff dest: rejects split: if_splits)

lemma decodeStorageAssets_rejects:
  "decodeStorageAssets i seen as = Inl e \<Longrightarrow> is_validation e"
  by (induction as arbitrary: i seen)
     (auto simp: bindE_Inl_iff dest: decodeStorageAsset_rejects)

lemma decodeFlexibleAsset_rejects: "decodeFlexibleAsset i seen a = Inl e \<Longrightarrow> is_validation e"
  unfolding decodeFlexibleAsset_def Let_def
  by (auto simp: bindE_Inl_iff checkE_Inl_iff dest: rejects split: if_splits)

lemma decodeFlexibleAssets_rejects:
  "decodeFlexibleAssets i seen as = Inl e \<Longrightarrow> is_validation e"
  by (induction as arbitrary: i seen)
     (auto simp: bindE_Inl_iff dest: decodeFlexibleAsset_rejects)

lemma decodeMeta_rejects: "decodeMeta m = Inl e \<Longrightarrow> is_validation e"
  by (auto simp: decodeMeta_def bindE_Inl_iff dest: rejects split: option.splits)

lemma DecodeMeterReading_rejects_only:
  "DecodeMeterReading std now raw = Inl e \<Longrightarrow> is_validation e"
  unfolding DecodeMeterReading_def
  by (auto simp: bindE_Inl_iff checkE_Inl_iff failWith_Inl_iff
           dest: rejects decodeStorageAssets_rejects decodeMeta_rejects
           split: if_splits option.splits prod.splits)

lemma DecodeHeartbeat_rejects_only:
  "DecodeHeartbeat std raw = Inl e \<Longrightarrow> is_validation e"
  unfolding DecodeHeartbeat_def
  by (auto simp: bindE_Inl_iff checkE_Inl_iff failWith_Inl_iff
           dest: rejects decodeFlexibleAssets_rejects split: if_splits)

lemma DecodeMeterReading_rejects:
  "DecodeMeterReading std now raw = Inl e \<Longrightarrow> errors_Is e ErrValidation"
  by (drule DecodeMeterReading_rejects_only) simp

lemma DecodeHeartbeat_rejects:
  "DecodeHeartbeat std raw = Inl e \<Longrightarrow> errors_Is e ErrValidation"
  by (drule DecodeHeartbeat_rejects_only) simp

section \<open>Well-formed domain values\<close>

text \<open>
  What every decoded value satisfies.  The conditions imply the \<^verbatim>\<open>CHECK\<close> constraints of the tables the
  values are written to.
\<close>

definition storage_reading_ok :: "StorageAssetReading \<Rightarrow> bool" where
  "storage_reading_ok a \<longleftrightarrow>
     asset_id_ok (sr_AssetID a) \<and> asset_type_ok (sr_AssetType a) \<and>
     (\<exists>s. sr_SocPct a = Fin s \<and> 0 \<le> s \<and> s \<le> 100) \<and> finite64 (sr_PowerKw a) \<and>
     (\<exists>c. sr_CapacityKwh a = Fin c \<and> 0 < c) \<and>
     (sr_PluggedIn a \<noteq> None \<longleftrightarrow> sr_AssetType a = ''ev'')"

definition nonneg_opt :: "float64 option \<Rightarrow> bool" where
  "nonneg_opt v \<longleftrightarrow> (case v of None \<Rightarrow> True | Some x \<Rightarrow> finite64 x \<and> f64_le (Fin 0) x)"

definition percent_opt :: "float64 option \<Rightarrow> bool" where
  "percent_opt v \<longleftrightarrow>
     (case v of None \<Rightarrow> True | Some x \<Rightarrow> finite64 x \<and> f64_le (Fin 0) x \<and> f64_le x (Fin 100))"

definition reading_ok :: "MeterReading \<Rightarrow> bool" where
  "reading_ok r \<longleftrightarrow>
     mr_SchemaVersion r = ''1.0'' \<and>
     identity_ok (mr_GridID r) (mr_HouseID r) (mr_MeterID r) (mr_DeviceClass r) \<and>
     0 \<le> mr_Seq r \<and>
     (\<exists>s. mr_SolarKw r = Fin s \<and> 0 \<le> s) \<and> (\<exists>c. mr_ConsumptionKw r = Fin c \<and> 0 \<le> c) \<and>
     finite64 (mr_NetKw r) \<and>
     distinct (map sr_AssetID (mr_StorageAssets r)) \<and>
     list_all storage_reading_ok (mr_StorageAssets r) \<and>
     nonneg_opt (mr_WeatherIrradianceWm2 r) \<and> percent_opt (mr_CloudCoverPct r)"

definition flexible_ok :: "FlexibleAsset \<Rightarrow> bool" where
  "flexible_ok a \<longleftrightarrow>
     asset_id_ok (fa_AssetID a) \<and> asset_type_ok (fa_AssetType a) \<and>
     (\<exists>c. fa_CapacityKwh a = Fin c \<and> 0 < c) \<and>
     (\<exists>m. fa_MaxChargeKw a = Fin m \<and> 0 \<le> m) \<and> (\<exists>m. fa_MaxDischargeKw a = Fin m \<and> 0 \<le> m) \<and>
     (fa_V2GCapable a \<noteq> None \<longleftrightarrow> fa_AssetType a = ''ev'')"

definition heartbeat_ok :: "Heartbeat \<Rightarrow> bool" where
  "heartbeat_ok h \<longleftrightarrow>
     hb_SchemaVersion h = ''1.0'' \<and>
     identity_ok (hb_GridID h) (hb_HouseID h) (hb_MeterID h) (hb_DeviceClass h) \<and>
     hb_Status h = ''online'' \<and> (\<exists>s. hb_RatedSolarKw h = Fin s \<and> 0 \<le> s) \<and>
     distinct (map fa_AssetID (hb_FlexibleAssets h)) \<and>
     list_all flexible_ok (hb_FlexibleAssets h)"

lemma storage_of_wire_ok: "storage_wire_ok a \<Longrightarrow> storage_reading_ok (storage_of_wire a)"
  by (auto simp: storage_wire_ok_def storage_of_wire_def storage_reading_ok_def)

lemma flexible_of_wire_ok: "flexible_wire_ok a \<Longrightarrow> flexible_ok (flexible_of_wire a)"
  by (auto simp: flexible_wire_ok_def flexible_of_wire_def flexible_ok_def)

lemma sr_AssetID_of_wire [simp]: "map sr_AssetID (map storage_of_wire as) = map sw_AssetID as"
  by (simp add: storage_of_wire_def)

lemma fa_AssetID_of_wire [simp]: "map fa_AssetID (map flexible_of_wire as) = map fw_AssetID as"
  by (simp add: flexible_of_wire_def)

lemma meter_of_wire_ok:
  assumes "meter_wire_ok std now w"
  shows "reading_ok (meter_of_wire std w)"
proof -
  from assms obtain rd where rd: "mw_Readings w = Some rd" "readings_wire_ok rd"
    by (auto simp: meter_wire_ok_def)
  then have "list_all storage_reading_ok (map storage_of_wire (rw_StorageAssets rd))"
    by (auto simp: readings_wire_ok_def list_all_iff intro: storage_of_wire_ok)
  with assms rd show ?thesis
    by (auto simp: meter_wire_ok_def meter_of_wire_def reading_ok_def readings_wire_ok_def
        meta_wire_ok_def nonneg_opt_def percent_opt_def storage_of_wire_def o_def
        split: option.splits bind_splits)
qed

lemma decoded_reading_ok: "DecodeMeterReading std now raw = Inr r \<Longrightarrow> reading_ok r"
  unfolding DecodeMeterReading_Inr by (auto intro: meter_of_wire_ok)

lemma heartbeat_of_wire_ok:
  assumes "heartbeat_wire_ok w"
  shows "heartbeat_ok (heartbeat_of_wire w)"
proof -
  have assets: "list_all flexible_ok (map flexible_of_wire (hw_FlexibleAssets w))"
    using assms by (auto simp: heartbeat_wire_ok_def list_all_iff intro: flexible_of_wire_ok)
  have ids: "distinct (map fa_AssetID (map flexible_of_wire (hw_FlexibleAssets w)))"
    using assms unfolding fa_AssetID_of_wire heartbeat_wire_ok_def by blast
  have "\<exists>s. the (hw_RatedSolarKw w) = Fin s \<and> 0 \<le> s"
    using assms unfolding heartbeat_wire_ok_def by (metis option.sel)
  with assets ids assms show ?thesis
    unfolding heartbeat_wire_ok_def heartbeat_ok_def heartbeat_of_wire_def Heartbeat.select_convs
    by blast
qed

lemma decoded_heartbeat_ok: "DecodeHeartbeat std raw = Inr h \<Longrightarrow> heartbeat_ok h"
  unfolding DecodeHeartbeat_Inr by (auto intro: heartbeat_of_wire_ok)

text \<open>A grid identifier has no dash, so a house identifier names its grid.\<close>

lemma grid_of_house:
  assumes "grid_id_ok g" "house_id_ok h g"
  shows "takeWhile (\<lambda>c. c \<noteq> CHR ''-'') h = g"
proof -
  have "\<not> isLowerAlnum CHR ''-''"
    by (simp add: isLowerAlnum_def less_eq_char_def)
  then have dash: "c \<noteq> CHR ''-''" if "c \<in> set g" for c
    using assms(1) that unfolding grid_id_ok_def by blast
  from assms(2) obtain ds where h: "h = g @ ''-house'' @ ds"
    unfolding house_id_ok_def by blast
  have "takeWhile (\<lambda>c. c \<noteq> CHR ''-'') (g @ ''-house'' @ ds) =
      g @ takeWhile (\<lambda>c. c \<noteq> CHR ''-'') (''-house'' @ ds)"
    using dash by (rule takeWhile_append2)
  then show ?thesis by (simp add: h)
qed

lemma ValidateHouseIdentity_Inr:
  "ValidateHouseIdentity g h m c = Inr d \<longleftrightarrow> identity_ok g h m c \<and> d = c"
  by (auto simp: ValidateHouseIdentity_def inversion validators_accept identity_ok_def)

lemma ValidateHouseIdentity_rejects:
  "ValidateHouseIdentity g h m c = Inl e \<Longrightarrow> errors_Is e ErrValidation"
  by (auto simp: ValidateHouseIdentity_def checkE_Inl_iff dest!: rejects)

section \<open>Properties\<close>

text \<open>
  C1.  The meter decoder is exact.  It returns a reading if and only if the bytes unmarshal to a wire
  value with the supported schema version, a consistent grid/house/meter/class identity, a timestamp
  inside the clock-skew window, a non-negative sequence number, finite and in-range measurements and
  pairwise distinct, well-formed storage assets; the reading is that wire value, field by field, and
  is well formed.  In every other case the error is a validation error, which is permanent.
\<close>

theorem DecodeMeterReading_exact:
  "case DecodeMeterReading std now raw of
     Inr r \<Rightarrow> reading_ok r \<and> now - 24 * ns_hour \<le> mr_EventTime r \<and>
             mr_EventTime r \<le> now + 5 * ns_minute \<and>
             (\<exists>w. unmarshalMeter std raw = Inr w \<and> meter_wire_ok std now w \<and>
                  r = meter_of_wire std w)
   | Inl e \<Rightarrow> errors_Is e ErrValidation \<and>
             (\<nexists>w. unmarshalMeter std raw = Inr w \<and> meter_wire_ok std now w)"
proof (cases "DecodeMeterReading std now raw")
  case (Inl e)
  then have "\<nexists>w. unmarshalMeter std raw = Inr w \<and> meter_wire_ok std now w"
    by (metis DecodeMeterReading_Inr Inl_Inr_False)
  with Inl show ?thesis by (simp add: DecodeMeterReading_rejects)
next
  case (Inr r)
  then obtain w where w: "unmarshalMeter std raw = Inr w" "meter_wire_ok std now w"
      "r = meter_of_wire std w"
    by (auto simp: DecodeMeterReading_Inr)
  then have "now - 24 * ns_hour \<le> mr_EventTime r \<and> mr_EventTime r \<le> now + 5 * ns_minute"
    by (auto simp: meter_wire_ok_def meter_of_wire_def Let_def)
  with Inr w show ?thesis by (auto intro: meter_of_wire_ok)
qed

text \<open>
  C2.  The heartbeat decoder is exact in the same sense: it returns exactly the well-formed
  heartbeats, whose status is \<^verbatim>\<open>online\<close> and whose assets are distinct and well formed, and rejects
  everything else with a validation error.
\<close>

theorem DecodeHeartbeat_exact:
  "case DecodeHeartbeat std raw of
     Inr h \<Rightarrow> heartbeat_ok h \<and>
             (\<exists>w. unmarshalHeartbeat std raw = Inr w \<and> heartbeat_wire_ok w \<and>
                  h = heartbeat_of_wire w)
   | Inl e \<Rightarrow> errors_Is e ErrValidation \<and>
             (\<nexists>w. unmarshalHeartbeat std raw = Inr w \<and> heartbeat_wire_ok w)"
proof (cases "DecodeHeartbeat std raw")
  case (Inl e)
  then have "\<nexists>w. unmarshalHeartbeat std raw = Inr w \<and> heartbeat_wire_ok w"
    by (metis DecodeHeartbeat_Inr Inl_Inr_False)
  with Inl show ?thesis by (simp add: DecodeHeartbeat_rejects)
next
  case (Inr h)
  then obtain w where "unmarshalHeartbeat std raw = Inr w" "heartbeat_wire_ok w"
      "h = heartbeat_of_wire w"
    by (auto simp: DecodeHeartbeat_Inr)
  with Inr show ?thesis by (auto intro: heartbeat_of_wire_ok)
qed

text \<open>
  The identity check of house provisioning accepts exactly the identities that telemetry can
  carry, and an accepted house identifier determines the rest: the grid is the part before the dash
  and the meter is \<^verbatim>\<open>meter-\<close> followed by the house, so two accepted identities of one house agree and
  two houses never share a meter.
\<close>

theorem ValidateHouseIdentity_exact:
  "ValidateHouseIdentity g h m c = Inr d \<longleftrightarrow>
     g = takeWhile (\<lambda>x. x \<noteq> CHR ''-'') h \<and> m = ''meter-'' @ h \<and> d = c \<and>
     grid_id_ok g \<and> house_id_ok h g \<and> device_class_ok c"
  unfolding ValidateHouseIdentity_Inr identity_ok_def using grid_of_house [of g h] by blast

end
