(* ===== verification/Interfaces.thy ===== *)
theory Interfaces
  imports Prelude "HOL-Library.Sublist"
begin

text \<open>
  The contracts between the components, as locales: what the consumer of a component relies on, and
  the consequences it draws.  Each locale is interpreted on the definitions of the component that
  provides it.
\<close>

section \<open>An append-only log with unique keys\<close>

text \<open>Handing a list of inputs to an operation, one after the other, whatever each one returns.\<close>

fun deliver :: "('r \<Rightarrow> ('s, 'b) act) \<Rightarrow> 'r list \<Rightarrow> 's \<Rightarrow> (go_error + 'b) list \<times> 's" where
  "deliver f [] s = ([], s)"
| "deliver f (r # rs) s =
     (case f r s of (res, s1) \<Rightarrow> (case deliver f rs s1 of (out, s2) \<Rightarrow> (res # out, s2)))"

lemma deliver_Cons:
  assumes "deliver f (r # rs) s = (out, s')"
  obtains res s1 out1 where "f r s = (res, s1)" "deliver f rs s1 = (out1, s')" "out = res # out1"
  using assms by (auto split: prod.splits)

lemma length_deliver: "deliver f rs s = (out, s') \<Longrightarrow> length out = length rs"
  by (induction rs arbitrary: s out) (auto split: prod.splits)

text \<open>
  \<open>ins\<close> adds one row under a key.  It may fail after the row was written (the acknowledgement is
  lost), it never changes a row that is there, and success on a well-formed input means that the row
  is there.
\<close>

locale immutable_log =
  fixes ins :: "'r \<Rightarrow> ('s, bool) act"
    and hist :: "'s \<Rightarrow> 'row list"
    and row_of :: "'r \<Rightarrow> 'row"
    and key :: "'row \<Rightarrow> 'k"
    and ok :: "'r \<Rightarrow> bool"
  assumes ins_effect: "ins r s = (res, s') \<Longrightarrow>
      hist s' = hist s \<and> res \<noteq> Inr True \<or>
      hist s' = hist s @ [row_of r] \<and> key (row_of r) \<notin> key ` set (hist s) \<and> res \<noteq> Inr False"
    and ins_success: "ok r \<Longrightarrow> ins r s = (Inr b, s') \<Longrightarrow> row_of r \<in> set (hist s')"
begin

lemma append_only: "ins r s = (res, s') \<Longrightarrow> prefix (hist s) (hist s')"
  using ins_effect by (metis prefixI prefix_order.order_refl)

lemma keeps_unique:
  "ins r s = (res, s') \<Longrightarrow> distinct (map key (hist s)) \<Longrightarrow> distinct (map key (hist s'))"
  using ins_effect by (fastforce simp: image_iff)

lemma deliver_append_only: "deliver ins rs s = (out, s') \<Longrightarrow> prefix (hist s) (hist s')"
proof (induction rs arbitrary: s out)
  case (Cons r rs)
  from Cons.prems obtain res s1 out1 where "ins r s = (res, s1)" "deliver ins rs s1 = (out1, s')"
    by (elim deliver_Cons)
  with Cons.IH append_only show ?case by (metis prefix_order.trans)
qed simp

lemma deliver_unique:
  "deliver ins rs s = (out, s') \<Longrightarrow> distinct (map key (hist s)) \<Longrightarrow> distinct (map key (hist s'))"
proof (induction rs arbitrary: s out)
  case (Cons r rs)
  from Cons.prems(1) obtain res s1 out1 where "ins r s = (res, s1)"
      "deliver ins rs s1 = (out1, s')"
    by (elim deliver_Cons)
  with Cons.IH Cons.prems(2) keeps_unique show ?case by blast
qed simp

text \<open>What is added is the rows of some of the inputs, in their order, each at most once.\<close>

lemma deliver_effect:
  "deliver ins rs s = (out, s') \<Longrightarrow>
     \<exists>sel. subseq sel rs \<and> hist s' = hist s @ map row_of sel"
proof (induction rs arbitrary: s out)
  case Nil
  then show ?case by (intro exI [of _ "[]"]) simp
next
  case (Cons r rs)
  from Cons.prems obtain res s1 out1 where r: "ins r s = (res, s1)"
    and rest: "deliver ins rs s1 = (out1, s')"
    by (elim deliver_Cons)
  from Cons.IH [OF rest] obtain sel where sel: "subseq sel rs" "hist s' = hist s1 @ map row_of sel"
    by blast
  from ins_effect [OF r] show ?case
  proof
    assume "hist s1 = hist s \<and> res \<noteq> Inr True"
    with sel show ?thesis by (intro exI [of _ sel]) auto
  next
    assume "hist s1 = hist s @ [row_of r] \<and> key (row_of r) \<notin> key ` set (hist s) \<and> res \<noteq> Inr False"
    with sel show ?thesis by (intro exI [of _ "r # sel"]) auto
  qed
qed

lemma deliver_success:
  "deliver ins rs s = (out, s') \<Longrightarrow>
     list_all2 (\<lambda>r res. ok r \<and> \<not> isl res \<longrightarrow> row_of r \<in> set (hist s')) rs out"
proof (induction rs arbitrary: s out)
  case (Cons r rs)
  from Cons.prems obtain res s1 out1 where r: "ins r s = (res, s1)"
    and rest: "deliver ins rs s1 = (out1, s')" and out: "out = res # out1"
    by (elim deliver_Cons)
  have "row_of r \<in> set (hist s')" if "ok r" "\<not> isl res"
  proof -
    from that r obtain b where "ins r s = (Inr b, s1)" by (cases res) auto
    then have "row_of r \<in> set (hist s1)" using ins_success that(1) by blast
    then show ?thesis using set_mono_prefix [OF deliver_append_only [OF rest]] by blast
  qed
  with Cons.IH [OF rest] out show ?case by simp
qed simp

end

section \<open>A newest-wins register per key\<close>

text \<open>The newer of what a register holds and an update; an update with an equal version loses.\<close>

definition newest :: "('p \<Rightarrow> 'v::linorder) \<Rightarrow> 'p \<Rightarrow> 'p option \<Rightarrow> 'p option" where
  "newest ver p old =
     (case old of None \<Rightarrow> Some p | Some q \<Rightarrow> if ver q < ver p then Some p else Some q)"

text \<open>\<open>old\<close> is at most as new as \<open>new\<close>; a register that was filled stays filled.\<close>

definition not_newer :: "('p \<Rightarrow> 'v::linorder) \<Rightarrow> 'p option \<Rightarrow> 'p option \<Rightarrow> bool" where
  "not_newer ver old new \<longleftrightarrow>
     (case old of None \<Rightarrow> True | Some q \<Rightarrow> (case new of None \<Rightarrow> False | Some p \<Rightarrow> ver q \<le> ver p))"

lemma not_newer_refl [simp]: "not_newer ver x x"
  by (simp add: not_newer_def split: option.splits)

lemma not_newer_trans: "not_newer ver x y \<Longrightarrow> not_newer ver y z \<Longrightarrow> not_newer ver x z"
  by (auto simp: not_newer_def split: option.splits)

lemma not_newer_newest: "not_newer ver x (newest ver p x)"
  by (auto simp: not_newer_def newest_def split: option.splits)

lemma newest_at_least: "not_newer ver (Some p) (newest ver p x)"
  by (auto simp: not_newer_def newest_def split: option.splits)

locale newest_wins =
  fixes put :: "'p \<Rightarrow> ('s, bool) act"
    and get :: "'k \<Rightarrow> 's \<Rightarrow> 'p option"
    and key_of :: "'p \<Rightarrow> 'k"
    and ver :: "'p \<Rightarrow> 'v::linorder"
    and ok :: "'p \<Rightarrow> bool"
    and inv :: "'s \<Rightarrow> bool"
  assumes put_inv: "inv s \<Longrightarrow> ok p \<Longrightarrow> put p s = (res, s') \<Longrightarrow> inv s'"
    and put_other: "inv s \<Longrightarrow> ok p \<Longrightarrow> put p s = (res, s') \<Longrightarrow> k \<noteq> key_of p \<Longrightarrow> get k s' = get k s"
    and put_same: "inv s \<Longrightarrow> ok p \<Longrightarrow> put p s = (res, s') \<Longrightarrow>
      get (key_of p) s' = newest ver p (get (key_of p) s) \<or>
      (isl res \<and> get (key_of p) s' = get (key_of p) s)"
    and put_reports: "inv s \<Longrightarrow> ok p \<Longrightarrow> put p s = (Inr b, s') \<Longrightarrow>
      b \<longleftrightarrow> not_newer ver (Some p) (get (key_of p) s) = False"
begin

lemma put_never_regresses:
  assumes "inv s" "ok p" "put p s = (res, s')"
  shows "not_newer ver (get k s) (get k s')"
  using put_other [OF assms] put_same [OF assms] by (metis not_newer_newest not_newer_refl)

lemma deliver_inv: "inv s \<Longrightarrow> list_all ok ps \<Longrightarrow> deliver put ps s = (out, s') \<Longrightarrow> inv s'"
proof (induction ps arbitrary: s out)
  case (Cons p ps)
  from Cons.prems(3) obtain res s1 out1 where "put p s = (res, s1)" "deliver put ps s1 = (out1, s')"
    by (elim deliver_Cons)
  moreover from this Cons.prems put_inv have "inv s1" "list_all ok ps" by auto
  ultimately show ?case using Cons.IH by blast
qed simp

lemma deliver_never_regresses:
  "inv s \<Longrightarrow> list_all ok ps \<Longrightarrow> deliver put ps s = (out, s') \<Longrightarrow> not_newer ver (get k s) (get k s')"
proof (induction ps arbitrary: s out)
  case (Cons p ps)
  from Cons.prems(3) obtain res s1 out1 where "put p s = (res, s1)" "deliver put ps s1 = (out1, s')"
    by (elim deliver_Cons)
  moreover from this Cons.prems put_inv have "inv s1" "list_all ok ps" "ok p" by auto
  ultimately show ?case
    using Cons.IH Cons.prems(1) put_never_regresses by (meson not_newer_trans)
qed simp

text \<open>Every update that was acknowledged is reflected, whatever came before and after it.\<close>

lemma deliver_reflected:
  "inv s \<Longrightarrow> list_all ok ps \<Longrightarrow> deliver put ps s = (out, s') \<Longrightarrow>
     list_all2 (\<lambda>p res. \<not> isl res \<longrightarrow> not_newer ver (Some p) (get (key_of p) s')) ps out"
proof (induction ps arbitrary: s out)
  case (Cons p ps)
  from Cons.prems(3) obtain res s1 out1 where p: "put p s = (res, s1)"
    and rest: "deliver put ps s1 = (out1, s')" and out: "out = res # out1"
    by (elim deliver_Cons)
  have ok: "ok p" "list_all ok ps" "inv s1"
    using Cons.prems put_inv p by auto
  have "not_newer ver (Some p) (get (key_of p) s')" if "\<not> isl res"
    using put_same [OF Cons.prems(1) ok(1) p] that newest_at_least
      deliver_never_regresses [OF ok(3,2) rest] by (metis not_newer_trans)
  with Cons.IH [OF ok(3,2) rest] out show ?case by simp
qed simp

text \<open>What a register holds afterwards was there before or is one of the updates of its key.\<close>

lemma deliver_source:
  "inv s \<Longrightarrow> list_all ok ps \<Longrightarrow> deliver put ps s = (out, s') \<Longrightarrow>
     get k s' = get k s \<or> (\<exists>p \<in> set ps. key_of p = k \<and> get k s' = Some p)"
proof (induction ps arbitrary: s out)
  case (Cons p ps)
  from Cons.prems(3) obtain res s1 out1 where p: "put p s = (res, s1)"
    and rest: "deliver put ps s1 = (out1, s')"
    by (elim deliver_Cons)
  have ok: "ok p" "list_all ok ps" "inv s1"
    using Cons.prems put_inv p by auto
  have "get k s1 = get k s \<or> key_of p = k \<and> get k s1 = Some p"
    using put_other [OF Cons.prems(1) ok(1) p] put_same [OF Cons.prems(1) ok(1) p]
    by (cases "k = key_of p") (auto simp: newest_def split: option.splits if_splits)
  with Cons.IH [OF ok(3,2) rest] show ?case by auto
qed simp

text \<open>
  Convergence: two runs in which every update is acknowledged end with the same registers, whatever
  the order and however often each update is repeated, when equal versions of a key mean equal
  updates.
\<close>

lemma deliver_upper:
  assumes "inv s" "list_all ok ps" "deliver put ps s = (out, s')" "list_all (\<lambda>r. \<not> isl r) out"
    and "p \<in> set ps"
  shows "not_newer ver (Some p) (get (key_of p) s')"
  using deliver_reflected [OF assms(1-3)] assms(4,5)
  by (fastforce simp: list_all2_conv_all_nth list_all_length in_set_conv_nth)

lemma deliver_converges:
  assumes "inv s" "list_all ok ps" "set qs = set ps"
    and "deliver put ps s = (out, s1)" "list_all (\<lambda>r. \<not> isl r) out"
    and "deliver put qs s = (out', s2)" "list_all (\<lambda>r. \<not> isl r) out'"
    and uniq: "inj_on ver ({p \<in> set ps. key_of p = k} \<union> {x. get k s = Some x})"
  shows "get k s1 = get k s2"
proof -
  have okq: "list_all ok qs" using assms(2,3) by (simp add: list_all_iff)
  have src: "get k s' = get k s \<or> (\<exists>p \<in> set ps. key_of p = k \<and> get k s' = Some p)"
    if "s' \<in> {s1, s2}" for s'
    using that deliver_source [OF assms(1,2,4), of k] deliver_source [OF assms(1) okq assms(6), of k]
      assms(3) by auto
  have low: "not_newer ver (get k s) (get k s')" if "s' \<in> {s1, s2}" for s'
    using that deliver_never_regresses [OF assms(1,2,4)] deliver_never_regresses [OF assms(1) okq assms(6)]
    by auto
  have up: "not_newer ver (Some p) (get k s')" if "s' \<in> {s1, s2}" "p \<in> set ps" "key_of p = k" for s' p
    using that deliver_upper [OF assms(1,2,4,5)] deliver_upper [OF assms(1) okq assms(6,7)] assms(3)
    by auto
  have le: "not_newer ver (get k a) (get k b)" if "a \<in> {s1, s2}" "b \<in> {s1, s2}" for a b
    using src [OF that(1)] low [OF that(2)] up [OF that(2)] by auto
  have "get k s1 = None \<longleftrightarrow> get k s2 = None"
    using le [of s1 s2] le [of s2 s1] by (auto simp: not_newer_def split: option.splits)
  moreover have "x = y" if "get k s1 = Some x" "get k s2 = Some y" for x y
  proof (rule inj_onD [OF uniq])
    show "ver x = ver y"
      using le [of s1 s2] le [of s2 s1] by (simp add: that not_newer_def)
  qed (use src [of s1] src [of s2] that in auto)
  ultimately show ?thesis by (metis not_None_eq)
qed

end

section \<open>A durable record of failures\<close>

text \<open>
  What the partition worker relies on before it commits past a failed record: success means the
  failure is on record under its key, and nothing the store does later removes it.
\<close>

locale failure_log =
  fixes log :: "'f \<Rightarrow> ('s, unit) act"
    and has :: "'k \<Rightarrow> 's \<Rightarrow> bool"
    and key_of :: "'f \<Rightarrow> 'k"
  assumes logged: "log f s = (Inr u, s') \<Longrightarrow> has (key_of f) s'"
    and kept: "log f s = (res, s') \<Longrightarrow> has k s \<Longrightarrow> has k s'"
begin

lemma deliver_kept: "deliver log fs s = (out, s') \<Longrightarrow> has k s \<Longrightarrow> has k s'"
proof (induction fs arbitrary: s out)
  case (Cons f fs)
  from Cons.prems(1) obtain res s1 out1 where "log f s = (res, s1)" "deliver log fs s1 = (out1, s')"
    by (elim deliver_Cons)
  with Cons.IH Cons.prems(2) kept show ?case by blast
qed simp

lemma deliver_logged:
  "deliver log fs s = (out, s') \<Longrightarrow> list_all2 (\<lambda>f res. \<not> isl res \<longrightarrow> has (key_of f) s') fs out"
proof (induction fs arbitrary: s out)
  case (Cons f fs)
  from Cons.prems obtain res s1 out1 where f: "log f s = (res, s1)"
    and rest: "deliver log fs s1 = (out1, s')" and out: "out = res # out1"
    by (elim deliver_Cons)
  have "has (key_of f) s'" if "\<not> isl res"
    using that f logged deliver_kept [OF rest] by (cases res) auto
  with Cons.IH [OF rest] out show ?case by simp
qed simp

end

section \<open>Keyset pages\<close>

text \<open>
  What a reader of pages relies on: a page is the next rows after the cursor, of a list that is sorted by
  distinct keys.
\<close>

locale keyset_pages =
  fixes page :: "'s \<Rightarrow> 'k::linorder \<Rightarrow> 'r list"
    and rows :: "'s \<Rightarrow> 'r list"
    and key :: "'r \<Rightarrow> 'k"
    and good :: "'s \<Rightarrow> bool"
  assumes next_rows: "good s \<Longrightarrow> \<exists>n > 0. page s after = take n (filter (\<lambda>r. after < key r) (rows s))"
    and sorted_rows: "good s \<Longrightarrow> sorted (map key (rows s))"
    and distinct_rows: "good s \<Longrightarrow> distinct (map key (rows s))"
begin

lemma page_empty: "good s \<Longrightarrow> page s after = [] \<longleftrightarrow> filter (\<lambda>r. after < key r) (rows s) = []"
  using next_rows [of s after] by auto

lemma after_take:
  assumes "sorted (map key xs)" "distinct (map key xs)" "take n xs \<noteq> []"
  shows "filter (\<lambda>r. key (last (take n xs)) < key r) xs = drop n xs"
proof -
  let ?l = "key (last (take n xs))"
  have s: "sorted (map key (take n xs @ drop n xs))" "distinct (map key (take n xs @ drop n xs))"
    using assms(1,2) by simp_all
  have l: "last (take n xs) \<in> set (take n xs)" using assms(3) by simp
  have "\<not> ?l < key r" if "r \<in> set (take n xs)" for r
  proof -
    have "sorted (map key (take n xs))" using assms(1) by (metis sorted_wrt_take take_map)
    moreover have "take n xs = butlast (take n xs) @ [last (take n xs)]" using assms(3) by simp
    ultimately have "sorted (map key (butlast (take n xs) @ [last (take n xs)]))" by metis
    moreover have "r \<in> set (butlast (take n xs) @ [last (take n xs)])" using that assms(3) by simp
    ultimately show ?thesis by (auto simp: sorted_append)
  qed
  moreover have "?l < key r" if "r \<in> set (drop n xs)" for r
  proof -
    have "\<forall>a \<in> set (map key (take n xs)). \<forall>b \<in> set (map key (drop n xs)). a \<le> b"
      using s(1) unfolding map_append sorted_append by blast
    moreover have "set (map key (take n xs)) \<inter> set (map key (drop n xs)) = {}"
      using s(2) unfolding map_append distinct_append by blast
    moreover have "?l \<in> set (map key (take n xs))" "key r \<in> set (map key (drop n xs))" using l that by auto
    ultimately have "?l \<le> key r" "?l \<noteq> key r" by (blast, metis disjoint_iff)
    then show ?thesis by simp
  qed
  ultimately have "filter (\<lambda>r. ?l < key r) (take n xs) = []" "filter (\<lambda>r. ?l < key r) (drop n xs) = drop n xs"
    by (auto simp: filter_empty_conv filter_id_conv)
  then show ?thesis by (metis append_take_drop_id filter_append self_append_conv2)
qed

text \<open>The rows after a non-empty page are the rest: nothing is skipped and nothing comes twice.\<close>

lemma page_rest:
  assumes "good s" "page s after \<noteq> []"
  shows "filter (\<lambda>r. after < key r) (rows s) =
    page s after @ filter (\<lambda>r. key (last (page s after)) < key r) (rows s)"
proof -
  let ?xs = "filter (\<lambda>r. after < key r) (rows s)"
  obtain n where n: "page s after = take n ?xs" using next_rows [OF assms(1)] by blast
  have s: "sorted (map key ?xs)" "distinct (map key ?xs)"
    using sorted_rows [OF assms(1)] distinct_rows [OF assms(1)]
    by (simp_all add: sorted_filter distinct_map_filter)
  have "take n ?xs \<noteq> []" using assms(2) n by simp
  from after_take [OF s this]
  have r: "filter (\<lambda>r. key (last (page s after)) < key r) ?xs = drop n ?xs" using n by simp
  have "last (page s after) \<in> set ?xs"
    using n assms(2) by (metis in_set_takeD last_in_set)
  then have "filter (\<lambda>r. key (last (page s after)) < key r) ?xs =
      filter (\<lambda>r. key (last (page s after)) < key r) (rows s)"
    unfolding filter_filter by (intro filter_cong) auto
  with r n show ?thesis by (metis append_take_drop_id)
qed

end

end
