(* ===== verification/RedisStore.thy ===== *)
theory RedisStore
  imports Sql GoTime Decoder Interfaces "HOL-Library.Log_Nat" "HOL-Library.AList"
begin

text \<open>
  \<^verbatim>\<open>internal/store/redis\<close>: the hot store.  A keyspace with expiry, the two Lua scripts as atomic
  functions on it, and the methods of the store.

  The JSON text of a latest value is kept as the projection it denotes; text under a latest key that
  is not an object with both version fields is \<open>Garbled\<close>.  As with the database, every exchange with
  the server takes the next entry of a list of faults.  Sets are lists without repetition in the order
  of insertion, hashes are association lists; the server promises no order.
\<close>

section \<open>Keys\<close>

definition HeartbeatTTL :: int where
  "HeartbeatTTL = 10 * ns_minute"

definition MeterLatestKey :: "string \<Rightarrow> string \<Rightarrow> string" where
  "MeterLatestKey gridID houseID = ''meter:'' @ gridID @ '':'' @ houseID @ '':latest''"

definition HouseStatusKey :: "string \<Rightarrow> string" where
  "HouseStatusKey houseID = ''house:'' @ houseID @ '':status''"

definition GridHousesKey :: "string \<Rightarrow> string" where
  "GridHousesKey gridID = ''grid:'' @ gridID @ '':houses''"

section \<open>Values\<close>

record StorageAssetProjection =
  sp_AssetID :: string
  sp_AssetType :: string
  sp_SocPct :: float64
  sp_PowerKw :: float64
  sp_CapacityKwh :: float64
  sp_PluggedIn :: "bool option"

record MeterProjection =
  mp_EventTimeUnixMs :: int
  mp_Seq :: int
  mp_GridID :: string
  mp_HouseID :: string
  mp_MeterID :: string
  mp_DeviceClass :: string
  mp_SolarKw :: float64
  mp_ConsumptionKw :: float64
  mp_NetKw :: float64
  mp_StorageAssets :: "StorageAssetProjection list"

record HouseStatus =
  hs_Status :: string
  hs_LastHeartbeatAt :: int

datatype latest_text = Projected MeterProjection | Garbled string

datatype redis_val = RString latest_text | RHash "(string \<times> string) list" | RSet "string list"

record redis_entry =
  re_val :: redis_val
  re_expire :: "int option"

type_synonym keyspace = "string \<rightharpoonup> redis_entry"

record redis =
  rd_db :: keyspace
  rd_faults :: "fault list"
  rd_clock :: int

abbreviation rd_quiet :: "redis \<Rightarrow> bool" where
  "rd_quiet r \<equiv> rd_faults r = []"

text \<open>An entry whose time to live has passed does not exist.\<close>

definition live :: "int \<Rightarrow> keyspace \<Rightarrow> string \<Rightarrow> redis_entry option" where
  "live now db k =
     (case db k of
        None \<Rightarrow> None
      | Some e \<Rightarrow> (case re_expire e of
                    None \<Rightarrow> Some e
                  | Some t \<Rightarrow> if now < t then Some e else None))"

section \<open>Commands\<close>

datatype redis_error = RInfra infra | WrongType

fun redis_go_error :: "redis_error \<Rightarrow> go_error" where
  "redis_go_error (RInfra i) = infra_error i"
| "redis_go_error WrongType =
     errors_New ''WRONGTYPE Operation against a key holding the wrong kind of value''"

type_synonym 'a redis_cmd = "int \<Rightarrow> keyspace \<Rightarrow> (redis_error + 'a) \<times> keyspace"

definition cmd :: "'a redis_cmd \<Rightarrow> redis \<Rightarrow> (redis_error + 'a) \<times> redis" where
  "cmd q r =
     (case next_fault (rd_faults r) of
        (Succeed, fs) \<Rightarrow>
          (case q (rd_clock r) (rd_db r) of (x, db) \<Rightarrow> (x, r\<lparr>rd_db := db, rd_faults := fs\<rparr>))
      | (Fail i, fs) \<Rightarrow> (Inl (RInfra i), r\<lparr>rd_faults := fs\<rparr>)
      | (Lost i, fs) \<Rightarrow>
          (Inl (RInfra i), r\<lparr>rd_db := snd (q (rd_clock r) (rd_db r)), rd_faults := fs\<rparr>))"

definition onCmd :: "string \<Rightarrow> 'a redis_cmd \<Rightarrow> (redis, 'a) act" where
  "onCmd pre q r =
     (case cmd q r of (x, r') \<Rightarrow> (failWith (\<lambda>e. Errorf_w pre (redis_go_error e)) x, r'))"

text \<open>\<^verbatim>\<open>GET\<close> (\<open>None\<close> is the nil reply), \<^verbatim>\<open>HGETALL\<close>, \<^verbatim>\<open>SADD\<close>, \<^verbatim>\<open>SREM\<close> and \<^verbatim>\<open>SMEMBERS\<close>.\<close>

definition redis_GET :: "string \<Rightarrow> latest_text option redis_cmd" where
  "redis_GET k now db =
     (case live now db k of
        None \<Rightarrow> (Inr None, db)
      | Some e \<Rightarrow> (case re_val e of RString t \<Rightarrow> (Inr (Some t), db) | _ \<Rightarrow> (Inl WrongType, db)))"

definition redis_HGETALL :: "string \<Rightarrow> (string \<times> string) list redis_cmd" where
  "redis_HGETALL k now db =
     (case live now db k of
        None \<Rightarrow> (Inr [], db)
      | Some e \<Rightarrow> (case re_val e of RHash m \<Rightarrow> (Inr m, db) | _ \<Rightarrow> (Inl WrongType, db)))"

definition hset :: "(string \<times> string) list \<Rightarrow> (string \<times> string) list \<Rightarrow> (string \<times> string) list" where
  "hset fvs m = fold (\<lambda>(f, v). AList.update f v) fvs m"

definition redis_HSET :: "string \<Rightarrow> (string \<times> string) list \<Rightarrow> unit redis_cmd" where
  "redis_HSET k fvs now db =
     (case live now db k of
        None \<Rightarrow> (Inr (), db(k \<mapsto> \<lparr>re_val = RHash (hset fvs []), re_expire = None\<rparr>))
      | Some e \<Rightarrow>
          (case re_val e of
             RHash m \<Rightarrow> (Inr (), db(k \<mapsto> e\<lparr>re_val := RHash (hset fvs m)\<rparr>))
           | _ \<Rightarrow> (Inl WrongType, db)))"

definition redis_EXPIRE :: "string \<Rightarrow> int \<Rightarrow> int redis_cmd" where
  "redis_EXPIRE k secs now db =
     (case live now db k of
        None \<Rightarrow> (Inr 0, db)
      | Some e \<Rightarrow>
          if secs \<le> 0 then (Inr 1, db(k := None))
          else (Inr 1, db(k \<mapsto> e\<lparr>re_expire := Some (now + secs * ns_second)\<rparr>)))"

definition redis_SADD :: "string \<Rightarrow> string \<Rightarrow> unit redis_cmd" where
  "redis_SADD k x now db =
     (case live now db k of
        None \<Rightarrow> (Inr (), db(k \<mapsto> \<lparr>re_val = RSet [x], re_expire = None\<rparr>))
      | Some e \<Rightarrow>
          (case re_val e of
             RSet xs \<Rightarrow> (Inr (), db(k \<mapsto> e\<lparr>re_val := RSet (if x \<in> set xs then xs else xs @ [x])\<rparr>))
           | _ \<Rightarrow> (Inl WrongType, db)))"

definition redis_SREM :: "string \<Rightarrow> string \<Rightarrow> unit redis_cmd" where
  "redis_SREM k x now db =
     (case live now db k of
        None \<Rightarrow> (Inr (), db)
      | Some e \<Rightarrow>
          (case re_val e of
             RSet xs \<Rightarrow>
               let ys = filter (\<lambda>y. y \<noteq> x) xs in
               (Inr (), if ys = [] then db(k := None) else db(k \<mapsto> e\<lparr>re_val := RSet ys\<rparr>))
           | _ \<Rightarrow> (Inl WrongType, db)))"

definition redis_SMEMBERS :: "string \<Rightarrow> string list redis_cmd" where
  "redis_SMEMBERS k now db =
     (case live now db k of
        None \<Rightarrow> (Inr [], db)
      | Some e \<Rightarrow> (case re_val e of RSet xs \<Rightarrow> (Inr xs, db) | _ \<Rightarrow> (Inl WrongType, db)))"

section \<open>Lua numbers\<close>

text \<open>
  Lua 5.1 has one number type, the IEEE double: \<^verbatim>\<open>tonumber\<close> and \<^verbatim>\<open>cjson\<close> round an integer to the
  nearest value with 53 significant bits, ties to even.
\<close>

definition lua_num :: "int \<Rightarrow> int" where
  "lua_num n =
     (let a = \<bar>n\<bar>; e = nat (bitlen a - 53) in
      if e = 0 then n
      else let q = a div 2 ^ e; r = a mod 2 ^ e; half = 2 ^ (e - 1);
               m = (if r > half \<or> (r = half \<and> odd q) then q + 1 else q)
           in sgn n * (m * 2 ^ e))"

section \<open>The scripts\<close>

definition set_latest_if_newer :: "string \<Rightarrow> int \<Rightarrow> int \<Rightarrow> latest_text \<Rightarrow> int redis_cmd" where
  "set_latest_if_newer key argv1 argv2 new_value now db =
     (let new_time = lua_num argv1; new_seq = lua_num argv2;
          set_it = (Inr 1, db(key \<mapsto> \<lparr>re_val = RString new_value, re_expire = None\<rparr>)) in
      case redis_GET key now db of
        (Inl e, _) \<Rightarrow> (Inl e, db)
      | (Inr None, _) \<Rightarrow> set_it
      | (Inr (Some (Garbled _)), _) \<Rightarrow> set_it
      | (Inr (Some (Projected d)), _) \<Rightarrow>
          let existing_time = lua_num (mp_EventTimeUnixMs d); existing_seq = lua_num (mp_Seq d) in
          if new_time < existing_time then (Inr 0, db)
          else if new_time = existing_time \<and> new_seq \<le> existing_seq then (Inr 0, db)
          else set_it)"

definition update_heartbeat ::
    "string \<Rightarrow> string \<Rightarrow> int \<Rightarrow> string \<Rightarrow> string \<Rightarrow> string \<Rightarrow> int redis_cmd" where
  "update_heartbeat status_key grid_houses_key ttl_seconds status_value last_heartbeat_at house_id
      now db =
     (case redis_HSET status_key
             [(''status'', status_value), (''last_heartbeat_at'', last_heartbeat_at)] now db of
        (Inl e, db1) \<Rightarrow> (Inl e, db1)
      | (Inr _, db1) \<Rightarrow>
          (case redis_EXPIRE status_key ttl_seconds now db1 of
             (Inl e, db2) \<Rightarrow> (Inl e, db2)
           | (Inr _, db2) \<Rightarrow>
               (case redis_SADD grid_houses_key house_id now db2 of
                  (Inl e, db3) \<Rightarrow> (Inl e, db3)
                | (Inr _, db3) \<Rightarrow> (Inr 1, db3))))"

section \<open>The store\<close>

text \<open>\<^verbatim>\<open>json.Marshal\<close> refuses NaN and the infinities and nothing else in this struct.\<close>

definition projection_floats :: "MeterProjection \<Rightarrow> float64 list" where
  "projection_floats p =
     [mp_SolarKw p, mp_ConsumptionKw p, mp_NetKw p] @
     concat (map (\<lambda>a. [sp_SocPct a, sp_PowerKw a, sp_CapacityKwh a]) (mp_StorageAssets p))"

definition json_Marshal :: "MeterProjection \<Rightarrow> go_error + latest_text" where
  "json_Marshal p =
     (if list_all finite64 (projection_floats p) then Inr (Projected p)
      else Inl (errors_New ''json: unsupported value''))"

definition SetLatestIfNewer :: "MeterProjection \<Rightarrow> (redis, bool) act" where
  "SetLatestIfNewer p =
     (let key = MeterLatestKey (mp_GridID p) (mp_HouseID p) in
      andThen (liftE (failWith (Errorf_w (''redis: marshal meter projection for '' @ key @ '': ''))
                        (json_Marshal p))) (\<lambda>body.
      andThen (onCmd (''redis: set_latest_if_newer for '' @ key @ '': '')
                 (set_latest_if_newer key (mp_EventTimeUnixMs p) (mp_Seq p) body)) (\<lambda>result.
      ret (result = 1))))"

definition redis_not_found :: go_error where
  "redis_not_found = sentinel_error RedisErrNotFound ''redis: not found''"

definition GetLatest :: "string \<Rightarrow> string \<Rightarrow> (redis, MeterProjection) act" where
  "GetLatest gridID houseID =
     (let key = MeterLatestKey gridID houseID in
      andThen (onCmd (''redis: get latest for '' @ key @ '': '') (redis_GET key)) (\<lambda>raw.
      case raw of
        None \<Rightarrow> throw redis_not_found
      | Some (Garbled t) \<Rightarrow>
          throw (errors_New (''redis: decode latest projection for '' @ key @ '': invalid text''))
      | Some (Projected p) \<Rightarrow> ret p))"

definition storage_projection :: "StorageAssetReading \<Rightarrow> StorageAssetProjection" where
  "storage_projection a =
     \<lparr>sp_AssetID = sr_AssetID a, sp_AssetType = sr_AssetType a, sp_SocPct = sr_SocPct a,
      sp_PowerKw = sr_PowerKw a, sp_CapacityKwh = sr_CapacityKwh a,
      sp_PluggedIn = sr_PluggedIn a\<rparr>"

definition ProjectionOf :: "MeterReading \<Rightarrow> MeterProjection" where
  "ProjectionOf r =
     \<lparr>mp_EventTimeUnixMs = UnixMilli (mr_EventTime r), mp_Seq = mr_Seq r, mp_GridID = mr_GridID r,
      mp_HouseID = mr_HouseID r, mp_MeterID = mr_MeterID r, mp_DeviceClass = mr_DeviceClass r,
      mp_SolarKw = mr_SolarKw r, mp_ConsumptionKw = mr_ConsumptionKw r, mp_NetKw = mr_NetKw r,
      mp_StorageAssets = map storage_projection (mr_StorageAssets r)\<rparr>"

text \<open>\<^verbatim>\<open>int(ttl.Seconds())\<close> is the whole seconds of the duration, rounded towards zero.\<close>

definition ttl_seconds :: "int \<Rightarrow> int" where
  "ttl_seconds ttl = sgn ttl * (\<bar>ttl\<bar> div ns_second)"

definition updateHeartbeatWithTTL ::
    "string \<Rightarrow> string \<Rightarrow> HouseStatus \<Rightarrow> int \<Rightarrow> (redis, unit) act" where
  "updateHeartbeatWithTTL gridID houseID status ttl =
     andThen (onCmd (''redis: update_heartbeat for house '' @ houseID @ '': '')
                (update_heartbeat (HouseStatusKey houseID) (GridHousesKey gridID) (ttl_seconds ttl)
                   (hs_Status status) (Format_RFC3339 (hs_LastHeartbeatAt status)) houseID))
       (\<lambda>_. ret ())"

definition UpdateHeartbeat :: "string \<Rightarrow> string \<Rightarrow> HouseStatus \<Rightarrow> (redis, unit) act" where
  "UpdateHeartbeat gridID houseID status =
     updateHeartbeatWithTTL gridID houseID status HeartbeatTTL"

definition RestoreHeartbeat :: "string \<Rightarrow> string \<Rightarrow> HouseStatus \<Rightarrow> int \<Rightarrow> (redis, bool) act" where
  "RestoreHeartbeat gridID houseID status now =
     (let remaining = HeartbeatTTL - (now - hs_LastHeartbeatAt status) in
      if remaining < ns_second then ret False
      else andThen (updateHeartbeatWithTTL gridID houseID status remaining) (\<lambda>_. ret True))"

definition AddHouseToGrid :: "string \<Rightarrow> string \<Rightarrow> (redis, unit) act" where
  "AddHouseToGrid gridID houseID =
     onCmd (''redis: sadd house '' @ houseID @ '' to grid '' @ gridID @ '': '')
       (redis_SADD (GridHousesKey gridID) houseID)"

definition RemoveHouseFromGrid :: "string \<Rightarrow> string \<Rightarrow> (redis, unit) act" where
  "RemoveHouseFromGrid gridID houseID =
     onCmd (''redis: srem house '' @ houseID @ '' from grid '' @ gridID @ '': '')
       (redis_SREM (GridHousesKey gridID) houseID)"

definition GridHouseIDs :: "string \<Rightarrow> (redis, string list) act" where
  "GridHouseIDs gridID =
     (let key = GridHousesKey gridID in
      onCmd (''redis: get grid houses for '' @ key @ '': '') (redis_SMEMBERS key))"

text \<open>
  \<^verbatim>\<open>len(vals) == 0\<close>: a hash never has no field in the server, so the empty reply is the missing key;
  a missing field reads as the empty string.
\<close>

definition field_of :: "(string \<times> string) list \<Rightarrow> string \<Rightarrow> string" where
  "field_of vals f = (case map_of vals f of None \<Rightarrow> '''' | Some v \<Rightarrow> v)"

definition GetHouseStatus :: "go_std \<Rightarrow> string \<Rightarrow> (redis, HouseStatus) act" where
  "GetHouseStatus std houseID =
     (let key = HouseStatusKey houseID in
      andThen (onCmd (''redis: get house status for '' @ key @ '': '') (redis_HGETALL key)) (\<lambda>vals.
      if vals = [] then throw redis_not_found
      else andThen (liftE (failWith (\<lambda>e. Errorf_w (''redis: parse last_heartbeat_at for '' @ key @ '': '')
                             (errors_New e))
                             (parseRFC3339 std (field_of vals ''last_heartbeat_at'')))) (\<lambda>t.
      ret \<lparr>hs_Status = field_of vals ''status'', hs_LastHeartbeatAt = t\<rparr>)))"

definition LivenessAndLatestSafe :: "string \<Rightarrow> bool" where
  "LivenessAndLatestSafe policy \<longleftrightarrow>
     policy \<in> {''noeviction'', ''volatile-lru'', ''volatile-lfu'', ''volatile-random'', ''volatile-ttl''}"

section \<open>Exchanges\<close>

lemma cmd_cases:
  assumes "cmd q r = (x, r')"
  obtains (run) "x = fst (q (rd_clock r) (rd_db r))" "rd_db r' = snd (q (rd_clock r) (rd_db r))"
      "rd_clock r' = rd_clock r"
  | (failed) i where "x = Inl (RInfra i)" "rd_db r' = rd_db r" "rd_clock r' = rd_clock r"
  | (lost) i where "x = Inl (RInfra i)" "rd_db r' = snd (q (rd_clock r) (rd_db r))"
      "rd_clock r' = rd_clock r"
  using assms by (auto simp: cmd_def split: prod.splits fault.splits)

lemma cmd_quiet:
  "rd_quiet r \<Longrightarrow>
     cmd q r = (fst (q (rd_clock r) (rd_db r)), r\<lparr>rd_db := snd (q (rd_clock r) (rd_db r))\<rparr>)"
  by (cases r) (simp add: cmd_def split: prod.splits)

lemma onCmd_quiet:
  "rd_quiet r \<Longrightarrow> onCmd pre q r =
     (failWith (\<lambda>e. Errorf_w pre (redis_go_error e)) (fst (q (rd_clock r) (rd_db r))),
      r\<lparr>rd_db := snd (q (rd_clock r) (rd_db r))\<rparr>)"
  by (simp add: onCmd_def cmd_quiet)

lemma onCmd_cases:
  assumes "onCmd pre q r = (x, r')"
  obtains (run) "x = failWith (\<lambda>e. Errorf_w pre (redis_go_error e)) (fst (q (rd_clock r) (rd_db r)))"
      "rd_db r' = snd (q (rd_clock r) (rd_db r))" "rd_clock r' = rd_clock r"
  | (failed) "isl x" "rd_db r' = rd_db r" "rd_clock r' = rd_clock r"
  | (lost) "isl x" "rd_db r' = snd (q (rd_clock r) (rd_db r))" "rd_clock r' = rd_clock r"
  using assms by (auto simp: onCmd_def split: prod.splits elim!: cmd_cases)

lemma onCmd_Inr:
  "onCmd pre q r = (Inr x, r') \<Longrightarrow>
     q (rd_clock r) (rd_db r) = (Inr x, rd_db r') \<and> rd_clock r' = rd_clock r"
  by (elim onCmd_cases) (auto simp: inversion prod_eq_iff dest: sym)

lemma redis_go_error_is: "errors_Is (redis_go_error e) s \<Longrightarrow> s = ContextCanceled \<or> s = ContextDeadlineExceeded"
  by (cases e) auto

section \<open>Versions\<close>

text \<open>The version of a projection: event time in milliseconds, then sequence number.\<close>

datatype version = Version int int

instantiation version :: linorder
begin

definition less_eq_version :: "version \<Rightarrow> version \<Rightarrow> bool" where
  "less_eq_version v w = (case (v, w) of (Version a b, Version c d) \<Rightarrow> a < c \<or> a = c \<and> b \<le> d)"

definition less_version :: "version \<Rightarrow> version \<Rightarrow> bool" where
  "less_version v w = (case (v, w) of (Version a b, Version c d) \<Rightarrow> a < c \<or> a = c \<and> b < d)"

instance
  by standard (auto simp: less_eq_version_def less_version_def split: version.splits)

end

definition version_of :: "MeterProjection \<Rightarrow> version" where
  "version_of p = Version (mp_EventTimeUnixMs p) (mp_Seq p)"

text \<open>The version numbers a Lua script reads without rounding.\<close>

definition exact_projection :: "MeterProjection \<Rightarrow> bool" where
  "exact_projection p \<longleftrightarrow>
     lua_num (mp_EventTimeUnixMs p) = mp_EventTimeUnixMs p \<and> lua_num (mp_Seq p) = mp_Seq p"

lemma lua_num_small: "\<bar>n\<bar> < 2 ^ 53 \<Longrightarrow> lua_num n = n"
  using bitlen_le_iff_power [of "\<bar>n\<bar>" 53] by (simp add: lua_num_def Let_def)

section \<open>The keyspace invariant\<close>

text \<open>
  Each kind of key holds its kind of value; only status keys expire.  Keys of different kinds differ
  in their first letter, so no operation meets a value of the wrong type.
\<close>

definition entry_ok :: "string \<Rightarrow> redis_entry \<Rightarrow> bool" where
  "entry_ok k e \<longleftrightarrow>
     (case re_val e of
        RString t \<Rightarrow> HasPrefix k ''meter:'' \<and> re_expire e = None \<and>
          (case t of Projected p \<Rightarrow> exact_projection p | Garbled _ \<Rightarrow> True)
      | RHash m \<Rightarrow> HasPrefix k ''house:'' \<and> m \<noteq> []
      | RSet xs \<Rightarrow> HasPrefix k ''grid:'' \<and> re_expire e = None \<and> distinct xs)"

definition keyspace_ok :: "keyspace \<Rightarrow> bool" where
  "keyspace_ok db \<longleftrightarrow> (\<forall>k e. db k = Some e \<longrightarrow> entry_ok k e)"

abbreviation redis_ok :: "redis \<Rightarrow> bool" where
  "redis_ok r \<equiv> keyspace_ok (rd_db r)"

lemma key_kinds [simp]:
  "HasPrefix (MeterLatestKey g h) ''meter:''" "\<not> HasPrefix (MeterLatestKey g h) ''house:''"
  "\<not> HasPrefix (MeterLatestKey g h) ''grid:''"
  "HasPrefix (HouseStatusKey h) ''house:''" "\<not> HasPrefix (HouseStatusKey h) ''meter:''"
  "\<not> HasPrefix (HouseStatusKey h) ''grid:''"
  "HasPrefix (GridHousesKey g) ''grid:''" "\<not> HasPrefix (GridHousesKey g) ''meter:''"
  "\<not> HasPrefix (GridHousesKey g) ''house:''"
  by (simp_all add: HasPrefix_def MeterLatestKey_def HouseStatusKey_def GridHousesKey_def)

lemma keys_differ [simp]:
  "MeterLatestKey g h \<noteq> HouseStatusKey h'" "MeterLatestKey g h \<noteq> GridHousesKey g'"
  "HouseStatusKey h' \<noteq> MeterLatestKey g h" "HouseStatusKey h' \<noteq> GridHousesKey g'"
  "GridHousesKey g' \<noteq> MeterLatestKey g h" "GridHousesKey g' \<noteq> HouseStatusKey h'"
  by (metis key_kinds)+

lemma live_Some: "live now db k = Some e \<Longrightarrow> db k = Some e"
  by (auto simp: live_def split: option.splits if_splits)

lemma live_update [simp]:
  "live now (db(k' := v)) k =
     (if k = k' then (case v of None \<Rightarrow> None | Some e \<Rightarrow>
        (case re_expire e of None \<Rightarrow> Some e | Some t \<Rightarrow> if now < t then Some e else None))
      else live now db k)"
  by (simp add: live_def)

lemma keyspace_ok_update:
  "keyspace_ok db \<Longrightarrow> (\<And>e. v = Some e \<Longrightarrow> entry_ok k e) \<Longrightarrow> keyspace_ok (db(k := v))"
  by (auto simp: keyspace_ok_def)

lemma keyspace_okD: "keyspace_ok db \<Longrightarrow> live now db k = Some e \<Longrightarrow> entry_ok k e"
  by (auto simp: keyspace_ok_def dest: live_Some)

lemma live_kinds:
  assumes "keyspace_ok db" "live now db k = Some e"
  shows "HasPrefix k ''meter:'' \<Longrightarrow> \<exists>t. re_val e = RString t \<and> re_expire e = None"
    and "HasPrefix k ''house:'' \<Longrightarrow> \<exists>m. re_val e = RHash m"
    and "HasPrefix k ''grid:'' \<Longrightarrow> \<exists>xs. re_val e = RSet xs \<and> re_expire e = None \<and> distinct xs"
  using keyspace_okD [OF assms]
  by (auto simp: entry_ok_def HasPrefix_iff split: redis_val.splits)

section \<open>Latest values\<close>

definition latest_in :: "int \<Rightarrow> keyspace \<Rightarrow> string \<Rightarrow> MeterProjection option" where
  "latest_in now db k =
     (case live now db k of
        Some e \<Rightarrow> (case re_val e of RString (Projected p) \<Rightarrow> Some p | _ \<Rightarrow> None)
      | None \<Rightarrow> None)"

definition latest_at :: "string \<Rightarrow> redis \<Rightarrow> MeterProjection option" where
  "latest_at k r = latest_in (rd_clock r) (rd_db r) k"

definition latest_key :: "MeterProjection \<Rightarrow> string" where
  "latest_key p = MeterLatestKey (mp_GridID p) (mp_HouseID p)"

text \<open>The script is the newest-wins update of the register, and reports whether it wrote.\<close>

lemma set_latest_if_newer_spec:
  assumes "keyspace_ok db" "exact_projection p"
  shows "set_latest_if_newer (MeterLatestKey g h) (mp_EventTimeUnixMs p) (mp_Seq p) (Projected p) now db =
    (if (case live now db (MeterLatestKey g h) of
           Some e \<Rightarrow> (case re_val e of RString (Projected q) \<Rightarrow> version_of p \<le> version_of q | _ \<Rightarrow> False)
         | None \<Rightarrow> False)
     then (Inr 0, db)
     else (Inr 1, db(MeterLatestKey g h \<mapsto> \<lparr>re_val = RString (Projected p), re_expire = None\<rparr>)))"
proof (cases "live now db (MeterLatestKey g h)")
  case None
  then show ?thesis by (simp add: set_latest_if_newer_def redis_GET_def Let_def)
next
  case (Some e)
  then obtain t where t: "re_val e = RString t"
    using live_kinds(1) [OF assms(1) Some] by auto
  show ?thesis
  proof (cases t)
    case (Projected q)
    with keyspace_okD [OF assms(1) Some] t have "exact_projection q" by (simp add: entry_ok_def)
    with assms(2) Some t Projected show ?thesis
      by (auto simp: set_latest_if_newer_def redis_GET_def Let_def exact_projection_def
          version_of_def less_eq_version_def)
  next
    case (Garbled x)
    with Some t show ?thesis by (simp add: set_latest_if_newer_def redis_GET_def Let_def)
  qed
qed

lemma keyspace_ok_set_latest:
  "keyspace_ok db \<Longrightarrow> exact_projection p \<Longrightarrow>
   keyspace_ok (db(MeterLatestKey g h \<mapsto> \<lparr>re_val = RString (Projected p), re_expire = None\<rparr>))"
  by (intro keyspace_ok_update) (auto simp: entry_ok_def)

text \<open>The register after the script has run.\<close>

lemma latest_after_script:
  assumes "keyspace_ok db" "exact_projection p"
    and "set_latest_if_newer (latest_key p) (mp_EventTimeUnixMs p) (mp_Seq p) (Projected p) now db =
      (x, db')"
  shows "keyspace_ok db'"
    and "latest_in now db' k =
      (if k = latest_key p then newest version_of p (latest_in now db k) else latest_in now db k)"
    and "x = Inr (if not_newer version_of (Some p) (latest_in now db (latest_key p)) then 0 else 1)"
proof -
  let ?k = "latest_key p"
  let ?old = "latest_in now db ?k"
  have "(case live now db ?k of
           Some e \<Rightarrow> (case re_val e of RString (Projected q) \<Rightarrow> version_of p \<le> version_of q | _ \<Rightarrow> False)
         | None \<Rightarrow> False) \<longleftrightarrow> not_newer version_of (Some p) ?old"
    by (auto simp: latest_in_def not_newer_def split: option.splits redis_val.splits latest_text.splits)
  then have eq: "(x, db') = (if not_newer version_of (Some p) ?old then (Inr 0, db)
      else (Inr 1, db(?k \<mapsto> \<lparr>re_val = RString (Projected p), re_expire = None\<rparr>)))"
    using set_latest_if_newer_spec [OF assms(1,2)] assms(3) by (auto simp: latest_key_def split: if_splits)
  then show "keyspace_ok db'" "x = Inr (if not_newer version_of (Some p) ?old then 0 else 1)"
    using keyspace_ok_set_latest [OF assms(1,2)] assms(1)
    by (auto simp: latest_key_def split: if_splits)
  show "latest_in now db' k =
      (if k = ?k then newest version_of p (latest_in now db k) else latest_in now db k)"
    using eq
    by (auto simp: latest_in_def newest_def not_newer_def not_le split: if_splits option.splits)
qed

lemma SetLatestIfNewer_cases:
  assumes "redis_ok r" "exact_projection p" "SetLatestIfNewer p r = (res, r')"
  obtains (same) "isl res" "rd_db r' = rd_db r" "rd_clock r' = rd_clock r"
  | (run) x where "set_latest_if_newer (latest_key p) (mp_EventTimeUnixMs p) (mp_Seq p) (Projected p)
         (rd_clock r) (rd_db r) = (x, rd_db r')" "rd_clock r' = rd_clock r"
      "isl res \<or> (\<exists>n. x = Inr n \<and> res = Inr (n = 1))"
proof (cases "list_all finite64 (projection_floats p)")
  case False
  with assms(3) same show thesis
    by (auto simp: SetLatestIfNewer_def Let_def andThen_def json_Marshal_def)
next
  case True
  let ?q = "set_latest_if_newer (latest_key p) (mp_EventTimeUnixMs p) (mp_Seq p) (Projected p)"
  from True assms(3) obtain y where
      y: "onCmd (''redis: set_latest_if_newer for '' @ latest_key p @ '': '') ?q r = (y, r')"
    and res: "res = map_sum id (\<lambda>n. n = 1) y"
    by (auto simp: SetLatestIfNewer_def Let_def andThen_def json_Marshal_def latest_key_def
        split: prod.splits sum.splits)
  obtain x db' where q: "?q (rd_clock r) (rd_db r) = (x, db')" by fastforce
  from y show thesis
  proof (cases rule: onCmd_cases)
    case run
    with q res that(2) [of x] show thesis by (cases x) auto
  next
    case failed
    with res same show thesis by (cases y) auto
  next
    case lost
    with q res that(2) [of x] show thesis by (cases y) auto
  qed
qed

interpretation latest: newest_wins SetLatestIfNewer latest_at latest_key version_of exact_projection
  "\<lambda>r. redis_ok r"
proof
  fix r p res r' k b
  assume ok: "redis_ok r" "exact_projection p"
  note after = latest_after_script [OF ok]
  {
    assume "SetLatestIfNewer p r = (res, r')"
    then have "redis_ok r' \<and> (k \<noteq> latest_key p \<longrightarrow> latest_at k r' = latest_at k r) \<and>
      (latest_at (latest_key p) r' = newest version_of p (latest_at (latest_key p) r) \<or>
       (isl res \<and> latest_at (latest_key p) r' = latest_at (latest_key p) r))"
      using ok by (cases rule: SetLatestIfNewer_cases [OF ok]) (auto simp: latest_at_def after)
  }
  note all = this
  show "SetLatestIfNewer p r = (res, r') \<Longrightarrow> redis_ok r'" using all by blast
  show "SetLatestIfNewer p r = (res, r') \<Longrightarrow> k \<noteq> latest_key p \<Longrightarrow> latest_at k r' = latest_at k r"
    using all by blast
  show "SetLatestIfNewer p r = (res, r') \<Longrightarrow>
      latest_at (latest_key p) r' = newest version_of p (latest_at (latest_key p) r) \<or>
      (isl res \<and> latest_at (latest_key p) r' = latest_at (latest_key p) r)"
    using all by blast
  assume "SetLatestIfNewer p r = (Inr b, r')"
  then show "b \<longleftrightarrow> not_newer version_of (Some p) (latest_at (latest_key p) r) = False"
    by (cases rule: SetLatestIfNewer_cases [OF ok]) (auto simp: latest_at_def dest: after(3))
qed

text \<open>The projection of a decoded reading can be marshalled.\<close>

lemma ProjectionOf_marshals: "reading_ok r \<Longrightarrow> json_Marshal (ProjectionOf r) = Inr (Projected (ProjectionOf r))"
  by (auto simp: json_Marshal_def ProjectionOf_def projection_floats_def reading_ok_def list_all_iff
      storage_projection_def storage_reading_ok_def)

lemma separator_unique:
  "c \<notin> set xs \<Longrightarrow> c \<notin> set ys \<Longrightarrow> xs @ c # us = ys @ c # vs \<Longrightarrow> xs = ys \<and> us = vs"
proof (induction xs arbitrary: ys)
  case Nil
  then show ?case by (cases ys) auto
next
  case (Cons x xs)
  then show ?case by (cases ys) auto
qed

text \<open>Identifiers have no colon, so each house has its own keys.\<close>

lemma MeterLatestKey_inj:
  assumes "CHR '':'' \<notin> set g" "CHR '':'' \<notin> set g'" "MeterLatestKey g h = MeterLatestKey g' h'"
  shows "g = g' \<and> h = h'"
proof -
  have "g @ CHR '':'' # h @ '':latest'' = g' @ CHR '':'' # h' @ '':latest''"
    using assms(3) by (simp add: MeterLatestKey_def)
  from separator_unique [OF assms(1,2) this] show ?thesis by simp
qed

lemma HouseStatusKey_inj [simp]: "HouseStatusKey h = HouseStatusKey h' \<longleftrightarrow> h = h'"
  by (simp add: HouseStatusKey_def)

lemma GridHousesKey_inj [simp]: "GridHousesKey g = GridHousesKey g' \<longleftrightarrow> g = g'"
  by (simp add: GridHousesKey_def)


section \<open>House status\<close>

definition members :: "int \<Rightarrow> keyspace \<Rightarrow> string \<Rightarrow> string set" where
  "members now db g =
     (case live now db (GridHousesKey g) of
        Some e \<Rightarrow> (case re_val e of RSet xs \<Rightarrow> set xs | _ \<Rightarrow> {})
      | None \<Rightarrow> {})"

lemma map_of_hset: "map_of (hset fvs m) f =
    (case map_of (rev fvs) f of None \<Rightarrow> map_of m f | Some v \<Rightarrow> Some v)"
  by (induction fvs arbitrary: m)
     (auto simp: hset_def update_conv' map_add_def split: option.splits)

lemma hset_nonempty: "fvs \<noteq> [] \<Longrightarrow> hset fvs m \<noteq> []"
proof
  assume "fvs \<noteq> []" "hset fvs m = []"
  then obtain f v where "(f, v) \<in> set (rev fvs)" "map_of (hset fvs m) f = None" by (cases fvs) auto
  moreover from this have "map_of (rev fvs) f \<noteq> None" by (force simp: map_of_eq_None_iff)
  ultimately show False by (auto simp: map_of_hset)
qed

lemma redis_HSET_ok:
  assumes "keyspace_ok db" "fvs \<noteq> []"
  obtains e m where "redis_HSET (HouseStatusKey h) fvs now db = (Inr (), db(HouseStatusKey h \<mapsto> e))"
    "re_val e = RHash (hset fvs m)" "\<And>x. re_expire e = Some x \<Longrightarrow> now < x"
proof (cases "live now db (HouseStatusKey h)")
  case None
  then show thesis
    by (intro that [of "\<lparr>re_val = RHash (hset fvs []), re_expire = None\<rparr>" "[]"])
       (simp_all add: redis_HSET_def)
next
  case (Some e)
  then obtain m where "re_val e = RHash m" using live_kinds(2) [OF assms(1) Some] by auto
  moreover have "now < x" if "re_expire e = Some x" for x
    using Some that by (auto simp: live_def split: option.splits if_splits)
  ultimately show thesis
    using Some by (intro that [of "e\<lparr>re_val := RHash (hset fvs m)\<rparr>" m]) (simp_all add: redis_HSET_def)
qed

lemma redis_SADD_ok:
  assumes "keyspace_ok db"
  obtains xs where "redis_SADD (GridHousesKey g) h now db =
      (Inr (), db(GridHousesKey g \<mapsto> \<lparr>re_val = RSet xs, re_expire = None\<rparr>))"
    "set xs = insert h (members now db g)" "distinct xs"
proof (cases "live now db (GridHousesKey g)")
  case None
  then show thesis by (intro that [of "[h]"]) (simp_all add: redis_SADD_def members_def)
next
  case (Some e)
  then obtain xs where "e = \<lparr>re_val = RSet xs, re_expire = None\<rparr>" "distinct xs"
    using live_kinds(3) [OF assms Some] by (cases e) auto
  with Some show thesis
    by (intro that [of "if h \<in> set xs then xs else xs @ [h]"])
       (auto simp: redis_SADD_def members_def insert_absorb)
qed

text \<open>
  The heartbeat script on a well-formed keyspace: the status key holds the new status until its time
  to live ends, the house is a member of its grid, nothing else changes.
\<close>

lemma update_heartbeat_ok:
  assumes "keyspace_ok db" "0 < secs"
  obtains db' m where
    "update_heartbeat (HouseStatusKey h) (GridHousesKey g) secs st ts h now db = (Inr 1, db')"
    "keyspace_ok db'"
    "db' (HouseStatusKey h) = Some \<lparr>re_val = RHash m, re_expire = Some (now + secs * ns_second)\<rparr>"
    "m \<noteq> []" "map_of m ''status'' = Some st" "map_of m ''last_heartbeat_at'' = Some ts"
    "\<And>t. members t db' g = insert h (members now db g)"
    "\<And>k. k \<noteq> HouseStatusKey h \<Longrightarrow> k \<noteq> GridHousesKey g \<Longrightarrow> db' k = db k"
proof -
  let ?fvs = "[(''status'', st), (''last_heartbeat_at'', ts)]"
  obtain e m where h: "redis_HSET (HouseStatusKey h) ?fvs now db = (Inr (), db(HouseStatusKey h \<mapsto> e))"
      and e: "re_val e = RHash (hset ?fvs m)" "\<And>x. re_expire e = Some x \<Longrightarrow> now < x"
    using redis_HSET_ok [OF assms(1), of ?fvs] by blast
  let ?e = "e\<lparr>re_expire := Some (now + secs * ns_second)\<rparr>"
  let ?db2 = "db(HouseStatusKey h \<mapsto> ?e)"
  have x: "redis_EXPIRE (HouseStatusKey h) secs now (db(HouseStatusKey h \<mapsto> e)) = (Inr 1, ?db2)"
    using assms(2) e(2) by (auto simp: redis_EXPIRE_def split: option.splits)
  have ok2: "keyspace_ok ?db2"
    using assms(1) by (intro keyspace_ok_update) (auto simp: entry_ok_def e(1) hset_nonempty)
  obtain xs where s: "redis_SADD (GridHousesKey g) h now ?db2 =
      (Inr (), ?db2(GridHousesKey g \<mapsto> \<lparr>re_val = RSet xs, re_expire = None\<rparr>))"
      and xs: "set xs = insert h (members now ?db2 g)" "distinct xs"
    using redis_SADD_ok [OF ok2] by blast
  show thesis
  proof (rule that)
    show "update_heartbeat (HouseStatusKey h) (GridHousesKey g) secs st ts h now db =
        (Inr 1, ?db2(GridHousesKey g \<mapsto> \<lparr>re_val = RSet xs, re_expire = None\<rparr>))"
      by (simp add: update_heartbeat_def h x s del: fun_upd_apply)
    show "keyspace_ok (?db2(GridHousesKey g \<mapsto> \<lparr>re_val = RSet xs, re_expire = None\<rparr>))"
      using ok2 by (rule keyspace_ok_update) (auto simp: entry_ok_def xs)
    show "(?db2(GridHousesKey g \<mapsto> \<lparr>re_val = RSet xs, re_expire = None\<rparr>)) (HouseStatusKey h) =
        Some \<lparr>re_val = RHash (hset ?fvs m), re_expire = Some (now + secs * ns_second)\<rparr>"
      using e(1) by (cases e) simp
    show "hset ?fvs m \<noteq> []" by (simp add: hset_nonempty)
    show "members t (?db2(GridHousesKey g \<mapsto> \<lparr>re_val = RSet xs, re_expire = None\<rparr>)) g =
        insert h (members now db g)" for t
      using xs by (simp add: members_def)
  qed (simp_all add: map_of_hset)
qed

text \<open>The same for the method, whatever the connection does: the script ran once or not at all.\<close>

lemma updateHeartbeatWithTTL_effect:
  assumes "redis_ok r" "ns_second \<le> ttl" "updateHeartbeatWithTTL g h st ttl r = (res, r')"
  shows "redis_ok r'" "rd_clock r' = rd_clock r" "k \<noteq> HouseStatusKey h \<Longrightarrow> k \<noteq> GridHousesKey g \<Longrightarrow> rd_db r' k = rd_db r k"
proof -
  have secs: "0 < ttl_seconds ttl" using assms(2) by (simp add: ttl_seconds_def pos_imp_zdiv_pos_iff)
  obtain db' where run: "update_heartbeat (HouseStatusKey h) (GridHousesKey g) (ttl_seconds ttl)
      (hs_Status st) (Format_RFC3339 (hs_LastHeartbeatAt st)) h (rd_clock r) (rd_db r) = (Inr 1, db')"
    and db': "keyspace_ok db'" "\<And>k. k \<noteq> HouseStatusKey h \<Longrightarrow> k \<noteq> GridHousesKey g \<Longrightarrow> db' k = rd_db r k"
    using update_heartbeat_ok [OF assms(1) secs, of h g "hs_Status st"
        "Format_RFC3339 (hs_LastHeartbeatAt st)" "rd_clock r"] by metis
  obtain y where "onCmd (''redis: update_heartbeat for house '' @ h @ '': '')
      (update_heartbeat (HouseStatusKey h) (GridHousesKey g) (ttl_seconds ttl)
         (hs_Status st) (Format_RFC3339 (hs_LastHeartbeatAt st)) h) r = (y, r')"
    using assms(3) by (auto simp: updateHeartbeatWithTTL_def andThen_def split: prod.splits sum.splits)
  then have "rd_clock r' = rd_clock r \<and> (rd_db r' = rd_db r \<or> rd_db r' = db')"
    by (cases rule: onCmd_cases) (auto simp: run)
  then show "redis_ok r'" "rd_clock r' = rd_clock r"
    "k \<noteq> HouseStatusKey h \<Longrightarrow> k \<noteq> GridHousesKey g \<Longrightarrow> rd_db r' k = rd_db r k"
    using db' assms(1) by auto
qed

lemma updateHeartbeatWithTTL_quiet:
  assumes "redis_ok r" "rd_quiet r" "ns_second \<le> ttl"
  obtains db' m where
    "updateHeartbeatWithTTL g h st ttl r = (Inr (), r\<lparr>rd_db := db'\<rparr>)" "keyspace_ok db'"
    "db' (HouseStatusKey h) =
       Some \<lparr>re_val = RHash m, re_expire = Some (rd_clock r + ttl_seconds ttl * ns_second)\<rparr>"
    "m \<noteq> []" "map_of m ''status'' = Some (hs_Status st)"
    "map_of m ''last_heartbeat_at'' = Some (Format_RFC3339 (hs_LastHeartbeatAt st))"
    "\<And>t. members t db' g = insert h (members (rd_clock r) (rd_db r) g)"
proof -
  have secs: "0 < ttl_seconds ttl" using assms(3) by (simp add: ttl_seconds_def pos_imp_zdiv_pos_iff)
  obtain db' m where run: "update_heartbeat (HouseStatusKey h) (GridHousesKey g) (ttl_seconds ttl)
      (hs_Status st) (Format_RFC3339 (hs_LastHeartbeatAt st)) h (rd_clock r) (rd_db r) = (Inr 1, db')"
    and rest: "keyspace_ok db'" "db' (HouseStatusKey h) =
       Some \<lparr>re_val = RHash m, re_expire = Some (rd_clock r + ttl_seconds ttl * ns_second)\<rparr>"
    "m \<noteq> []" "map_of m ''status'' = Some (hs_Status st)"
    "map_of m ''last_heartbeat_at'' = Some (Format_RFC3339 (hs_LastHeartbeatAt st))"
    "\<And>t. members t db' g = insert h (members (rd_clock r) (rd_db r) g)"
    using update_heartbeat_ok [OF assms(1) secs] by metis
  have "updateHeartbeatWithTTL g h st ttl r = (Inr (), r\<lparr>rd_db := db'\<rparr>)"
    using assms(2) run by (simp add: updateHeartbeatWithTTL_def andThen_def onCmd_quiet)
  from that [OF this rest] show thesis .
qed

text \<open>The reader sees what the hash holds while the key lives.\<close>

lemma GetHouseStatus_quiet:
  assumes "rd_quiet r" "rd_db r (HouseStatusKey h) = Some \<lparr>re_val = RHash m, re_expire = Some x\<rparr>"
    and "m \<noteq> []" "map_of m ''status'' = Some st" "map_of m ''last_heartbeat_at'' = Some ts"
    and "parseRFC3339 std ts = Inr t"
  shows "GetHouseStatus std h r =
    (if rd_clock r < x then (Inr \<lparr>hs_Status = st, hs_LastHeartbeatAt = t\<rparr>, r)
     else (Inl redis_not_found, r))"
  using assms
  by (cases r) (simp add: GetHouseStatus_def Let_def andThen_def onCmd_quiet redis_HGETALL_def
      live_def field_of_def)


section \<open>Properties\<close>

text \<open>
  C5.  The latest-state cache is newest-wins.  For every sequence of projections written in any order,
  with repetitions and any connection failures: no register ever goes back to an older version or
  becomes empty, every acknowledged write is reflected by a value at least as new, and a register
  holds its old value or one of the projections written for its own house.
\<close>

theorem latest_never_regresses:
  assumes "redis_ok r" "list_all exact_projection ps"
  shows "case deliver SetLatestIfNewer ps r of (out, r') \<Rightarrow>
     not_newer version_of (latest_at k r) (latest_at k r') \<and>
     list_all2 (\<lambda>p res. \<not> isl res \<longrightarrow> not_newer version_of (Some p) (latest_at (latest_key p) r')) ps out \<and>
     (latest_at k r' = latest_at k r \<or> (\<exists>p \<in> set ps. latest_key p = k \<and> latest_at k r' = Some p)) \<and>
     redis_ok r'"
  using latest.deliver_never_regresses [OF assms] latest.deliver_reflected [OF assms]
    latest.deliver_source [OF assms] latest.deliver_inv [OF assms]
  by (auto split: prod.splits)

definition sample_projection :: "int \<Rightarrow> int \<Rightarrow> MeterProjection" where
  "sample_projection t seq =
     \<lparr>mp_EventTimeUnixMs = t, mp_Seq = seq, mp_GridID = ''g1'', mp_HouseID = ''g1-house1'',
      mp_MeterID = ''meter-g1-house1'', mp_DeviceClass = ''consumer'', mp_SolarKw = Fin 0,
      mp_ConsumptionKw = Fin 1, mp_NetKw = Fin (-1), mp_StorageAssets = []\<rparr>"

definition empty_redis :: "fault list \<Rightarrow> redis" where
  "empty_redis fs = \<lparr>rd_db = Map.empty, rd_faults = fs, rd_clock = 0\<rparr>"

lemma sample_projection_exact: "\<bar>t\<bar> < 2 ^ 53 \<Longrightarrow> \<bar>seq\<bar> < 2 ^ 53 \<Longrightarrow> exact_projection (sample_projection t seq)"
  by (simp add: exact_projection_def sample_projection_def lua_num_small)

lemma empty_redis_ok: "redis_ok (empty_redis fs)"
  by (simp add: keyspace_ok_def empty_redis_def)

theorem latest_never_regresses_witness:
  "redis_ok (snd (deliver SetLatestIfNewer [sample_projection 5 2, sample_projection 5 1]
     (empty_redis [Succeed, Lost CtxDeadline])))"
  using latest_never_regresses [of "empty_redis [Succeed, Lost CtxDeadline]"
      "[sample_projection 5 2, sample_projection 5 1]" "''''"]
  by (simp add: empty_redis_ok sample_projection_exact case_prod_beta)

text \<open>
  C6.  The cache converges.  Two runs over the same set of projections, in different orders and with
  different repetitions, in which every write is acknowledged, leave the same value in every register,
  provided equal versions for one key mean equal projections.
\<close>

theorem latest_converges:
  assumes "redis_ok r" "list_all exact_projection ps" "set qs = set ps"
    and "deliver SetLatestIfNewer ps r = (out, r1)" "list_all (\<lambda>x. \<not> isl x) out"
    and "deliver SetLatestIfNewer qs r = (out', r2)" "list_all (\<lambda>x. \<not> isl x) out'"
    and "inj_on version_of ({p \<in> set ps. latest_key p = k} \<union> {x. latest_at k r = Some x})"
  shows "latest_at k r1 = latest_at k r2"
  using assms by (rule latest.deliver_converges)

theorem latest_converges_witness:
  "let p = sample_projection 5 1; q = sample_projection 6 0 in
   latest_at (latest_key p) (snd (deliver SetLatestIfNewer [p, q] (empty_redis []))) =
   latest_at (latest_key p) (snd (deliver SetLatestIfNewer [q, p, q] (empty_redis [])))"
proof -
  let ?p = "sample_projection 5 1" and ?q = "sample_projection 6 0"
  have acked: "\<exists>b r'. SetLatestIfNewer x r = (Inr b, r') \<and> rd_quiet r' \<and> redis_ok r'"
    if "x \<in> {?p, ?q}" "rd_quiet r" "redis_ok r" for x r
  proof -
    have ex: "exact_projection x" using that by (auto simp: sample_projection_exact)
    have "list_all finite64 (projection_floats x)"
      using that by (auto simp: projection_floats_def sample_projection_def)
    with that(2,3) ex latest_after_script(1,3) [OF that(3) ex] show ?thesis
      by (auto simp: SetLatestIfNewer_def Let_def andThen_def json_Marshal_def onCmd_quiet
          latest_key_def prod_eq_iff split: prod.splits sum.splits)
  qed
  have all: "\<exists>out r'. deliver SetLatestIfNewer xs r = (out, r') \<and> list_all (\<lambda>x. \<not> isl x) out"
    if "set xs \<subseteq> {?p, ?q}" "rd_quiet r" "redis_ok r" for xs r
    using that
  proof (induction xs arbitrary: r)
    case (Cons x xs)
    from acked [of x r] Cons.prems obtain b r1 where
        x: "SetLatestIfNewer x r = (Inr b, r1)" "rd_quiet r1" "redis_ok r1" by auto
    with Cons.IH [of r1] Cons.prems show ?case by fastforce
  qed simp
  obtain o1 r1 o2 r2 where d: "deliver SetLatestIfNewer [?p, ?q] (empty_redis []) = (o1, r1)"
      "list_all (\<lambda>x. \<not> isl x) o1"
      "deliver SetLatestIfNewer [?q, ?p, ?q] (empty_redis []) = (o2, r2)" "list_all (\<lambda>x. \<not> isl x) o2"
    using all [of "[?p, ?q]" "empty_redis []"] all [of "[?q, ?p, ?q]" "empty_redis []"]
      empty_redis_ok [of "[]"] by (auto simp: empty_redis_def)
  have "latest_at (latest_key ?p) r1 = latest_at (latest_key ?p) r2"
    by (rule latest_converges [OF empty_redis_ok _ _ d], simp add: sample_projection_exact)
       (auto simp: inj_on_def version_of_def sample_projection_def
          latest_at_def latest_in_def live_def empty_redis_def)
  with d show ?thesis by (simp add: Let_def)
qed

text \<open>
  The comparison runs in Lua, where numbers are doubles.  A sequence number one above
  \<open>2 ^ 53\<close> rounds to \<open>2 ^ 53\<close>, so of two readings of one millisecond the newer one is discarded.
\<close>

theorem lua_rounding_drops_newer:
  "\<exists>r. SetLatestIfNewer (sample_projection 5 (2 ^ 53)) (empty_redis []) = (Inr True, r) \<and>
       SetLatestIfNewer (sample_projection 5 (2 ^ 53 + 1)) r = (Inr False, r)"
proof -
  have n: "lua_num 5 = 5" "lua_num 9007199254740992 = 9007199254740992"
    "lua_num 9007199254740993 = 9007199254740992"
    by code_simp+
  let ?k = "MeterLatestKey ''g1'' ''g1-house1''"
  let ?r = "(empty_redis [])\<lparr>rd_db := [?k \<mapsto>
      \<lparr>re_val = RString (Projected (sample_projection 5 (2 ^ 53))), re_expire = None\<rparr>]\<rparr>"
  have "SetLatestIfNewer (sample_projection 5 (2 ^ 53)) (empty_redis []) = (Inr True, ?r)"
    by (simp add: SetLatestIfNewer_def Let_def json_Marshal_def projection_floats_def andThen_def
        onCmd_quiet set_latest_if_newer_def redis_GET_def live_def empty_redis_def
        sample_projection_def)
  moreover have "SetLatestIfNewer (sample_projection 5 (2 ^ 53 + 1)) ?r = (Inr False, ?r)"
    by (simp add: SetLatestIfNewer_def Let_def json_Marshal_def projection_floats_def andThen_def
        onCmd_quiet set_latest_if_newer_def redis_GET_def live_def empty_redis_def
        sample_projection_def n)
  ultimately show ?thesis by blast
qed

text \<open>
  C7.  A heartbeat makes a house visible for exactly the liveness window.  After an acknowledged
  update the house is a member of its grid; its status is readable, with the heartbeat time cut to
  whole seconds, until ten minutes after the update, and is not found from then on.
\<close>

theorem UpdateHeartbeat_visible:
  assumes "redis_ok r" "rd_quiet r"
    and "parseRFC3339 std (Format_RFC3339 (hs_LastHeartbeatAt st)) =
      Inr (time_Truncate ns_second (hs_LastHeartbeatAt st))"
  shows "\<exists>r'. UpdateHeartbeat g h st r = (Inr (), r') \<and> redis_ok r' \<and>
    (\<exists>ids. GridHouseIDs g r' = (Inr ids, r') \<and> h \<in> set ids) \<and>
    (\<forall>t. fst (GetHouseStatus std h (r'\<lparr>rd_clock := t\<rparr>)) =
       (if t < rd_clock r + HeartbeatTTL
        then Inr (st\<lparr>hs_LastHeartbeatAt := time_Truncate ns_second (hs_LastHeartbeatAt st)\<rparr>)
        else Inl redis_not_found))"
proof -
  have ttl: "ns_second \<le> HeartbeatTTL" "ttl_seconds HeartbeatTTL * ns_second = HeartbeatTTL"
    by (simp_all add: HeartbeatTTL_def ttl_seconds_def)
  obtain db' m where
      u: "updateHeartbeatWithTTL g h st HeartbeatTTL r = (Inr (), r\<lparr>rd_db := db'\<rparr>)" "keyspace_ok db'"
    and d: "db' (HouseStatusKey h) =
       Some \<lparr>re_val = RHash m, re_expire = Some (rd_clock r + HeartbeatTTL)\<rparr>"
      "m \<noteq> []" "map_of m ''status'' = Some (hs_Status st)"
      "map_of m ''last_heartbeat_at'' = Some (Format_RFC3339 (hs_LastHeartbeatAt st))"
    and mem: "\<And>t. members t db' g = insert h (members (rd_clock r) (rd_db r) g)"
    using updateHeartbeatWithTTL_quiet [OF assms(1,2) ttl(1), unfolded ttl(2)] by metis
  let ?r = "r\<lparr>rd_db := db'\<rparr>"
  have "h \<in> members (rd_clock r) db' g" using mem by simp
  then obtain e ids where e: "live (rd_clock r) db' (GridHousesKey g) = Some e" "re_val e = RSet ids"
      "h \<in> set ids"
    by (auto simp: members_def split: option.splits redis_val.splits)
  then have "GridHouseIDs g ?r = (Inr ids, ?r)"
    using assms(2) by (simp add: GridHouseIDs_def Let_def onCmd_quiet redis_SMEMBERS_def)
  moreover have "fst (GetHouseStatus std h (?r\<lparr>rd_clock := t\<rparr>)) =
       (if t < rd_clock r + HeartbeatTTL
        then Inr (st\<lparr>hs_LastHeartbeatAt := time_Truncate ns_second (hs_LastHeartbeatAt st)\<rparr>)
        else Inl redis_not_found)" for t
    using GetHouseStatus_quiet [of "?r\<lparr>rd_clock := t\<rparr>" h m, OF _ _ d(2,3,4) assms(3)] assms(2) d(1)
    by (cases st) simp
  ultimately show ?thesis using u e by (auto simp: UpdateHeartbeat_def)
qed

text \<open>A standard library whose parser inverts the formatter at the epoch.\<close>

definition sample_std :: go_std where
  "sample_std =
     \<lparr>unmarshalMeter = (\<lambda>_. Inl ''unexpected end of JSON input''),
      unmarshalHeartbeat = (\<lambda>_. Inl ''unexpected end of JSON input''),
      parseRFC3339 = (\<lambda>s. if s = Format_RFC3339 0 then Inr 0 else Inl ''cannot parse'')\<rparr>"

theorem UpdateHeartbeat_visible_witness:
  "\<exists>r'. UpdateHeartbeat ''g1'' ''g1-house1'' \<lparr>hs_Status = ''online'', hs_LastHeartbeatAt = 0\<rparr> (empty_redis []) = (Inr (), r') \<and>
    fst (GetHouseStatus sample_std ''g1-house1'' (r'\<lparr>rd_clock := 599 * ns_second\<rparr>)) =
      Inr \<lparr>hs_Status = ''online'', hs_LastHeartbeatAt = 0\<rparr> \<and>
    fst (GetHouseStatus sample_std ''g1-house1'' (r'\<lparr>rd_clock := 600 * ns_second\<rparr>)) =
      Inl redis_not_found"
proof -
  let ?st = "\<lparr>hs_Status = ''online'', hs_LastHeartbeatAt = 0\<rparr>"
  have "parseRFC3339 sample_std (Format_RFC3339 (hs_LastHeartbeatAt ?st)) =
      Inr (time_Truncate ns_second (hs_LastHeartbeatAt ?st))"
    by (simp add: sample_std_def time_Truncate_def)
  from UpdateHeartbeat_visible [OF empty_redis_ok _ this, of "[]" "''g1''" "''g1-house1''"]
  show ?thesis by (force simp: empty_redis_def HeartbeatTTL_def time_Truncate_def)
qed

text \<open>
  Restoring a status never makes a house look alive for longer than its heartbeat allows: the
  restore is skipped when less than a second of the liveness window is left, and a restored status is
  readable only before ten minutes after the heartbeat it carries.
\<close>

theorem RestoreHeartbeat_bounded:
  assumes "redis_ok r" "rd_quiet r"
    and "parseRFC3339 std (Format_RFC3339 (hs_LastHeartbeatAt st)) =
      Inr (time_Truncate ns_second (hs_LastHeartbeatAt st))"
  shows "if hs_LastHeartbeatAt st + HeartbeatTTL < rd_clock r + ns_second
    then RestoreHeartbeat g h st (rd_clock r) r = (Inr False, r)
    else \<exists>r'. RestoreHeartbeat g h st (rd_clock r) r = (Inr True, r') \<and> redis_ok r' \<and>
      (\<forall>t. fst (GetHouseStatus std h (r'\<lparr>rd_clock := t\<rparr>)) = Inl redis_not_found \<or>
           t < hs_LastHeartbeatAt st + HeartbeatTTL \<and>
           fst (GetHouseStatus std h (r'\<lparr>rd_clock := t\<rparr>)) =
             Inr (st\<lparr>hs_LastHeartbeatAt := time_Truncate ns_second (hs_LastHeartbeatAt st)\<rparr>))"
proof (cases "hs_LastHeartbeatAt st + HeartbeatTTL < rd_clock r + ns_second")
  case True
  then show ?thesis by (simp add: RestoreHeartbeat_def Let_def)
next
  case False
  define ttl where "ttl = HeartbeatTTL - (rd_clock r - hs_LastHeartbeatAt st)"
  have ttl: "ns_second \<le> ttl" using False by (simp add: ttl_def)
  then have "ttl_seconds ttl * ns_second \<le> ttl"
    by (simp add: ttl_seconds_def)
  then have le: "rd_clock r + ttl_seconds ttl * ns_second \<le> hs_LastHeartbeatAt st + HeartbeatTTL"
    by (simp add: ttl_def)
  obtain db' m where
      u: "updateHeartbeatWithTTL g h st ttl r = (Inr (), r\<lparr>rd_db := db'\<rparr>)" "keyspace_ok db'"
    and d: "db' (HouseStatusKey h) =
       Some \<lparr>re_val = RHash m, re_expire = Some (rd_clock r + ttl_seconds ttl * ns_second)\<rparr>"
      "m \<noteq> []" "map_of m ''status'' = Some (hs_Status st)"
      "map_of m ''last_heartbeat_at'' = Some (Format_RFC3339 (hs_LastHeartbeatAt st))"
    using updateHeartbeatWithTTL_quiet [OF assms(1,2) ttl] by metis
  let ?r = "r\<lparr>rd_db := db'\<rparr>"
  have "fst (GetHouseStatus std h (?r\<lparr>rd_clock := t\<rparr>)) =
     (if t < rd_clock r + ttl_seconds ttl * ns_second
      then Inr (st\<lparr>hs_LastHeartbeatAt := time_Truncate ns_second (hs_LastHeartbeatAt st)\<rparr>)
      else Inl redis_not_found)" for t
    using GetHouseStatus_quiet [of "?r\<lparr>rd_clock := t\<rparr>" h m, OF _ _ d(2,3,4) assms(3)] assms(2) d(1)
    by (cases st) simp
  with le have "fst (GetHouseStatus std h (?r\<lparr>rd_clock := t\<rparr>)) = Inl redis_not_found \<or>
     t < hs_LastHeartbeatAt st + HeartbeatTTL \<and> fst (GetHouseStatus std h (?r\<lparr>rd_clock := t\<rparr>)) =
       Inr (st\<lparr>hs_LastHeartbeatAt := time_Truncate ns_second (hs_LastHeartbeatAt st)\<rparr>)" for t
    by auto
  moreover have "RestoreHeartbeat g h st (rd_clock r) r = (Inr True, ?r)"
    using ttl u by (simp add: RestoreHeartbeat_def ttl_def [symmetric] Let_def andThen_def)
  ultimately show ?thesis using False u(2) by auto
qed

theorem RestoreHeartbeat_bounded_witness:
  "\<exists>r'. RestoreHeartbeat ''g1'' ''g1-house1'' \<lparr>hs_Status = ''online'', hs_LastHeartbeatAt = 0\<rparr> 0 (empty_redis []) = (Inr True, r') \<and>
    fst (GetHouseStatus sample_std ''g1-house1'' (r'\<lparr>rd_clock := 600 * ns_second\<rparr>)) = Inl redis_not_found"
proof -
  let ?st = "\<lparr>hs_Status = ''online'', hs_LastHeartbeatAt = 0\<rparr>"
  have "parseRFC3339 sample_std (Format_RFC3339 (hs_LastHeartbeatAt ?st)) =
      Inr (time_Truncate ns_second (hs_LastHeartbeatAt ?st))"
    by (simp add: sample_std_def time_Truncate_def)
  from RestoreHeartbeat_bounded [OF empty_redis_ok _ this, of "[]" "''g1''" "''g1-house1''"]
  show ?thesis by (force simp: empty_redis_def HeartbeatTTL_def)
qed

text \<open>
  Restoring is not newest-wins.  When a fresh heartbeat has just been written and a restore with
  an older heartbeat that is still inside the window follows, the older time replaces the fresh one
  and the status expires earlier than the fresh heartbeat allows.
\<close>

theorem RestoreHeartbeat_regresses:
  assumes "redis_ok r" "rd_quiet r" "hs_LastHeartbeatAt old < hs_LastHeartbeatAt fresh"
    and "rd_clock r + ns_second \<le> hs_LastHeartbeatAt old + HeartbeatTTL"
    and "hs_LastHeartbeatAt fresh \<le> rd_clock r"
    and "parseRFC3339 std (Format_RFC3339 (hs_LastHeartbeatAt old)) =
      Inr (time_Truncate ns_second (hs_LastHeartbeatAt old))"
  shows "\<exists>r1 r2. UpdateHeartbeat g h fresh r = (Inr (), r1) \<and>
     RestoreHeartbeat g h old (rd_clock r1) r1 = (Inr True, r2) \<and>
     fst (GetHouseStatus std h r2) =
       Inr (old\<lparr>hs_LastHeartbeatAt := time_Truncate ns_second (hs_LastHeartbeatAt old)\<rparr>) \<and>
     fst (GetHouseStatus std h (r2\<lparr>rd_clock := hs_LastHeartbeatAt old + HeartbeatTTL\<rparr>)) =
       Inl redis_not_found"
proof -
  have "ns_second \<le> HeartbeatTTL" by (simp add: HeartbeatTTL_def)
  from updateHeartbeatWithTTL_quiet [OF assms(1,2) this, of g h fresh]
  obtain db1 where u: "UpdateHeartbeat g h fresh r = (Inr (), r\<lparr>rd_db := db1\<rparr>)" "keyspace_ok db1"
    unfolding UpdateHeartbeat_def by metis
  let ?r1 = "r\<lparr>rd_db := db1\<rparr>"
  define ttl where "ttl = HeartbeatTTL - (rd_clock r - hs_LastHeartbeatAt old)"
  have ttl: "ns_second \<le> ttl" using assms(4) by (simp add: ttl_def)
  then have secs: "ttl_seconds ttl * ns_second \<le> ttl" "0 < ttl_seconds ttl"
    by (simp_all add: ttl_seconds_def pos_imp_zdiv_pos_iff)
  obtain db2 m where
      v: "updateHeartbeatWithTTL g h old ttl ?r1 = (Inr (), ?r1\<lparr>rd_db := db2\<rparr>)"
    and d: "db2 (HouseStatusKey h) =
       Some \<lparr>re_val = RHash m, re_expire = Some (rd_clock r + ttl_seconds ttl * ns_second)\<rparr>"
      "m \<noteq> []" "map_of m ''status'' = Some (hs_Status old)"
      "map_of m ''last_heartbeat_at'' = Some (Format_RFC3339 (hs_LastHeartbeatAt old))"
    by (rule updateHeartbeatWithTTL_quiet [of ?r1 ttl g h old])
       (use u(2) assms(2) ttl in \<open>simp_all\<close>)
  let ?r2 = "?r1\<lparr>rd_db := db2\<rparr>"
  have "RestoreHeartbeat g h old (rd_clock ?r1) ?r1 = (Inr True, ?r2)"
    using ttl v by (simp add: RestoreHeartbeat_def ttl_def [symmetric] Let_def andThen_def)
  moreover have "fst (GetHouseStatus std h (?r2\<lparr>rd_clock := t\<rparr>)) =
     (if t < rd_clock r + ttl_seconds ttl * ns_second
      then Inr (old\<lparr>hs_LastHeartbeatAt := time_Truncate ns_second (hs_LastHeartbeatAt old)\<rparr>)
      else Inl redis_not_found)" for t
    using GetHouseStatus_quiet [of "?r2\<lparr>rd_clock := t\<rparr>" h m, OF _ _ d(2,3,4) assms(6)] assms(2) d(1)
    by (cases old) simp
  from this [of "rd_clock r"] this [of "hs_LastHeartbeatAt old + HeartbeatTTL"] secs
  have "fst (GetHouseStatus std h ?r2) =
       Inr (old\<lparr>hs_LastHeartbeatAt := time_Truncate ns_second (hs_LastHeartbeatAt old)\<rparr>)"
    "fst (GetHouseStatus std h (?r2\<lparr>rd_clock := hs_LastHeartbeatAt old + HeartbeatTTL\<rparr>)) =
       Inl redis_not_found"
    by (simp_all add: ttl_def)
  ultimately show ?thesis using u(1) by blast
qed

theorem RestoreHeartbeat_regresses_witness:
  "\<exists>r1 r2. UpdateHeartbeat ''g1'' ''g1-house1'' \<lparr>hs_Status = ''online'', hs_LastHeartbeatAt = 60 * ns_second\<rparr>
       \<lparr>rd_db = Map.empty, rd_faults = [], rd_clock = 60 * ns_second\<rparr> = (Inr (), r1) \<and>
     RestoreHeartbeat ''g1'' ''g1-house1'' \<lparr>hs_Status = ''online'', hs_LastHeartbeatAt = 0\<rparr> (rd_clock r1) r1 =
       (Inr True, r2) \<and>
     fst (GetHouseStatus sample_std ''g1-house1'' r2) = Inr \<lparr>hs_Status = ''online'', hs_LastHeartbeatAt = 0\<rparr>"
  using RestoreHeartbeat_regresses
    [of "\<lparr>rd_db = Map.empty, rd_faults = [], rd_clock = 60 * ns_second\<rparr>"
        "\<lparr>hs_Status = ''online'', hs_LastHeartbeatAt = 0\<rparr>"
        "\<lparr>hs_Status = ''online'', hs_LastHeartbeatAt = 60 * ns_second\<rparr>" sample_std "''g1''" "''g1-house1''"]
  by (force simp: keyspace_ok_def HeartbeatTTL_def sample_std_def time_Truncate_def)

end
