(* ===== verification/Samples.thy ===== *)
theory Samples
  imports Sql Decoder
begin

text \<open>
  Concrete values on which the theorems with hypotheses are instantiated: two readings of one house
  with one battery each, a heartbeat, and a database that is empty or holds one provisioned house.
\<close>

definition sample_storage :: "string \<Rightarrow> StorageAssetReading" where
  "sample_storage a =
     \<lparr>sr_AssetID = a, sr_AssetType = ''bess'', sr_SocPct = Fin 50, sr_PowerKw = Fin (-1),
      sr_CapacityKwh = Fin 10, sr_PluggedIn = None\<rparr>"

definition sample_reading :: "string \<Rightarrow> int \<Rightarrow> MeterReading" where
  "sample_reading a seq =
     \<lparr>mr_SchemaVersion = ''1.0'', mr_MeterID = ''meter-g1-house1'', mr_HouseID = ''g1-house1'',
      mr_GridID = ''g1'', mr_DeviceClass = ''residential_prosumer'', mr_EventTime = 1500,
      mr_Seq = seq, mr_SolarKw = Fin 3, mr_ConsumptionKw = Fin 1, mr_NetKw = Fin 2,
      mr_StorageAssets = [sample_storage a], mr_WeatherIrradianceWm2 = Some (Fin 700),
      mr_CloudCoverPct = None\<rparr>"

definition sample_asset :: "string \<Rightarrow> FlexibleAsset" where
  "sample_asset a =
     \<lparr>fa_AssetID = a, fa_AssetType = ''bess'', fa_CapacityKwh = Fin 10, fa_MaxChargeKw = Fin 5,
      fa_MaxDischargeKw = Fin 5, fa_V2GCapable = None\<rparr>"

definition sample_heartbeat :: Heartbeat where
  "sample_heartbeat =
     \<lparr>hb_SchemaVersion = ''1.0'', hb_GridID = ''g1'', hb_HouseID = ''g1-house1'',
      hb_MeterID = ''meter-g1-house1'', hb_Status = ''online'',
      hb_DeviceClass = ''residential_prosumer'', hb_RatedSolarKw = Fin 5,
      hb_FlexibleAssets = [sample_asset ''b1'']\<rparr>"

definition empty_tables :: tables where
  "empty_tables =
     \<lparr>t_grids = [], t_houses = [], t_flexible_assets = [], t_discovered_assets = [],
      t_meter_readings = [], t_storage_readings = [], t_failures = [], t_failures_seq = 1,
      t_meter_registrations = []\<rparr>"

definition sample_tables :: tables where
  "sample_tables =
     empty_tables\<lparr>
       t_grids := [\<lparr>g_grid_id = ''g1'', g_lat = Fin 25, g_lon = Fin 55, g_display_name = None\<rparr>],
       t_houses := [\<lparr>h_house_id = ''g1-house1'', h_grid_id = ''g1'',
                     h_meter_id = Some ''meter-g1-house1'',
                     h_device_class = ''residential_prosumer'', h_rated_solar_kw = Some (Fin 5),
                     h_last_heartbeat_at = 0\<rparr>]\<rparr>"

definition quiet_pg :: "tables \<Rightarrow> int \<Rightarrow> pg" where
  "quiet_pg T now = \<lparr>pg_tables = T, pg_faults = [], pg_clock = now\<rparr>"

lemma quiet_pg_simps [simp]:
  "pg_tables (quiet_pg T now) = T" "pg_faults (quiet_pg T now) = []"
  "pg_clock (quiet_pg T now) = now"
  by (simp_all add: quiet_pg_def)

lemma sample_tables_ok: "tables_ok empty_tables" "tables_ok sample_tables"
  by (simp_all add: tables_ok_def empty_tables_def sample_tables_def)

lemma sample_grid: "grid_id_ok ''g1''"
  by (simp add: grid_id_ok_def isLowerAlnum_def less_eq_char_def)

lemma sample_house: "house_id_ok ''g1-house1'' ''g1''"
  unfolding house_id_ok_def
  by (intro exI [of _ "''1''"]) (simp add: isDigit_def less_eq_char_def)

lemma sample_identity: "identity_ok ''g1'' ''g1-house1'' ''meter-g1-house1'' ''residential_prosumer''"
  by (simp add: identity_ok_def sample_grid sample_house device_class_ok_def)

lemma sample_reading_ok: "asset_id_ok a \<Longrightarrow> 0 \<le> seq \<Longrightarrow> reading_ok (sample_reading a seq)"
  by (simp add: reading_ok_def sample_reading_def sample_storage_def storage_reading_ok_def
      sample_identity asset_type_ok_def nonneg_opt_def percent_opt_def)

lemma sample_asset_ids: "asset_id_ok ''b1''" "asset_id_ok ''b2''"
  by (simp_all add: asset_id_ok_def isAssetIDChar_def isLowerAlnum_def isDigit_def less_eq_char_def)

lemma sample_heartbeat_ok: "heartbeat_ok sample_heartbeat"
  by (simp add: heartbeat_ok_def sample_heartbeat_def sample_asset_def sample_identity flexible_ok_def
      asset_type_ok_def sample_asset_ids)

end
