(* ===== verification/TelemetryStore.thy ===== *)
theory TelemetryStore
  imports Sql Decoder GoTime Interfaces Samples
begin

text \<open>
  \<^verbatim>\<open>internal/store/postgres/telemetry_writer.go\<close>: the transactional, immutable insert of a meter
  reading with its storage-asset rows, and the comparison that tells a replay from a conflict.
\<close>

section \<open>The statements\<close>

text \<open>\<^verbatim>\<open>CHECK\<close> constraints of \<^verbatim>\<open>meter_readings\<close> and \<^verbatim>\<open>storage_asset_readings\<close> (migrations 00002, 00009).\<close>

definition pg_between :: "rat \<Rightarrow> float64 \<Rightarrow> rat \<Rightarrow> bool" where
  "pg_between lo v hi \<longleftrightarrow> pg_le (Fin lo) v \<and> pg_le v (Fin hi)"

definition meter_checks :: "meter_row \<Rightarrow> bool" where
  "meter_checks r \<longleftrightarrow>
     m_device_class r \<in> {''consumer'', ''residential_prosumer'', ''commercial''} \<and>
     0 \<le> m_seq r \<and>
     finite64 (m_solar_kw r) \<and> pg_le (Fin 0) (m_solar_kw r) \<and>
     finite64 (m_consumption_kw r) \<and> pg_le (Fin 0) (m_consumption_kw r) \<and>
     finite64 (m_net_kw r) \<and>
     (case m_weather_irradiance_wm2 r of None \<Rightarrow> True | Some v \<Rightarrow> pg_le (Fin 0) v) \<and>
     (case m_cloud_cover_pct r of None \<Rightarrow> True | Some v \<Rightarrow> pg_between 0 v 100) \<and>
     m_meter_id r \<noteq> '''' \<and> m_house_id r \<noteq> '''' \<and> m_grid_id r \<noteq> '''' \<and> m_schema_version r \<noteq> ''''"

definition storage_checks :: "storage_row \<Rightarrow> bool" where
  "storage_checks r \<longleftrightarrow>
     s_asset_type r \<in> {''bess'', ''ev''} \<and> pg_between 0 (s_soc_pct r) 100 \<and>
     finite64 (s_power_kw r) \<and> finite64 (s_capacity_kwh r) \<and> pg_lt (Fin 0) (s_capacity_kwh r) \<and>
     (s_plugged_in r = None \<or> s_asset_type r = ''ev'') \<and>
     s_meter_id r \<noteq> '''' \<and> s_house_id r \<noteq> '''' \<and> s_asset_id r \<noteq> ''''"

definition insertMeterReadingSQL ::
    "meter_row \<Rightarrow> int \<Rightarrow> tables \<Rightarrow> (sql_error + nat) \<times> tables" where
  "insertMeterReadingSQL row now T =
     (if \<not> meter_checks row
      then (Inl (PgError pgCheckViolation ''new row violates check constraint''), T)
      else if meter_pk row \<in> meter_pk ` set (t_meter_readings T) then (Inr 0, T)
      else (Inr 1, T\<lparr>t_meter_readings := t_meter_readings T @ [row]\<rparr>))"

definition selectMeterReadingSQL ::
    "int \<Rightarrow> string \<Rightarrow> int \<Rightarrow> int \<Rightarrow> tables \<Rightarrow> (sql_error + meter_row) \<times> tables" where
  "selectMeterReadingSQL time meter seq now T =
     (case find (\<lambda>r. meter_pk r = (time, meter, seq)) (t_meter_readings T) of
        None \<Rightarrow> (Inl NoRows, T) | Some r \<Rightarrow> (Inr r, T))"

definition insertStorageReadingSQL ::
    "storage_row \<Rightarrow> int \<Rightarrow> tables \<Rightarrow> (sql_error + nat) \<times> tables" where
  "insertStorageReadingSQL row now T =
     (if \<not> storage_checks row
      then (Inl (PgError pgCheckViolation ''new row violates check constraint''), T)
      else if storage_pk row \<in> storage_pk ` set (t_storage_readings T)
      then (Inl (PgError pgUniqueViolation ''duplicate key value violates unique constraint''), T)
      else (Inr 1, T\<lparr>t_storage_readings := t_storage_readings T @ [row]\<rparr>))"

definition selectStorageReadingsSQL ::
    "int \<Rightarrow> string \<Rightarrow> int \<Rightarrow> tables \<Rightarrow> (sql_error + storage_row list) \<times> tables" where
  "selectStorageReadingsSQL time meter now T =
     (Inr (sort_key s_asset_id
        (filter (\<lambda>r. s_time r = time \<and> s_meter_id r = meter) (t_storage_readings T))), T)"

section \<open>Comparing readings\<close>

text \<open>\<^verbatim>\<open>equalOptional\<close>, instantiated at \<^verbatim>\<open>*float64\<close> (with Go's float comparison) and \<^verbatim>\<open>*bool\<close>.\<close>

definition equalOptional :: "('a \<Rightarrow> 'a \<Rightarrow> bool) \<Rightarrow> 'a option \<Rightarrow> 'a option \<Rightarrow> bool" where
  "equalOptional eq a b =
     (case (a, b) of (Some x, Some y) \<Rightarrow> eq x y | (None, None) \<Rightarrow> True | _ \<Rightarrow> False)"

definition sortedAssets :: "StorageAssetReading list \<Rightarrow> StorageAssetReading list" where
  "sortedAssets xs = sort_key sr_AssetID xs"

definition storageEqual :: "StorageAssetReading \<Rightarrow> StorageAssetReading \<Rightarrow> bool" where
  "storageEqual x y \<longleftrightarrow>
     sr_AssetID x = sr_AssetID y \<and> sr_AssetType x = sr_AssetType y \<and>
     f64_eq (sr_SocPct x) (sr_SocPct y) \<and> f64_eq (sr_PowerKw x) (sr_PowerKw y) \<and>
     f64_eq (sr_CapacityKwh x) (sr_CapacityKwh y) \<and>
     equalOptional (=) (sr_PluggedIn x) (sr_PluggedIn y)"

definition readingsEqual :: "MeterReading \<Rightarrow> MeterReading \<Rightarrow> bool" where
  "readingsEqual a b \<longleftrightarrow>
     mr_MeterID a = mr_MeterID b \<and> mr_HouseID a = mr_HouseID b \<and> mr_GridID a = mr_GridID b \<and>
     mr_DeviceClass a = mr_DeviceClass b \<and> mr_SchemaVersion a = mr_SchemaVersion b \<and>
     mr_Seq a = mr_Seq b \<and> mr_EventTime a = mr_EventTime b \<and>
     f64_eq (mr_SolarKw a) (mr_SolarKw b) \<and> f64_eq (mr_ConsumptionKw a) (mr_ConsumptionKw b) \<and>
     f64_eq (mr_NetKw a) (mr_NetKw b) \<and>
     equalOptional f64_eq (mr_WeatherIrradianceWm2 a) (mr_WeatherIrradianceWm2 b) \<and>
     equalOptional f64_eq (mr_CloudCoverPct a) (mr_CloudCoverPct b) \<and>
     length (mr_StorageAssets a) = length (mr_StorageAssets b) \<and>
     list_all2 storageEqual (sortedAssets (mr_StorageAssets a)) (sortedAssets (mr_StorageAssets b))"

section \<open>The methods\<close>

definition meter_row_of :: "MeterReading \<Rightarrow> meter_row" where
  "meter_row_of r =
     \<lparr>m_time = mr_EventTime r, m_meter_id = mr_MeterID r, m_house_id = mr_HouseID r,
      m_grid_id = mr_GridID r, m_device_class = mr_DeviceClass r,
      m_schema_version = mr_SchemaVersion r, m_seq = mr_Seq r, m_solar_kw = mr_SolarKw r,
      m_consumption_kw = mr_ConsumptionKw r, m_net_kw = mr_NetKw r,
      m_weather_irradiance_wm2 = mr_WeatherIrradianceWm2 r,
      m_cloud_cover_pct = mr_CloudCoverPct r\<rparr>"

definition storage_row_of :: "MeterReading \<Rightarrow> StorageAssetReading \<Rightarrow> storage_row" where
  "storage_row_of r a =
     \<lparr>s_time = mr_EventTime r, s_meter_id = mr_MeterID r, s_house_id = mr_HouseID r,
      s_asset_id = sr_AssetID a, s_asset_type = sr_AssetType a, s_soc_pct = sr_SocPct a,
      s_power_kw = sr_PowerKw a, s_capacity_kwh = sr_CapacityKwh a,
      s_plugged_in = sr_PluggedIn a\<rparr>"

definition storage_of_row :: "storage_row \<Rightarrow> StorageAssetReading" where
  "storage_of_row s =
     \<lparr>sr_AssetID = s_asset_id s, sr_AssetType = s_asset_type s, sr_SocPct = s_soc_pct s,
      sr_PowerKw = s_power_kw s, sr_CapacityKwh = s_capacity_kwh s,
      sr_PluggedIn = s_plugged_in s\<rparr>"

definition stored_reading :: "MeterReading \<Rightarrow> meter_row \<Rightarrow> storage_row list \<Rightarrow> MeterReading" where
  "stored_reading r row rows =
     \<lparr>mr_SchemaVersion = m_schema_version row, mr_MeterID = mr_MeterID r,
      mr_HouseID = m_house_id row, mr_GridID = m_grid_id row, mr_DeviceClass = m_device_class row,
      mr_EventTime = mr_EventTime r, mr_Seq = mr_Seq r, mr_SolarKw = m_solar_kw row,
      mr_ConsumptionKw = m_consumption_kw row, mr_NetKw = m_net_kw row,
      mr_StorageAssets = map storage_of_row rows,
      mr_WeatherIrradianceWm2 = m_weather_irradiance_wm2 row,
      mr_CloudCoverPct = m_cloud_cover_pct row\<rparr>"

definition replay_conflict :: "MeterReading \<Rightarrow> go_error" where
  "replay_conflict r =
     sentinel_error ErrIntegrityConflict
       (''domain: conflicting duplicate telemetry: meter '' @ go_quote (mr_MeterID r) @ '' seq '' @
        show_int (mr_Seq r) @ '' at '' @ Format_RFC3339Nano (mr_EventTime r) @
        '' already recorded with different values'')"

definition verifyReplay :: "MeterReading \<Rightarrow> (pg, unit) act" where
  "verifyReplay r =
     andThen (onSql (sqlErrorf ''load existing meter reading: '')
                (stmt (selectMeterReadingSQL (mr_EventTime r) (mr_MeterID r) (mr_Seq r)))) (\<lambda>row.
     andThen (onSql (sqlErrorf ''load existing storage readings: '')
                (stmt (selectStorageReadingsSQL (mr_EventTime r) (mr_MeterID r)))) (\<lambda>rows.
     if \<not> readingsEqual (stored_reading r row rows) r then throw (replay_conflict r)
     else ret ()))"

definition storage_error :: "MeterReading \<Rightarrow> StorageAssetReading \<Rightarrow> sql_error \<Rightarrow> go_error" where
  "storage_error r a x =
     (case x of
        PgError code t \<Rightarrow>
          if code = pgUniqueViolation
          then sentinel_error ErrIntegrityConflict
                 (''domain: conflicting duplicate telemetry: storage asset '' @
                  go_quote (sr_AssetID a) @ '' already recorded for meter '' @
                  go_quote (mr_MeterID r) @ '' at '' @ Format_RFC3339Nano (mr_EventTime r))
          else sqlErrorf (''insert storage asset reading '' @ go_quote (sr_AssetID a) @ '': '') x
      | _ \<Rightarrow> sqlErrorf (''insert storage asset reading '' @ go_quote (sr_AssetID a) @ '': '') x)"

fun insertStorageAssets :: "MeterReading \<Rightarrow> StorageAssetReading list \<Rightarrow> (pg, unit) act" where
  "insertStorageAssets r [] = ret ()"
| "insertStorageAssets r (a # as) =
     andThen (onSql (storage_error r a) (stmt (insertStorageReadingSQL (storage_row_of r a))))
       (\<lambda>_. insertStorageAssets r as)"

definition normalize :: "MeterReading \<Rightarrow> MeterReading" where
  "normalize r = r\<lparr>mr_EventTime := time_Truncate ns_microsecond (mr_EventTime r)\<rparr>"

definition InsertMeterReading :: "MeterReading \<Rightarrow> (pg, bool) act" where
  "InsertMeterReading r0 =
     (let r = normalize r0 in
      BeginFunc (
        andThen (onSql (sqlErrorf ''insert meter reading: '')
                   (stmt (insertMeterReadingSQL (meter_row_of r)))) (\<lambda>affected.
        if affected = 0 then andThen (verifyReplay r) (\<lambda>_. ret False)
        else andThen (insertStorageAssets r (mr_StorageAssets r)) (\<lambda>_. ret True))))"

section \<open>The comparison on well-formed readings\<close>

text \<open>On finite values Go's float comparison is equality, so the field-wise comparison is too.\<close>

lemma f64_eq_right [simp]: "finite64 w \<Longrightarrow> f64_eq v w \<longleftrightarrow> v = w"
  by (auto simp: f64_eq_def)

lemma equalOptional_eq [simp]: "equalOptional (=) a b \<longleftrightarrow> a = b"
  by (auto simp: equalOptional_def split: option.splits)

lemma equalOptional_f64:
  "(\<And>x. b = Some x \<Longrightarrow> finite64 x) \<Longrightarrow> equalOptional f64_eq a b \<longleftrightarrow> a = b"
  by (auto simp: equalOptional_def split: option.splits)

lemma storageEqual_ok: "storage_reading_ok y \<Longrightarrow> storageEqual x y \<longleftrightarrow> x = y"
  by (cases x; cases y) (auto simp: storageEqual_def storage_reading_ok_def)

lemma list_all2_storageEqual:
  "list_all storage_reading_ok ys \<Longrightarrow> list_all2 storageEqual xs ys \<longleftrightarrow> xs = ys"
  by (induction ys arbitrary: xs) (auto simp: list_all2_Cons2 storageEqual_ok)

lemma sortedAssets_ok [simp]:
  "list_all storage_reading_ok (sortedAssets xs) \<longleftrightarrow> list_all storage_reading_ok xs"
  by (simp add: sortedAssets_def list_all_iff)

lemma length_sortedAssets [simp]: "length (sortedAssets xs) = length xs"
  by (simp add: sortedAssets_def)

lemma readingsEqual_stored:
  assumes "reading_ok r" and "meter_pk row = meter_pk (meter_row_of r)"
  shows "readingsEqual (stored_reading r row rows) r \<longleftrightarrow>
    row = meter_row_of r \<and>
    sortedAssets (map storage_of_row rows) = sortedAssets (mr_StorageAssets r)"
proof -
  have opt: "equalOptional f64_eq x (mr_WeatherIrradianceWm2 r) \<longleftrightarrow> x = mr_WeatherIrradianceWm2 r"
    "equalOptional f64_eq x (mr_CloudCoverPct r) \<longleftrightarrow> x = mr_CloudCoverPct r" for x
    using assms(1) by (auto intro!: equalOptional_f64 simp: reading_ok_def nonneg_opt_def
        percent_opt_def)
  have fin: "finite64 (mr_SolarKw r)" "finite64 (mr_ConsumptionKw r)" "finite64 (mr_NetKw r)"
    and assets: "list_all storage_reading_ok (mr_StorageAssets r)"
    using assms(1) by (auto simp: reading_ok_def)
  have len: "length xs = length ys" if "sortedAssets xs = sortedAssets ys" for xs ys
    using that by (metis length_sortedAssets)
  have "readingsEqual (stored_reading r row rows) r \<longleftrightarrow>
      (m_house_id row = mr_HouseID r \<and> m_grid_id row = mr_GridID r \<and>
       m_device_class row = mr_DeviceClass r \<and> m_schema_version row = mr_SchemaVersion r \<and>
       m_solar_kw row = mr_SolarKw r \<and> m_consumption_kw row = mr_ConsumptionKw r \<and>
       m_net_kw row = mr_NetKw r \<and> m_weather_irradiance_wm2 row = mr_WeatherIrradianceWm2 r \<and>
       m_cloud_cover_pct row = mr_CloudCoverPct r) \<and>
      sortedAssets (map storage_of_row rows) = sortedAssets (mr_StorageAssets r)"
    using fin assets
    by (auto simp: readingsEqual_def stored_reading_def opt list_all2_storageEqual dest: len)
  also have "(m_house_id row = mr_HouseID r \<and> m_grid_id row = mr_GridID r \<and>
       m_device_class row = mr_DeviceClass r \<and> m_schema_version row = mr_SchemaVersion r \<and>
       m_solar_kw row = mr_SolarKw r \<and> m_consumption_kw row = mr_ConsumptionKw r \<and>
       m_net_kw row = mr_NetKw r \<and> m_weather_irradiance_wm2 row = mr_WeatherIrradianceWm2 r \<and>
       m_cloud_cover_pct row = mr_CloudCoverPct r) \<longleftrightarrow> row = meter_row_of r"
    using assms(2) by (cases row) (auto simp: meter_row_of_def meter_pk_def)
  finally show ?thesis .
qed

text \<open>Two lists with distinct asset identifiers sort to the same list exactly when they hold the
  same assets.\<close>

lemma sortedAssets_eq_iff:
  assumes "distinct (map sr_AssetID xs)" and "distinct (map sr_AssetID ys)"
  shows "sortedAssets xs = sortedAssets ys \<longleftrightarrow> set xs = set ys"
proof
  assume "sortedAssets xs = sortedAssets ys"
  then show "set xs = set ys" by (metis set_sort sortedAssets_def)
next
  assume s: "set xs = set ys"
  have d: "distinct (map sr_AssetID (sortedAssets zs))" if "distinct (map sr_AssetID zs)" for zs
    using that by (auto simp: sortedAssets_def distinct_map)
  have "map sr_AssetID (sortedAssets xs) = map sr_AssetID (sortedAssets ys)"
    using assms s by (intro sorted_distinct_set_unique d) (simp_all add: sortedAssets_def)
  moreover have "inj_on sr_AssetID (set (sortedAssets xs) \<union> set (sortedAssets ys))"
    using assms(1) s by (simp add: sortedAssets_def distinct_map)
  ultimately show "sortedAssets xs = sortedAssets ys" by (rule map_inj_on)
qed


section \<open>What the transaction does\<close>

text \<open>The tables with a reading and its storage rows appended.\<close>

definition record_reading :: "MeterReading \<Rightarrow> tables \<Rightarrow> tables" where
  "record_reading r T =
     T\<lparr>t_meter_readings := t_meter_readings T @ [meter_row_of r],
       t_storage_readings := t_storage_readings T @ map (storage_row_of r) (mr_StorageAssets r)\<rparr>"

definition reading_recorded :: "MeterReading \<Rightarrow> tables \<Rightarrow> bool" where
  "reading_recorded r T \<longleftrightarrow> meter_pk (meter_row_of r) \<in> meter_pk ` set (t_meter_readings T)"

definition storage_at :: "MeterReading \<Rightarrow> tables \<Rightarrow> storage_row list" where
  "storage_at r T =
     filter (\<lambda>s. s_time s = mr_EventTime r \<and> s_meter_id s = mr_MeterID r) (t_storage_readings T)"

definition storage_unique :: "tables \<Rightarrow> bool" where
  "storage_unique T \<longleftrightarrow> distinct (map storage_pk (t_storage_readings T))"

lemma storage_unique_update [simp]:
  "storage_unique (T\<lparr>t_meter_readings := xs\<rparr>) = storage_unique T"
  by (simp add: storage_unique_def)

lemma storage_insert_Inr:
  "insertStorageReadingSQL row now T = (Inr n, T') \<longleftrightarrow>
     storage_checks row \<and> storage_pk row \<notin> storage_pk ` set (t_storage_readings T) \<and> n = 1 \<and>
     T' = T\<lparr>t_storage_readings := t_storage_readings T @ [row]\<rparr>"
  by (auto simp: insertStorageReadingSQL_def split: if_splits)

lemma insertStorageAssets_Inr:
  "insertStorageAssets r as p = (Inr u, p') \<Longrightarrow>
     pg_tables p' = (pg_tables p)\<lparr>t_storage_readings :=
       t_storage_readings (pg_tables p) @ map (storage_row_of r) as\<rparr> \<and>
     (storage_unique (pg_tables p) \<longrightarrow>
      storage_unique (pg_tables p'))"
proof (induction r as arbitrary: p rule: insertStorageAssets.induct)
  case (2 r a as)
  then obtain n p1 where
      q: "stmt (insertStorageReadingSQL (storage_row_of r a)) p = (Inr n, p1)" and
      rest: "insertStorageAssets r as p1 = (Inr u, p')"
    by (auto simp: inversion)
  note ins = stmt_Inr(1) [OF q, unfolded storage_insert_Inr]
  then have "storage_unique (pg_tables p) \<longrightarrow>
      storage_unique (pg_tables p1)"
    by (simp add: storage_unique_def)
  moreover note 2(1) [OF rest]
  ultimately show ?case using ins by auto
qed auto

lemma meter_insert_Inr:
  "insertMeterReadingSQL row now T = (Inr n, T') \<longleftrightarrow> meter_checks row \<and>
     (if meter_pk row \<in> meter_pk ` set (t_meter_readings T) then n = 0 \<and> T' = T
      else n = 1 \<and> T' = T\<lparr>t_meter_readings := t_meter_readings T @ [row]\<rparr>)"
  by (auto simp: insertMeterReadingSQL_def split: if_splits)

lemma verifyReplay_Inr:
  assumes "verifyReplay r p = (Inr u, p')"
  shows "pg_tables p' = pg_tables p"
    and "\<exists>row. row \<in> set (t_meter_readings (pg_tables p)) \<and> meter_pk row = meter_pk (meter_row_of r) \<and>
           readingsEqual (stored_reading r row (sort_key s_asset_id (storage_at r (pg_tables p)))) r"
  using assms
  by (auto simp: verifyReplay_def inversion selectMeterReadingSQL_def selectStorageReadingsSQL_def
      storage_at_def meter_row_of_def meter_pk_def split: if_splits option.splits
      dest!: stmt_InrD find_Some_in)

text \<open>A body that commits has appended the reading to a history that did not hold its key, or has
  changed nothing because the history already holds an equal one.\<close>

lemma insert_body_Inr:
  assumes "andThen (onSql (sqlErrorf ''insert meter reading: '')
             (stmt (insertMeterReadingSQL (meter_row_of r)))) (\<lambda>affected.
           if affected = 0 then andThen (verifyReplay r) (\<lambda>_. ret False)
           else andThen (insertStorageAssets r (mr_StorageAssets r)) (\<lambda>_. ret True)) p = (Inr b, p')"
  obtains (new) "b" "\<not> reading_recorded r (pg_tables p)"
      "pg_tables p' = record_reading r (pg_tables p)"
      "storage_unique (pg_tables p) \<Longrightarrow>
       storage_unique (pg_tables p')"
  | (replay) row where "\<not> b" "pg_tables p' = pg_tables p"
      "row \<in> set (t_meter_readings (pg_tables p))" "meter_pk row = meter_pk (meter_row_of r)"
      "readingsEqual (stored_reading r row (sort_key s_asset_id (storage_at r (pg_tables p)))) r"
proof -
  from assms obtain n p1 where q: "stmt (insertMeterReadingSQL (meter_row_of r)) p = (Inr n, p1)"
    and k: "(if n = 0 then andThen (verifyReplay r) (\<lambda>_. ret False)
             else andThen (insertStorageAssets r (mr_StorageAssets r)) (\<lambda>_. ret True)) p1 = (Inr b, p')"
    by (auto simp: inversion)
  note ins = stmt_Inr(1) [OF q, unfolded meter_insert_Inr]
  show thesis
  proof (cases "n = 0")
    case True
    with ins have same: "pg_tables p1 = pg_tables p" by (auto split: if_splits)
    from True k have "verifyReplay r p1 = (Inr (), p')" "\<not> b" by (auto simp: inversion)
    from verifyReplay_Inr [OF this(1)] this(2) show thesis by (auto simp: same intro: replay)
  next
    case False
    with ins have T1: "pg_tables p1 = (pg_tables p)\<lparr>t_meter_readings :=
        t_meter_readings (pg_tables p) @ [meter_row_of r]\<rparr>" "\<not> reading_recorded r (pg_tables p)"
      by (auto simp: reading_recorded_def split: if_splits)
    from False k have st: "insertStorageAssets r (mr_StorageAssets r) p1 = (Inr (), p')" and "b"
      by (auto simp: inversion)
    with insertStorageAssets_Inr [OF st] T1 show thesis
      by (intro new) (auto simp: record_reading_def)
  qed
qed

lemma tables_ok_record_reading:
  "tables_ok T \<Longrightarrow> \<not> reading_recorded r T \<Longrightarrow>
   storage_unique (record_reading r T) \<Longrightarrow>
   tables_ok (record_reading r T)"
  by (auto simp: tables_ok_def record_reading_def reading_recorded_def storage_unique_def)

text \<open>Every outcome of the whole method, whatever the connection does.\<close>

lemma InsertMeterReading_cases:
  assumes "InsertMeterReading r0 p = (res, p')"
  obtains (unchanged) "res \<noteq> Inr True" "pg_tables p' = pg_tables p"
  | (recorded) "res = Inr True \<or> (\<exists>i. res = Inl (infra_error i))"
      "\<not> reading_recorded (normalize r0) (pg_tables p)"
      "pg_tables p' = record_reading (normalize r0) (pg_tables p)"
      "storage_unique (pg_tables p) \<Longrightarrow>
       storage_unique (pg_tables p')"
  using assms unfolding InsertMeterReading_def Let_def
proof (cases rule: BeginFunc_atomic)
  case (rolled_back e)
  then show thesis by (intro unchanged) auto
next
  case (committed fs q b)
  from committed(1) show thesis
  proof (cases rule: insert_body_Inr)
    case new
    with committed(2,3) show thesis by (intro recorded) auto
  next
    case (replay row)
    with committed(2,3) show thesis by (intro unchanged) auto
  qed
qed

section \<open>The method on a server that does not fail\<close>

text \<open>The decoder's promises imply the table constraints, so a decoded reading is never refused by a
  \<^verbatim>\<open>CHECK\<close>.\<close>

lemma identity_nonempty:
  "identity_ok g h m c \<Longrightarrow> g \<noteq> [] \<and> h \<noteq> [] \<and> m \<noteq> []"
  by (auto simp: identity_ok_def grid_id_ok_def house_id_ok_def)

lemma asset_id_nonempty: "asset_id_ok a \<Longrightarrow> a \<noteq> []"
  by (auto simp: asset_id_ok_def)

lemma reading_ok_meter_checks: "reading_ok r \<Longrightarrow> meter_checks (meter_row_of r)"
  by (auto simp: reading_ok_def meter_checks_def meter_row_of_def identity_ok_def device_class_ok_def
      nonneg_opt_def percent_opt_def pg_between_def enum_defs finite64_iff
      dest: identity_nonempty split: option.splits simp: grid_id_ok_def house_id_ok_def)

lemma reading_ok_storage_checks:
  "reading_ok r \<Longrightarrow> a \<in> set (mr_StorageAssets r) \<Longrightarrow> storage_checks (storage_row_of r a)"
  by (auto simp: reading_ok_def storage_checks_def storage_row_of_def list_all_iff
      storage_reading_ok_def asset_type_ok_def pg_between_def enum_defs
      dest!: identity_nonempty dest: asset_id_nonempty)

lemma reading_ok_normalize [simp]: "reading_ok (normalize r) = reading_ok r"
  by (simp add: reading_ok_def normalize_def)

lemma normalize_fields [simp]:
  "mr_StorageAssets (normalize r) = mr_StorageAssets r" "mr_MeterID (normalize r) = mr_MeterID r"
  "mr_Seq (normalize r) = mr_Seq r" "normalize (normalize r) = normalize r"
  by (simp_all add: normalize_def)

text \<open>The storage keys of a reading that are already taken.\<close>

definition storage_clash :: "MeterReading \<Rightarrow> StorageAssetReading list \<Rightarrow> tables \<Rightarrow> bool" where
  "storage_clash r as T \<longleftrightarrow>
     (\<exists>a \<in> set as. storage_pk (storage_row_of r a) \<in> storage_pk ` set (t_storage_readings T))"

lemma storage_pk_inj: "storage_pk (storage_row_of r a) = storage_pk (storage_row_of r b) \<longleftrightarrow>
    sr_AssetID a = sr_AssetID b"
  by (simp add: storage_pk_def storage_row_of_def)

lemma insertStorageAssets_quiet:
  "pg_quiet p \<Longrightarrow> \<forall>a \<in> set as. storage_checks (storage_row_of r a) \<Longrightarrow>
   distinct (map sr_AssetID as) \<Longrightarrow>
   if storage_clash r as (pg_tables p)
   then \<exists>e p'. errors_Is e ErrIntegrityConflict \<and> insertStorageAssets r as p = (Inl e, p') \<and>
      pg_quiet p' \<and> pg_clock p' = pg_clock p
   else insertStorageAssets r as p = (Inr (), p\<lparr>pg_tables := (pg_tables p)\<lparr>t_storage_readings :=
         t_storage_readings (pg_tables p) @ map (storage_row_of r) as\<rparr>\<rparr>)"
proof (induction as arbitrary: p)
  case (Cons a as)
  let ?row = "storage_row_of r a" and ?T = "pg_tables p"
  let ?p1 = "p\<lparr>pg_tables := ?T\<lparr>t_storage_readings := t_storage_readings ?T @ [?row]\<rparr>\<rparr>"
  have clash: "storage_clash r (a # as) ?T \<longleftrightarrow>
      storage_pk ?row \<in> storage_pk ` set (t_storage_readings ?T) \<or> storage_clash r as ?T"
    by (auto simp: storage_clash_def)
  show ?case
  proof (cases "storage_pk ?row \<in> storage_pk ` set (t_storage_readings ?T)")
    case True
    with Cons.prems have "onSql (storage_error r a) (stmt (insertStorageReadingSQL ?row)) p =
        (Inl (storage_error r a (PgError pgUniqueViolation
           ''duplicate key value violates unique constraint'')), p)"
      by (simp add: onSql_stmt_quiet insertStorageReadingSQL_def)
    with True Cons.prems show ?thesis
      by (simp add: clash andThen_eqs(2) storage_error_def)
  next
    case False
    with Cons.prems have "onSql g (stmt (insertStorageReadingSQL ?row)) p = (Inr 1, ?p1)" for g
      by (simp add: onSql_stmt_quiet insertStorageReadingSQL_def)
    then have step: "insertStorageAssets r (a # as) p = insertStorageAssets r as ?p1"
      by (simp add: andThen_eqs(1))
    have "storage_clash r as (pg_tables ?p1) = storage_clash r as ?T"
      using Cons.prems by (simp add: storage_clash_def storage_pk_inj) (metis image_eqI)
    with Cons.IH [of ?p1] Cons.prems False show ?thesis
      unfolding step clash by (auto split: if_split_asm)
  qed
qed (simp add: storage_clash_def)

text \<open>The stored rows of a (time, meter) pair as assets; what a replay is compared with.\<close>

definition same_reading :: "MeterReading \<Rightarrow> tables \<Rightarrow> bool" where
  "same_reading r T \<longleftrightarrow>
     meter_row_of r \<in> set (t_meter_readings T) \<and>
     storage_of_row ` set (storage_at r T) = set (mr_StorageAssets r)"

lemma storage_at_distinct:
  assumes "storage_unique T"
  shows "distinct (map sr_AssetID (map storage_of_row (sort_key s_asset_id (storage_at r T))))"
proof -
  have "distinct (map storage_pk (storage_at r T))"
    using assms by (simp add: storage_unique_def storage_at_def distinct_map inj_on_filter_key_eq
        inj_on_def)
  then have "inj_on s_asset_id (set (storage_at r T))" "distinct (storage_at r T)"
    by (auto simp: distinct_map inj_on_def storage_at_def storage_pk_def)
  then show ?thesis
    by (simp add: distinct_map storage_of_row_def comp_def inj_on_def)
qed

lemma verifyReplay_quiet:
  assumes "pg_quiet p" "tables_ok (pg_tables p)" "reading_ok r" "reading_recorded r (pg_tables p)"
  shows "verifyReplay r p =
    (if same_reading r (pg_tables p) then (Inr (), p) else (Inl (replay_conflict r), p))"
proof -
  let ?T = "pg_tables p"
  from assms(4) obtain row where row: "row \<in> set (t_meter_readings ?T)"
      "meter_pk row = meter_pk (meter_row_of r)"
    by (auto simp: reading_recorded_def)
  have pk: "meter_pk (meter_row_of r) = (mr_EventTime r, mr_MeterID r, mr_Seq r)"
    by (simp add: meter_pk_def meter_row_of_def)
  have d: "distinct (map meter_pk (t_meter_readings ?T))" "storage_unique ?T"
    using assms(2) by (auto simp: tables_ok_def storage_unique_def)
  have found: "find (\<lambda>x. meter_pk x = (mr_EventTime r, mr_MeterID r, mr_Seq r))
      (t_meter_readings ?T) = Some row"
    using find_distinct_key [OF d(1) row(1)] by (simp add: row(2) pk)
  have "row = meter_row_of r \<longleftrightarrow> meter_row_of r \<in> set (t_meter_readings ?T)"
    using distinct_key_eq [OF d(1) _ row(1)] row by metis
  moreover have "distinct (map sr_AssetID (mr_StorageAssets r))"
    using assms(3) by (simp add: reading_ok_def)
  ultimately have "readingsEqual (stored_reading r row (sort_key s_asset_id (storage_at r ?T))) r \<longleftrightarrow>
      same_reading r ?T"
    by (simp add: readingsEqual_stored [OF assms(3) row(2)] same_reading_def
        sortedAssets_eq_iff [OF storage_at_distinct [OF d(2)]])
  then show ?thesis
    using assms(1) found
    by (simp add: verifyReplay_def andThen_def onSql_stmt_quiet selectMeterReadingSQL_def
        selectStorageReadingsSQL_def storage_at_def [symmetric] split: if_splits)
qed

lemma InsertMeterReading_quiet:
  assumes "pg_quiet p" "tables_ok (pg_tables p)" "reading_ok r0"
  defines "r \<equiv> normalize r0" and "T \<equiv> pg_tables p"
  shows "\<exists>e. errors_Is e ErrIntegrityConflict \<and>
    InsertMeterReading r0 p =
      (if reading_recorded r T then
         if same_reading r T then (Inr False, p) else (Inl (replay_conflict r), p)
       else if storage_clash r (mr_StorageAssets r) T then (Inl e, p)
       else (Inr True, p\<lparr>pg_tables := record_reading r T\<rparr>))"
proof -
  have ok: "reading_ok r" using assms(3) by (simp add: r_def)
  let ?row = "meter_row_of r"
  let ?p1 = "p\<lparr>pg_tables := T\<lparr>t_meter_readings := t_meter_readings T @ [?row]\<rparr>\<rparr>"
  have ins: "onSql g (stmt (insertMeterReadingSQL ?row)) p =
      (if reading_recorded r T then (Inr 0, p) else (Inr 1, ?p1))" for g
    using assms(1) reading_ok_meter_checks [OF ok]
    by (simp add: onSql_stmt_quiet insertMeterReadingSQL_def reading_recorded_def T_def)
  show ?thesis
  proof (cases "reading_recorded r T")
    case True
    then have "InsertMeterReading r0 p =
        (if same_reading r T then (Inr False, p) else (Inl (replay_conflict r), p))"
      using assms(1) ins verifyReplay_quiet [OF assms(1,2) ok]
      by (simp add: InsertMeterReading_def r_def [symmetric] BeginFunc_def andThen_def T_def)
    with True show ?thesis
      by (intro exI [of _ "replay_conflict r"]) (simp add: replay_conflict_def)
  next
    case False
    have "storage_clash r as (pg_tables ?p1) = storage_clash r as T" for as
      by (simp add: storage_clash_def)
    moreover have "\<forall>a \<in> set (mr_StorageAssets r). storage_checks (storage_row_of r a)"
      "distinct (map sr_AssetID (mr_StorageAssets r))"
      using ok by (simp_all add: reading_ok_storage_checks) (simp add: reading_ok_def)
    moreover note insertStorageAssets_quiet [of ?p1 "mr_StorageAssets r" r]
    ultimately have st: "if storage_clash r (mr_StorageAssets r) T
      then \<exists>e p'. errors_Is e ErrIntegrityConflict \<and> insertStorageAssets r (mr_StorageAssets r) ?p1 = (Inl e, p')
        \<and> pg_quiet p' \<and> pg_clock p' = pg_clock p
      else insertStorageAssets r (mr_StorageAssets r) ?p1 =
        (Inr (), p\<lparr>pg_tables := record_reading r T\<rparr>)"
      using assms(1) by (auto simp: record_reading_def split: if_split_asm)
    show ?thesis
    proof (cases "storage_clash r (mr_StorageAssets r) T")
      case True
      with st obtain e p' where "errors_Is e ErrIntegrityConflict"
          "insertStorageAssets r (mr_StorageAssets r) ?p1 = (Inl e, p')" "pg_quiet p'" "pg_clock p' = pg_clock p"
        by auto
      with False ins assms(1) True show ?thesis
        by (intro exI [of _ e])
           (simp add: InsertMeterReading_def r_def [symmetric] BeginFunc_def andThen_def T_def)
    next
      case ok: False
      with False st ins assms(1) show ?thesis
        by (intro exI [of _ "replay_conflict r"])
           (simp add: InsertMeterReading_def r_def [symmetric] BeginFunc_def andThen_def T_def
              replay_conflict_def)
    qed
  qed
qed


section \<open>The history as an immutable log\<close>

lemma stored_when_successful:
  assumes "reading_ok r" "InsertMeterReading r p = (Inr b, p')"
  shows "meter_row_of (normalize r) \<in> set (t_meter_readings (pg_tables p'))"
proof -
  from assms(2) obtain fs q where body: "andThen (onSql (sqlErrorf ''insert meter reading: '')
           (stmt (insertMeterReadingSQL (meter_row_of (normalize r))))) (\<lambda>affected.
         if affected = 0 then andThen (verifyReplay (normalize r)) (\<lambda>_. ret False)
         else andThen (insertStorageAssets (normalize r) (mr_StorageAssets (normalize r)))
           (\<lambda>_. ret True)) (p\<lparr>pg_faults := fs\<rparr>) = (Inr b, q)"
    and q: "pg_tables p' = pg_tables q"
    unfolding InsertMeterReading_def Let_def by (elim BeginFunc_Inr)
  from body show ?thesis
  proof (cases rule: insert_body_Inr)
    case new
    then show ?thesis by (simp add: q record_reading_def)
  next
    case (replay row)
    with assms(1) readingsEqual_stored [of "normalize r" row] show ?thesis by (simp add: q)
  qed
qed

interpretation meter_log: immutable_log InsertMeterReading "\<lambda>p. t_meter_readings (pg_tables p)"
  "\<lambda>r. meter_row_of (normalize r)" meter_pk reading_ok
proof
  fix r p res p'
  assume "InsertMeterReading r p = (res, p')"
  then show "t_meter_readings (pg_tables p') = t_meter_readings (pg_tables p) \<and> res \<noteq> Inr True \<or>
      t_meter_readings (pg_tables p') = t_meter_readings (pg_tables p) @ [meter_row_of (normalize r)] \<and>
      meter_pk (meter_row_of (normalize r)) \<notin> meter_pk ` set (t_meter_readings (pg_tables p)) \<and>
      res \<noteq> Inr False"
    by (cases rule: InsertMeterReading_cases)
       (auto simp: record_reading_def reading_recorded_def)
qed (rule stored_when_successful)

lemma InsertMeterReading_tables_ok [invariants]:
  assumes "InsertMeterReading r p = (res, p')" "tables_ok (pg_tables p)"
  shows "tables_ok (pg_tables p')"
  using assms(1)
proof (cases rule: InsertMeterReading_cases)
  case recorded
  with assms(2) show ?thesis
    by (metis tables_ok_record_reading tables_ok_def storage_unique_def)
qed (use assms in simp)

lemma storage_of_storage_row [simp]: "storage_of_row (storage_row_of r a) = a"
  by (simp add: storage_of_row_def storage_row_of_def)

text \<open>A replay of a reading that was just recorded, when the instant held no other storage rows.\<close>

lemma record_reading_replay:
  assumes "storage_at r T = []"
  shows "reading_recorded r (record_reading r T)" "same_reading r (record_reading r T)"
proof -
  have "filter (\<lambda>s. s_time s = mr_EventTime r \<and> s_meter_id s = mr_MeterID r)
      (map (storage_row_of r) as) = map (storage_row_of r) as" for as
    by (induction as) (simp_all add: storage_row_of_def)
  with assms show "reading_recorded r (record_reading r T)" "same_reading r (record_reading r T)"
    by (simp_all add: reading_recorded_def same_reading_def record_reading_def storage_at_def
        image_image)
qed

lemma storage_clash_at: "storage_at r T = [] \<Longrightarrow> \<not> storage_clash r as T"
  by (force simp: storage_clash_def storage_at_def filter_empty_conv storage_pk_def storage_row_of_def)

section \<open>Properties\<close>

text \<open>
  C3.  Immutable-history semantics of the insert, on a server that answers: a reading whose key is
  new is recorded with its storage rows and reports true; a replay that agrees with the stored row and
  storage rows reports false and writes nothing; every other reading with a recorded key, or with a
  storage key that is already taken, is an integrity conflict and writes nothing.  A well-formed
  reading is never refused by a table constraint.
\<close>

theorem InsertMeterReading_outcome:
  assumes "reading_ok r" "tables_ok (pg_tables p)" "pg_quiet p"
  shows "case InsertMeterReading r p of
      (Inr True, q) \<Rightarrow> \<not> reading_recorded (normalize r) (pg_tables p) \<and>
         \<not> storage_clash (normalize r) (mr_StorageAssets r) (pg_tables p) \<and>
         q = p\<lparr>pg_tables := record_reading (normalize r) (pg_tables p)\<rparr>
    | (Inr False, q) \<Rightarrow> reading_recorded (normalize r) (pg_tables p) \<and>
         same_reading (normalize r) (pg_tables p) \<and> q = p
    | (Inl e, q) \<Rightarrow> errors_Is e ErrIntegrityConflict \<and> q = p \<and>
         (reading_recorded (normalize r) (pg_tables p) \<and>
            \<not> same_reading (normalize r) (pg_tables p) \<or>
          storage_clash (normalize r) (mr_StorageAssets r) (pg_tables p))"
  using InsertMeterReading_quiet [OF assms(3,2,1)]
  by (auto simp: replay_conflict_def split: if_split_asm)

theorem InsertMeterReading_outcome_witness:
  "InsertMeterReading (sample_reading ''b1'' 7) (quiet_pg empty_tables 0) =
     (Inr True, quiet_pg (record_reading (normalize (sample_reading ''b1'' 7)) empty_tables) 0)"
proof -
  let ?r = "sample_reading ''b1'' 7" and ?p = "quiet_pg empty_tables 0"
  have fresh: "\<not> reading_recorded (normalize ?r) empty_tables"
    "\<not> storage_clash (normalize ?r) (mr_StorageAssets ?r) empty_tables"
    by (simp_all add: reading_recorded_def storage_clash_def empty_tables_def)
  from InsertMeterReading_outcome [of ?r ?p]
  have "case InsertMeterReading ?r ?p of
      (Inr True, q) \<Rightarrow> q = ?p\<lparr>pg_tables := record_reading (normalize ?r) empty_tables\<rparr>
    | (Inr False, q) \<Rightarrow> False | (Inl e, q) \<Rightarrow> False"
    using fresh by (auto simp: sample_reading_ok sample_asset_ids sample_tables_ok
        split: prod.splits sum.splits bool.splits)
  then show ?thesis
    by (auto simp: quiet_pg_def split: prod.splits sum.splits bool.splits)
qed

text \<open>
  C4.  At-least-once delivery records each reading once.  For every sequence of readings handed to
  the insert, with replays and conflicting duplicates in any order and with any schedule of connection
  failures and lost commit acknowledgements: the old history is a prefix of the new one, what is added
  is the rows of some of the readings in their order, the key stays unique, and every well-formed
  reading whose insert reported success is in the history with exactly its values.
\<close>

theorem delivered_readings_recorded_once:
  assumes "distinct (map meter_pk (t_meter_readings (pg_tables p)))"
  shows "case deliver InsertMeterReading rs p of (out, q) \<Rightarrow>
     prefix (t_meter_readings (pg_tables p)) (t_meter_readings (pg_tables q)) \<and>
     (\<exists>sel. subseq sel rs \<and> t_meter_readings (pg_tables q) =
        t_meter_readings (pg_tables p) @ map (\<lambda>r. meter_row_of (normalize r)) sel) \<and>
     distinct (map meter_pk (t_meter_readings (pg_tables q))) \<and>
     list_all2 (\<lambda>r res. reading_ok r \<and> \<not> isl res \<longrightarrow>
        meter_row_of (normalize r) \<in> set (t_meter_readings (pg_tables q))) rs out"
  using assms
  by (auto split: prod.splits dest: meter_log.deliver_append_only meter_log.deliver_unique
      meter_log.deliver_effect meter_log.deliver_success)

theorem delivered_readings_recorded_once_witness:
  "distinct (map meter_pk (t_meter_readings (pg_tables (snd (deliver InsertMeterReading
     [sample_reading ''b1'' 7, sample_reading ''b1'' 7, sample_reading ''b2'' 8]
     \<lparr>pg_tables = empty_tables, pg_faults = [Succeed, Succeed, Succeed, Lost CtxDeadline],
      pg_clock = 0\<rparr>)))))"
  using delivered_readings_recorded_once
    [of "\<lparr>pg_tables = empty_tables, pg_faults = [Succeed, Succeed, Succeed, Lost CtxDeadline],
          pg_clock = 0\<rparr>" "[sample_reading ''b1'' 7, sample_reading ''b1'' 7, sample_reading ''b2'' 8]"]
  by (simp add: empty_tables_def case_prod_beta)

text \<open>
  Retrying is safe.  When an attempt failed, for whatever reason and at whatever point, a retry on
  a server that answers succeeds and leaves the tables exactly as one undisturbed attempt would have,
  provided the meter had no storage rows at that instant: the failed attempt left nothing or
  everything, never a reading without its storage rows.
\<close>

theorem InsertMeterReading_retry:
  assumes "reading_ok r" "tables_ok (pg_tables p)"
    and "\<not> reading_recorded (normalize r) (pg_tables p)" "storage_at (normalize r) (pg_tables p) = []"
    and "InsertMeterReading r p = (Inl e, q)"
  shows "\<exists>b. InsertMeterReading r (q\<lparr>pg_faults := []\<rparr>) =
     (Inr b, q\<lparr>pg_faults := [], pg_tables := record_reading (normalize r) (pg_tables p)\<rparr>)"
  using assms(5)
proof (cases rule: InsertMeterReading_cases)
  case unchanged
  with InsertMeterReading_quiet [of "q\<lparr>pg_faults := []\<rparr>" r] assms storage_clash_at
  show ?thesis by (intro exI [of _ True]) auto
next
  case recorded
  moreover have "tables_ok (pg_tables q)"
    using assms(2,5) by (rule InsertMeterReading_tables_ok [rotated])
  ultimately have "InsertMeterReading r (q\<lparr>pg_faults := []\<rparr>) = (Inr False, q\<lparr>pg_faults := []\<rparr>)"
    using InsertMeterReading_quiet [of "q\<lparr>pg_faults := []\<rparr>" r] assms(1)
      record_reading_replay [OF assms(4)] by auto
  with recorded show ?thesis by (intro exI [of _ False]) (cases q; simp)
qed

theorem InsertMeterReading_retry_witness:
  "\<exists>b. InsertMeterReading (sample_reading ''b1'' 7) (quiet_pg empty_tables 0) =
     (Inr b, quiet_pg (record_reading (normalize (sample_reading ''b1'' 7)) empty_tables) 0)"
proof -
  let ?p = "\<lparr>pg_tables = empty_tables, pg_faults = [Fail CtxDeadline], pg_clock = 0\<rparr>"
  have "InsertMeterReading (sample_reading ''b1'' 7) ?p =
      (Inl (infra_error CtxDeadline), quiet_pg empty_tables 0)"
    by (simp add: InsertMeterReading_def Let_def BeginFunc_def quiet_pg_def)
  from InsertMeterReading_retry [OF _ _ _ _ this] show ?thesis
    by (simp add: sample_reading_ok sample_asset_ids sample_tables_ok quiet_pg_def)
       (simp add: empty_tables_def reading_recorded_def storage_at_def)
qed

text \<open>
  The comparison of a replay ignores the sequence number when it loads the stored storage rows.
  Two readings of one meter at one instant that differ in their sequence number and report different
  assets are both accepted, and from then on the exact replay of the first one is rejected as an
  integrity conflict, although it is identical to what was recorded.
\<close>

theorem replay_conflicts_with_sibling:
  assumes "reading_ok r1" "reading_ok r2" "tables_ok (pg_tables p)" "pg_quiet p"
    and "mr_EventTime r1 = mr_EventTime r2" "mr_MeterID r1 = mr_MeterID r2"
    and "a \<in> set (mr_StorageAssets r2)" "a \<notin> set (mr_StorageAssets r1)"
    and "InsertMeterReading r1 p = (Inr True, p1)" "InsertMeterReading r2 p1 = (Inr True, p2)"
  shows "meter_row_of (normalize r1) \<in> set (t_meter_readings (pg_tables p2)) \<and>
     (\<exists>e. InsertMeterReading r1 p2 = (Inl e, p2) \<and> errors_Is e ErrIntegrityConflict)"
proof -
  have ok1: "tables_ok (pg_tables p1)" using assms(9,3) by (rule InsertMeterReading_tables_ok)
  then have ok2: "tables_ok (pg_tables p2)" using assms(10) by (auto intro: InsertMeterReading_tables_ok)
  from InsertMeterReading_quiet [OF assms(4,3,1)] assms(9)
  have p1: "p1 = p\<lparr>pg_tables := record_reading (normalize r1) (pg_tables p)\<rparr>"
    by (auto split: if_splits)
  from InsertMeterReading_quiet [OF _ ok1 assms(2)] assms(4,10) p1
  have p2: "p2 = p1\<lparr>pg_tables := record_reading (normalize r2) (pg_tables p1)\<rparr>"
    by (auto split: if_splits)
  have row: "meter_row_of (normalize r1) \<in> set (t_meter_readings (pg_tables p2))"
    by (simp add: p2 p1 record_reading_def)
  have "a \<in> storage_of_row ` set (storage_at (normalize r1) (pg_tables p2))"
    using assms(5,6,7)
    by (intro image_eqI [of _ _ "storage_row_of (normalize r2) a"])
       (simp_all add: p2 storage_at_def record_reading_def normalize_def,
        simp add: storage_row_of_def)
  with assms(8) have "\<not> same_reading (normalize r1) (pg_tables p2)"
    by (auto simp: same_reading_def)
  moreover have "reading_recorded (normalize r1) (pg_tables p2)"
    using row by (auto simp: reading_recorded_def)
  ultimately show ?thesis
    using InsertMeterReading_quiet [OF _ ok2 assms(1)] assms(4) row
    by (auto simp: p2 p1 replay_conflict_def)
qed

theorem replay_conflicts_with_sibling_witness:
  "\<exists>p1 p2 e. InsertMeterReading (sample_reading ''b1'' 7) (quiet_pg empty_tables 0) = (Inr True, p1) \<and>
     InsertMeterReading (sample_reading ''b2'' 8) p1 = (Inr True, p2) \<and>
     InsertMeterReading (sample_reading ''b1'' 7) p2 = (Inl e, p2) \<and>
     errors_Is e ErrIntegrityConflict"
proof -
  let ?r1 = "sample_reading ''b1'' 7" and ?r2 = "sample_reading ''b2'' 8"
  let ?T1 = "record_reading (normalize ?r1) empty_tables"
  have ok: "reading_ok ?r1" "reading_ok ?r2" by (simp_all add: sample_reading_ok sample_asset_ids)
  have 1: "InsertMeterReading ?r1 (quiet_pg empty_tables 0) = (Inr True, quiet_pg ?T1 0)"
    using InsertMeterReading_quiet [of "quiet_pg empty_tables 0" ?r1] ok sample_tables_ok
    by (auto simp: reading_recorded_def storage_clash_def empty_tables_def quiet_pg_def
        split: if_splits)
  have T1: "tables_ok ?T1" using InsertMeterReading_tables_ok [OF 1] sample_tables_ok by simp
  have "\<not> reading_recorded (normalize ?r2) ?T1"
    "\<not> storage_clash (normalize ?r2) (mr_StorageAssets ?r2) ?T1"
    by (simp_all add: reading_recorded_def storage_clash_def record_reading_def empty_tables_def
        meter_pk_def meter_row_of_def normalize_def sample_reading_def sample_storage_def
        storage_pk_def storage_row_of_def)
  with InsertMeterReading_quiet [of "quiet_pg ?T1 0" ?r2] ok T1
  have 2: "InsertMeterReading ?r2 (quiet_pg ?T1 0) =
      (Inr True, (quiet_pg ?T1 0)\<lparr>pg_tables := record_reading (normalize ?r2) ?T1\<rparr>)"
    by auto
  from replay_conflicts_with_sibling [OF ok _ _ _ _ _ _ 1 2, of "sample_storage ''b2''"]
  show ?thesis
    using 1 2 sample_tables_ok by (auto simp: sample_reading_def sample_storage_def)
qed

end
