(* ===== verification/HeartbeatStore.thy ===== *)
theory HeartbeatStore
  imports TelemetryStore
begin

text \<open>
  \<^verbatim>\<open>internal/store/postgres/heartbeat_writer.go\<close>: the database half of the heartbeat workflow.  A
  heartbeat refreshes the liveness of a registered house and the capabilities of its assets, and may
  record an unregistered asset as an observation; it never registers anything.
\<close>

section \<open>The statements\<close>

text \<open>\<^verbatim>\<open>CHECK\<close> constraints of \<^verbatim>\<open>flexible_assets\<close> and \<^verbatim>\<open>discovered_assets\<close>, which are the same.\<close>

definition asset_checks :: "assets_row \<Rightarrow> bool" where
  "asset_checks r \<longleftrightarrow>
     a_asset_type r \<in> {''bess'', ''ev''} \<and> pg_lt (Fin 0) (a_capacity_kwh r) \<and>
     pg_le (Fin 0) (a_max_charge_kw r) \<and> pg_le (Fin 0) (a_max_discharge_kw r) \<and>
     (a_v2g_capable r = None \<or> a_asset_type r = ''ev'') \<and> a_asset_id r \<noteq> ''''"

definition house_matches :: "string \<Rightarrow> string \<Rightarrow> string \<Rightarrow> houses_row \<Rightarrow> bool" where
  "house_matches house grid meter h \<longleftrightarrow>
     h_house_id h = house \<and> h_grid_id h = grid \<and> h_meter_id h = Some meter"

definition touchHouseSQL ::
    "string \<Rightarrow> string \<Rightarrow> string \<Rightarrow> int \<Rightarrow> int \<Rightarrow> tables \<Rightarrow> (sql_error + string) \<times> tables" where
  "touchHouseSQL house grid meter seen now T =
     (case find (house_matches house grid meter) (t_houses T) of
        None \<Rightarrow> (Inl NoRows, T)
      | Some h \<Rightarrow>
          (Inr (h_house_id h),
           T\<lparr>t_houses := update_where (house_matches house grid meter)
                (\<lambda>h. h\<lparr>h_last_heartbeat_at := max (h_last_heartbeat_at h) seen\<rparr>) (t_houses T)\<rparr>))"

definition selectHouseIdentitySQL ::
    "string \<Rightarrow> int \<Rightarrow> tables \<Rightarrow> (sql_error + string \<times> string option) \<times> tables" where
  "selectHouseIdentitySQL house now T =
     (case find (\<lambda>h. h_house_id h = house) (t_houses T) of
        None \<Rightarrow> (Inl NoRows, T) | Some h \<Rightarrow> (Inr (h_grid_id h, h_meter_id h), T))"

definition selectRegisteredAssetsSQL ::
    "string list \<Rightarrow> int \<Rightarrow> tables \<Rightarrow> (sql_error + assets_row list) \<times> tables" where
  "selectRegisteredAssetsSQL ids now T =
     (Inr (filter (\<lambda>r. a_asset_id r \<in> set ids) (t_flexible_assets T)), T)"

definition selectDiscoveredAssetsSQL ::
    "string list \<Rightarrow> int \<Rightarrow> tables \<Rightarrow> (sql_error + assets_row list) \<times> tables" where
  "selectDiscoveredAssetsSQL ids now T =
     (Inr (filter (\<lambda>r. a_asset_id r \<in> set ids) (t_discovered_assets T)), T)"

definition refresh :: "FlexibleAsset \<Rightarrow> int \<Rightarrow> assets_row \<Rightarrow> assets_row" where
  "refresh a seen r =
     r\<lparr>a_capacity_kwh := fa_CapacityKwh a, a_max_charge_kw := fa_MaxChargeKw a,
       a_max_discharge_kw := fa_MaxDischargeKw a, a_v2g_capable := fa_V2GCapable a,
       a_last_seen_at := max (a_last_seen_at r) seen\<rparr>"

definition refresh_rows :: "FlexibleAsset \<Rightarrow> int \<Rightarrow> assets_row list \<Rightarrow> sql_error + assets_row list" where
  "refresh_rows a seen rows =
     (let rows' = update_where (\<lambda>r. a_asset_id r = fa_AssetID a) (refresh a seen) rows in
      if list_all (\<lambda>r. a_asset_id r = fa_AssetID a \<longrightarrow> asset_checks r) rows' then Inr rows'
      else Inl (PgError pgCheckViolation ''new row violates check constraint''))"

definition updateRegisteredAssetSQL ::
    "FlexibleAsset \<Rightarrow> int \<Rightarrow> int \<Rightarrow> tables \<Rightarrow> (sql_error + unit) \<times> tables" where
  "updateRegisteredAssetSQL a seen now T =
     (case refresh_rows a seen (t_flexible_assets T) of
        Inl e \<Rightarrow> (Inl e, T) | Inr rows \<Rightarrow> (Inr (), T\<lparr>t_flexible_assets := rows\<rparr>))"

definition updateDiscoveredAssetSQL ::
    "FlexibleAsset \<Rightarrow> int \<Rightarrow> int \<Rightarrow> tables \<Rightarrow> (sql_error + unit) \<times> tables" where
  "updateDiscoveredAssetSQL a seen now T =
     (case refresh_rows a seen (t_discovered_assets T) of
        Inl e \<Rightarrow> (Inl e, T) | Inr rows \<Rightarrow> (Inr (), T\<lparr>t_discovered_assets := rows\<rparr>))"

definition asset_row_of :: "string \<Rightarrow> FlexibleAsset \<Rightarrow> int \<Rightarrow> assets_row" where
  "asset_row_of house a seen =
     \<lparr>a_asset_id = fa_AssetID a, a_house_id = house, a_asset_type = fa_AssetType a,
      a_capacity_kwh = fa_CapacityKwh a, a_max_charge_kw = fa_MaxChargeKw a,
      a_max_discharge_kw = fa_MaxDischargeKw a, a_v2g_capable = fa_V2GCapable a,
      a_first_seen_at = seen, a_last_seen_at = seen\<rparr>"

definition insertDiscoveredAssetSQL ::
    "assets_row \<Rightarrow> int \<Rightarrow> tables \<Rightarrow> (sql_error + nat) \<times> tables" where
  "insertDiscoveredAssetSQL row now T =
     (if \<not> asset_checks row
      then (Inl (PgError pgCheckViolation ''new row violates check constraint''), T)
      else if a_asset_id row \<in> a_asset_id ` set (t_discovered_assets T) then (Inr 0, T)
      else if a_house_id row \<notin> h_house_id ` set (t_houses T)
      then (Inl (PgError pgForeignKeyViolation ''insert violates foreign key constraint''), T)
      else (Inr 1, T\<lparr>t_discovered_assets := t_discovered_assets T @ [row]\<rparr>))"

section \<open>The methods\<close>

record storedAsset =
  sa_houseID :: string
  sa_asset :: FlexibleAsset

definition stored_of_row :: "assets_row \<Rightarrow> storedAsset" where
  "stored_of_row r =
     \<lparr>sa_houseID = a_house_id r,
      sa_asset = \<lparr>fa_AssetID = a_asset_id r, fa_AssetType = a_asset_type r,
                  fa_CapacityKwh = a_capacity_kwh r, fa_MaxChargeKw = a_max_charge_kw r,
                  fa_MaxDischargeKw = a_max_discharge_kw r, fa_V2GCapable = a_v2g_capable r\<rparr>\<rparr>"

record assetSource =
  src_relation :: string
  src_updateSQL :: "FlexibleAsset \<Rightarrow> int \<Rightarrow> int \<Rightarrow> tables \<Rightarrow> (sql_error + unit) \<times> tables"

definition registeredSource :: assetSource where
  "registeredSource =
     \<lparr>src_relation = ''registered to'', src_updateSQL = updateRegisteredAssetSQL\<rparr>"

definition discoveredSource :: assetSource where
  "discoveredSource =
     \<lparr>src_relation = ''observed under'', src_updateSQL = updateDiscoveredAssetSQL\<rparr>"

datatype assetAction = assetUnchanged | assetChanged | assetConflict

definition compareAsset :: "string \<Rightarrow> FlexibleAsset \<Rightarrow> FlexibleAsset \<Rightarrow> string \<Rightarrow> assetAction" where
  "compareAsset storedHouseID stored incoming incomingHouseID =
     (if storedHouseID \<noteq> incomingHouseID \<or> fa_AssetType stored \<noteq> fa_AssetType incoming
      then assetConflict
      else if \<not> f64_eq (fa_CapacityKwh stored) (fa_CapacityKwh incoming) \<or>
              \<not> f64_eq (fa_MaxChargeKw stored) (fa_MaxChargeKw incoming) \<or>
              \<not> f64_eq (fa_MaxDischargeKw stored) (fa_MaxDischargeKw incoming) \<or>
              \<not> equalOptional (=) (fa_V2GCapable stored) (fa_V2GCapable incoming)
      then assetChanged
      else assetUnchanged)"

definition loadAssets ::
    "(string list \<Rightarrow> int \<Rightarrow> tables \<Rightarrow> (sql_error + assets_row list) \<times> tables) \<Rightarrow> string list \<Rightarrow>
     (pg, string \<rightharpoonup> storedAsset) act" where
  "loadAssets query ids =
     andThen (onSql (sqlErrorf ''load assets: '') (stmt (query ids))) (\<lambda>rows.
     ret (map_of (rev (map (\<lambda>r. (a_asset_id r, stored_of_row r)) rows))))"

definition asset_conflict_error ::
    "assetSource \<Rightarrow> string \<Rightarrow> storedAsset \<Rightarrow> FlexibleAsset \<Rightarrow> go_error" where
  "asset_conflict_error src houseID stored incoming =
     sentinel_error ErrIntegrityConflict
       (''domain: conflicting duplicate telemetry: asset '' @ go_quote (fa_AssetID incoming) @
        '' is '' @ src_relation src @ '' house '' @ go_quote (sa_houseID stored) @ '' as '' @
        go_quote (fa_AssetType (sa_asset stored)) @ '', heartbeat from house '' @ go_quote houseID @
        '' reports '' @ go_quote (fa_AssetType incoming))"

definition applyKnownAsset ::
    "assetSource \<Rightarrow> string \<Rightarrow> storedAsset \<Rightarrow> FlexibleAsset \<Rightarrow> int \<Rightarrow> (pg, unit) act" where
  "applyKnownAsset src houseID stored incoming receivedAt =
     (case compareAsset (sa_houseID stored) (sa_asset stored) incoming houseID of
        assetConflict \<Rightarrow> throw (asset_conflict_error src houseID stored incoming)
      | assetChanged \<Rightarrow>
          onSql (sqlErrorf (''update asset '' @ go_quote (fa_AssetID incoming) @ '': ''))
            (stmt (src_updateSQL src incoming receivedAt))
      | assetUnchanged \<Rightarrow> ret ())"

definition observeNewAsset :: "string \<Rightarrow> FlexibleAsset \<Rightarrow> int \<Rightarrow> (pg, unit) act" where
  "observeNewAsset houseID a receivedAt =
     andThen (onSql (sqlErrorf (''record discovered asset '' @ go_quote (fa_AssetID a) @ '': ''))
                (stmt (insertDiscoveredAssetSQL (asset_row_of houseID a receivedAt)))) (\<lambda>affected.
     if affected = 1 then ret ()
     else andThen (loadAssets selectDiscoveredAssetsSQL [fa_AssetID a]) (\<lambda>existing.
       case existing (fa_AssetID a) of
         None \<Rightarrow> throw (errors_New (''discovered asset '' @ go_quote (fa_AssetID a) @
                                    '' disappeared during heartbeat''))
       | Some stored \<Rightarrow> applyKnownAsset discoveredSource houseID stored a receivedAt))"

fun applyAssetList ::
    "string \<Rightarrow> int \<Rightarrow> (string \<rightharpoonup> storedAsset) \<Rightarrow> (string \<rightharpoonup> storedAsset) \<Rightarrow> FlexibleAsset list \<Rightarrow>
     (pg, unit) act" where
  "applyAssetList houseID receivedAt registered discovered [] = ret ()"
| "applyAssetList houseID receivedAt registered discovered (incoming # rest) =
     andThen
       (case registered (fa_AssetID incoming) of
          Some stored \<Rightarrow> applyKnownAsset registeredSource houseID stored incoming receivedAt
        | None \<Rightarrow>
            (case discovered (fa_AssetID incoming) of
               Some stored \<Rightarrow> applyKnownAsset discoveredSource houseID stored incoming receivedAt
             | None \<Rightarrow> observeNewAsset houseID incoming receivedAt))
       (\<lambda>_. applyAssetList houseID receivedAt registered discovered rest)"

definition applyAssets :: "Heartbeat \<Rightarrow> int \<Rightarrow> (pg, unit) act" where
  "applyAssets hb receivedAt =
     (if hb_FlexibleAssets hb = [] then ret ()
      else
        andThen (loadAssets selectRegisteredAssetsSQL (map fa_AssetID (hb_FlexibleAssets hb)))
          (\<lambda>registered.
        let unknownIDs = map fa_AssetID
              (filter (\<lambda>a. registered (fa_AssetID a) = None) (hb_FlexibleAssets hb)) in
        andThen (if unknownIDs \<noteq> [] then loadAssets selectDiscoveredAssetsSQL unknownIDs
                 else ret Map.empty) (\<lambda>discovered.
        applyAssetList (hb_HouseID hb) receivedAt registered discovered (hb_FlexibleAssets hb))))"

definition house_identity_error :: "string \<Rightarrow> go_error" where
  "house_identity_error t =
     sentinel_error ErrHouseIdentity
       (''domain: house identity does not match registration: '' @ t)"

definition explainHouseMismatch :: "Heartbeat \<Rightarrow> (pg, unit) act" where
  "explainHouseMismatch hb p =
     (let house = go_quote (hb_HouseID hb) in
      case stmt (selectHouseIdentitySQL (hb_HouseID hb)) p of
        (Inl NoRows, p') \<Rightarrow>
          (Inl (house_identity_error (''house '' @ house @ '' is not registered'')), p')
      | (Inl e, p') \<Rightarrow> (Inl (sqlErrorf (''load identity of house '' @ house @ '': '') e), p')
      | (Inr (gridID, meterID), p') \<Rightarrow>
          (Inl (if gridID \<noteq> hb_GridID hb
                then house_identity_error (''house '' @ house @ '' is registered in grid '' @
                       go_quote gridID @ '', heartbeat says grid '' @ go_quote (hb_GridID hb))
                else case meterID of
                  None \<Rightarrow> house_identity_error (''house '' @ house @
                            '' has no registered meter, heartbeat says meter '' @
                            go_quote (hb_MeterID hb))
                | Some m \<Rightarrow>
                    if m \<noteq> hb_MeterID hb
                    then house_identity_error (''house '' @ house @ '' is registered with meter '' @
                           go_quote m @ '', heartbeat says meter '' @ go_quote (hb_MeterID hb))
                    else errors_New (''registration of house '' @ house @
                           '' changed while its heartbeat was processed; retry'')), p'))"

definition applyHouse :: "Heartbeat \<Rightarrow> int \<Rightarrow> (pg, unit) act" where
  "applyHouse hb receivedAt p =
     (case stmt (touchHouseSQL (hb_HouseID hb) (hb_GridID hb) (hb_MeterID hb) receivedAt) p of
        (Inr _, p') \<Rightarrow> (Inr (), p')
      | (Inl NoRows, p') \<Rightarrow> explainHouseMismatch hb p'
      | (Inl e, p') \<Rightarrow>
          (Inl (sqlErrorf (''update liveness of house '' @ go_quote (hb_HouseID hb) @ '': '') e), p'))"

definition ApplyHeartbeat :: "Heartbeat \<Rightarrow> int \<Rightarrow> (pg, unit) act" where
  "ApplyHeartbeat hb receivedAt0 =
     (let receivedAt = time_Truncate ns_microsecond receivedAt0 in
      BeginFunc (andThen (applyHouse hb receivedAt) (\<lambda>_. applyAssets hb receivedAt)))"

section \<open>What a heartbeat means for the tables\<close>

text \<open>
  The abstract effect: the liveness of the house, then each asset in turn, looked up in the table as
  it is at that moment.
\<close>

definition look :: "string \<Rightarrow> assets_row list \<Rightarrow> assets_row option" where
  "look i rows = find (\<lambda>r. a_asset_id r = i) rows"

definition same_caps :: "assets_row \<Rightarrow> FlexibleAsset \<Rightarrow> bool" where
  "same_caps r a \<longleftrightarrow>
     a_capacity_kwh r = fa_CapacityKwh a \<and> a_max_charge_kw r = fa_MaxChargeKw a \<and>
     a_max_discharge_kw r = fa_MaxDischargeKw a \<and> a_v2g_capable r = fa_V2GCapable a"

definition refresh_asset :: "FlexibleAsset \<Rightarrow> int \<Rightarrow> assets_row list \<Rightarrow> assets_row list" where
  "refresh_asset a seen rows =
     update_where (\<lambda>r. a_asset_id r = fa_AssetID a \<and> \<not> same_caps r a) (refresh a seen) rows"

definition put_asset :: "string \<Rightarrow> int \<Rightarrow> FlexibleAsset \<Rightarrow> tables \<Rightarrow> tables" where
  "put_asset house seen a T =
     (if look (fa_AssetID a) (t_flexible_assets T) \<noteq> None
      then T\<lparr>t_flexible_assets := refresh_asset a seen (t_flexible_assets T)\<rparr>
      else if look (fa_AssetID a) (t_discovered_assets T) \<noteq> None
      then T\<lparr>t_discovered_assets := refresh_asset a seen (t_discovered_assets T)\<rparr>
      else T\<lparr>t_discovered_assets := t_discovered_assets T @ [asset_row_of house a seen]\<rparr>)"

definition touch_house :: "Heartbeat \<Rightarrow> int \<Rightarrow> tables \<Rightarrow> tables" where
  "touch_house hb seen T =
     T\<lparr>t_houses := update_where (house_matches (hb_HouseID hb) (hb_GridID hb) (hb_MeterID hb))
          (\<lambda>h. h\<lparr>h_last_heartbeat_at := max (h_last_heartbeat_at h) seen\<rparr>) (t_houses T)\<rparr>"

definition heartbeat_effect :: "Heartbeat \<Rightarrow> int \<Rightarrow> tables \<Rightarrow> tables" where
  "heartbeat_effect hb seen T =
     fold (put_asset (hb_HouseID hb) seen) (hb_FlexibleAssets hb) (touch_house hb seen T)"

definition house_known :: "Heartbeat \<Rightarrow> tables \<Rightarrow> bool" where
  "house_known hb T \<longleftrightarrow>
     (\<exists>h \<in> set (t_houses T). house_matches (hb_HouseID hb) (hb_GridID hb) (hb_MeterID hb) h)"

text \<open>The row that decides about an asset: its registration, else its observation.\<close>

definition known_row :: "string \<Rightarrow> tables \<Rightarrow> assets_row option" where
  "known_row i T =
     (case look i (t_flexible_assets T) of Some r \<Rightarrow> Some r | None \<Rightarrow> look i (t_discovered_assets T))"

definition asset_clash :: "string \<Rightarrow> tables \<Rightarrow> FlexibleAsset \<Rightarrow> bool" where
  "asset_clash house T a \<longleftrightarrow>
     (case known_row (fa_AssetID a) T of
        None \<Rightarrow> False | Some r \<Rightarrow> a_house_id r \<noteq> house \<or> a_asset_type r \<noteq> fa_AssetType a)"

section \<open>The code implements it\<close>

lemma compareAsset_ok:
  assumes "flexible_ok a"
  shows "compareAsset (sa_houseID (stored_of_row r)) (sa_asset (stored_of_row r)) a house =
    (if a_house_id r \<noteq> house \<or> a_asset_type r \<noteq> fa_AssetType a then assetConflict
     else if same_caps r a then assetUnchanged else assetChanged)"
  using assms
  by (auto simp: compareAsset_def stored_of_row_def same_caps_def flexible_ok_def)

lemma look_SomeD: "look i rows = Some r \<Longrightarrow> r \<in> set rows \<and> a_asset_id r = i"
  by (auto simp: look_def dest: find_Some_in)

lemma look_None: "look i rows = None \<longleftrightarrow> i \<notin> a_asset_id ` set rows"
  by (auto simp: look_def find_None_iff)

lemma look_update_where:
  "(\<And>r. a_asset_id (f r) = a_asset_id r) \<Longrightarrow>
   look i (update_where p f rows) = map_option (\<lambda>r. if p r then f r else r) (look i rows)"
  unfolding look_def by (rule find_update_where_same) simp

lemma refresh_fields [simp]:
  "a_asset_id (refresh a seen r) = a_asset_id r" "a_house_id (refresh a seen r) = a_house_id r"
  "a_asset_type (refresh a seen r) = a_asset_type r"
  "a_first_seen_at (refresh a seen r) = a_first_seen_at r"
  "same_caps (refresh a seen r) a" "a_last_seen_at r \<le> a_last_seen_at (refresh a seen r)"
  by (simp_all add: refresh_def same_caps_def)

lemma look_refresh_other:
  "i \<noteq> fa_AssetID a \<Longrightarrow> look i (refresh_asset a seen rows) = look i rows"
  unfolding refresh_asset_def
  by (subst look_update_where) (auto simp: map_option_case dest: look_SomeD split: option.splits)

text \<open>With unique identifiers the update of a changed row is the refresh of the table.\<close>

lemma refresh_rows_ok:
  assumes "distinct (map a_asset_id rows)" "look (fa_AssetID a) rows = Some r" "\<not> same_caps r a"
    and "flexible_ok a" "a_asset_type r = fa_AssetType a"
  shows "refresh_rows a seen rows = Inr (refresh_asset a seen rows)"
proof -
  have r: "r \<in> set rows" "a_asset_id r = fa_AssetID a" using assms(2) look_SomeD by auto
  then have only: "x = r" if "x \<in> set rows" "a_asset_id x = fa_AssetID a" for x
    using distinct_key_eq [OF assms(1) that(1)] that by simp
  have upd: "update_where (\<lambda>x. a_asset_id x = fa_AssetID a) (refresh a seen) rows =
      refresh_asset a seen rows"
    unfolding refresh_asset_def update_where_def using only assms(3) by (intro map_cong) auto
  have "asset_checks x" if "x \<in> set (refresh_asset a seen rows)" "a_asset_id x = fa_AssetID a" for x
  proof -
    from that obtain y where y: "y \<in> set rows" "x = y \<and> same_caps y a \<or> x = refresh a seen y"
      by (auto simp: refresh_asset_def set_update_where)
    with that only have "y = r" by auto
    with y assms(3) have "x = refresh a seen r" by auto
    with assms(4,5) r show ?thesis
      by (auto simp: asset_checks_def refresh_def flexible_ok_def asset_type_ok_def
          dest: asset_id_nonempty)
  qed
  then show ?thesis by (simp add: refresh_rows_def Let_def upd list_all_iff)
qed

lemma refresh_asset_same:
  assumes "distinct (map a_asset_id rows)" "look (fa_AssetID a) rows = Some r" "same_caps r a"
  shows "refresh_asset a seen rows = rows"
proof -
  have "r \<in> set rows" "a_asset_id r = fa_AssetID a" using assms(2) look_SomeD by auto
  with assms show ?thesis
    unfolding refresh_asset_def by (intro update_where_id) (metis distinct_key_eq)
qed


text \<open>What the loop relies on: unique identifiers, and the house of the heartbeat exists.\<close>

definition assets_ready :: "string \<Rightarrow> tables \<Rightarrow> bool" where
  "assets_ready house T \<longleftrightarrow>
     distinct (map a_asset_id (t_flexible_assets T)) \<and>
     distinct (map a_asset_id (t_discovered_assets T)) \<and> house \<in> h_house_id ` set (t_houses T)"

lemma ids_refresh_asset [simp]: "map a_asset_id (refresh_asset a seen rows) = map a_asset_id rows"
  by (simp add: refresh_asset_def)

lemma assets_ready_put: "assets_ready house T \<Longrightarrow> assets_ready house (put_asset house seen a T)"
  by (auto simp: assets_ready_def put_asset_def look_None asset_row_of_def)

lemma known_row_put_other:
  "i \<noteq> fa_AssetID a \<Longrightarrow>
   look i (t_flexible_assets (put_asset house seen a T)) = look i (t_flexible_assets T) \<and>
   look i (t_discovered_assets (put_asset house seen a T)) = look i (t_discovered_assets T)"
  by (auto simp: put_asset_def look_refresh_other) (simp add: look_def asset_row_of_def find_append split: option.splits)

text \<open>One known asset, from either table.\<close>

lemma applyKnownAsset_quiet:
  assumes "pg_quiet p" "flexible_ok a"
    and src: "src = registeredSource \<and> rows = t_flexible_assets (pg_tables p) \<and>
         set_rows = (\<lambda>xs. (pg_tables p)\<lparr>t_flexible_assets := xs\<rparr>) \<or>
       src = discoveredSource \<and> rows = t_discovered_assets (pg_tables p) \<and>
         set_rows = (\<lambda>xs. (pg_tables p)\<lparr>t_discovered_assets := xs\<rparr>)"
    and "distinct (map a_asset_id rows)" "look (fa_AssetID a) rows = Some r"
  shows "applyKnownAsset src house (stored_of_row r) a seen p =
    (if a_house_id r \<noteq> house \<or> a_asset_type r \<noteq> fa_AssetType a
     then (Inl (asset_conflict_error src house (stored_of_row r) a), p)
     else (Inr (), p\<lparr>pg_tables := set_rows (refresh_asset a seen rows)\<rparr>))"
proof (cases "a_house_id r = house \<and> a_asset_type r = fa_AssetType a \<and> \<not> same_caps r a")
  case True
  with refresh_rows_ok [OF assms(4,5) _ assms(2)]
  have "refresh_rows a seen rows = Inr (refresh_asset a seen rows)" by auto
  with assms(1,3) True compareAsset_ok [OF assms(2), of r house] show ?thesis
    by (auto simp: applyKnownAsset_def onSql_stmt_quiet registeredSource_def discoveredSource_def
        updateRegisteredAssetSQL_def updateDiscoveredAssetSQL_def)
next
  case False
  with refresh_asset_same [OF assms(4,5)] assms(1,3) compareAsset_ok [OF assms(2), of r house]
  show ?thesis by (cases p) (auto simp: applyKnownAsset_def)
qed

lemma observeNewAsset_quiet:
  assumes "pg_quiet p" "flexible_ok a" "assets_ready house (pg_tables p)"
    and "look (fa_AssetID a) (t_discovered_assets (pg_tables p)) = None"
  shows "observeNewAsset house a seen p =
    (Inr (), p\<lparr>pg_tables := (pg_tables p)\<lparr>t_discovered_assets :=
       t_discovered_assets (pg_tables p) @ [asset_row_of house a seen]\<rparr>\<rparr>)"
proof -
  have "asset_checks (asset_row_of house a seen)"
    using assms(2) by (auto simp: asset_checks_def asset_row_of_def flexible_ok_def asset_type_ok_def
        dest: asset_id_nonempty)
  with assms show ?thesis
    by (simp add: observeNewAsset_def andThen_def onSql_stmt_quiet insertDiscoveredAssetSQL_def
        asset_row_of_def look_None assets_ready_def)
qed

text \<open>
  The loop, with maps that agree with the tables on the assets that are still to come.  It stops at the
  first conflicting asset.
\<close>

definition maps_agree ::
    "(string \<rightharpoonup> storedAsset) \<Rightarrow> (string \<rightharpoonup> storedAsset) \<Rightarrow> FlexibleAsset list \<Rightarrow> tables \<Rightarrow> bool" where
  "maps_agree reg disc as T \<longleftrightarrow>
     (\<forall>a \<in> set as.
        reg (fa_AssetID a) = map_option stored_of_row (look (fa_AssetID a) (t_flexible_assets T)) \<and>
        (reg (fa_AssetID a) = None \<longrightarrow>
         disc (fa_AssetID a) = map_option stored_of_row (look (fa_AssetID a) (t_discovered_assets T))))"

lemma apply_one_quiet:
  fixes seen :: int
  assumes "pg_quiet p" "flexible_ok a" "assets_ready house (pg_tables p)"
    and "maps_agree reg disc [a] (pg_tables p)"
  defines "step \<equiv> (case reg (fa_AssetID a) of
          Some stored \<Rightarrow> applyKnownAsset registeredSource house stored a seen
        | None \<Rightarrow>
            (case disc (fa_AssetID a) of
               Some stored \<Rightarrow> applyKnownAsset discoveredSource house stored a seen
             | None \<Rightarrow> observeNewAsset house a seen))"
  shows "if asset_clash house (pg_tables p) a
    then \<exists>e. errors_Is e ErrIntegrityConflict \<and> step p = (Inl e, p)
    else step p = (Inr (), p\<lparr>pg_tables := put_asset house seen a (pg_tables p)\<rparr>)"
proof -
  let ?T = "pg_tables p" and ?i = "fa_AssetID a"
  have d: "distinct (map a_asset_id (t_flexible_assets ?T))"
    "distinct (map a_asset_id (t_discovered_assets ?T))"
    using assms(3) by (simp_all add: assets_ready_def)
  consider (reg) r where "look ?i (t_flexible_assets ?T) = Some r"
    | (disc) r where "look ?i (t_flexible_assets ?T) = None" "look ?i (t_discovered_assets ?T) = Some r"
    | (new) "look ?i (t_flexible_assets ?T) = None" "look ?i (t_discovered_assets ?T) = None"
    by (cases "look ?i (t_flexible_assets ?T)"; cases "look ?i (t_discovered_assets ?T)") auto
  then show ?thesis
  proof cases
    case reg
    from applyKnownAsset_quiet [OF assms(1,2) disjI1 d(1) reg, of registeredSource] reg assms(4)
    show ?thesis
      by (auto simp: step_def maps_agree_def asset_clash_def known_row_def put_asset_def
          asset_conflict_error_def)
  next
    case disc
    from applyKnownAsset_quiet [OF assms(1,2) disjI2 d(2) disc(2), of discoveredSource] disc assms(4)
    show ?thesis
      by (auto simp: step_def maps_agree_def asset_clash_def known_row_def put_asset_def
          asset_conflict_error_def)
  next
    case new
    with observeNewAsset_quiet [OF assms(1-3) new(2)] assms(4) show ?thesis
      by (simp add: step_def maps_agree_def asset_clash_def known_row_def put_asset_def)
  qed
qed

lemma maps_agree_put:
  assumes "maps_agree reg disc (a # as) T" "fa_AssetID a \<notin> fa_AssetID ` set as"
  shows "maps_agree reg disc as (put_asset house seen a T)"
proof -
  have "fa_AssetID b \<noteq> fa_AssetID a" if "b \<in> set as" for b
    using assms(2) that by (metis image_eqI)
  with assms(1) known_row_put_other show ?thesis by (simp add: maps_agree_def)
qed

lemma asset_clash_put:
  assumes "fa_AssetID b \<noteq> fa_AssetID a"
  shows "asset_clash house (put_asset house seen a T) b = asset_clash house T b"
proof -
  have "known_row (fa_AssetID b) (put_asset house seen a T) = known_row (fa_AssetID b) T"
    using known_row_put_other [OF assms, of house seen T]
    by (auto simp: known_row_def split: option.splits)
  then show ?thesis by (simp add: asset_clash_def)
qed

lemma applyAssetList_quiet:
  "pg_quiet p \<Longrightarrow> list_all flexible_ok as \<Longrightarrow> distinct (map fa_AssetID as) \<Longrightarrow>
   assets_ready house (pg_tables p) \<Longrightarrow> maps_agree reg disc as (pg_tables p) \<Longrightarrow>
   if \<exists>a \<in> set as. asset_clash house (pg_tables p) a
   then \<exists>e q. errors_Is e ErrIntegrityConflict \<and>
      applyAssetList house seen reg disc as p = (Inl e, q) \<and> pg_quiet q \<and> pg_clock q = pg_clock p
   else applyAssetList house seen reg disc as p =
      (Inr (), p\<lparr>pg_tables := fold (put_asset house seen) as (pg_tables p)\<rparr>)"
proof (induction as arbitrary: p)
  case (Cons a as)
  let ?T = "pg_tables p"
  let ?q = "p\<lparr>pg_tables := put_asset house seen a ?T\<rparr>"
  have one: "maps_agree reg disc [a] ?T" using Cons.prems(5) by (simp add: maps_agree_def)
  note step = apply_one_quiet [OF Cons.prems(1) _ Cons.prems(4) one, of seen]
  have ids: "fa_AssetID a \<notin> fa_AssetID ` set as" using Cons.prems(3) by simp
  show ?case
  proof (cases "asset_clash house ?T a")
    case True
    with step Cons.prems obtain e where "errors_Is e ErrIntegrityConflict"
        "applyAssetList house seen reg disc (a # as) p = (Inl e, p)"
      by (auto simp: andThen_eqs(2))
    with True Cons.prems(1) show ?thesis by auto
  next
    case False
    with step Cons.prems have eq: "applyAssetList house seen reg disc (a # as) p =
        applyAssetList house seen reg disc as ?q"
      by (simp add: andThen_eqs(1))
    have "asset_clash house (pg_tables ?q) b = asset_clash house ?T b" if "b \<in> set as" for b
      using ids that by (simp add: asset_clash_put image_iff) (metis asset_clash_put)
    then have "(\<exists>b \<in> set as. asset_clash house (pg_tables ?q) b) =
        (\<exists>b \<in> set (a # as). asset_clash house ?T b)"
      using False by auto
    moreover have "assets_ready house (pg_tables ?q)" "maps_agree reg disc as (pg_tables ?q)"
      using Cons.prems(4) assets_ready_put maps_agree_put [OF Cons.prems(5) ids] by simp_all
    ultimately show ?thesis
      using Cons.IH [of ?q] Cons.prems unfolding eq by (auto split: if_split_asm)
  qed
qed simp

lemma look_distinct:
  "distinct (map a_asset_id rows) \<Longrightarrow> map_of (map (\<lambda>r. (a_asset_id r, f r)) rows) i = map_option f (look i rows)"
  by (induction rows) (auto simp: look_def)

lemma loaded_map:
  assumes "distinct (map a_asset_id rows)" "i \<in> set ids"
  shows "map_of (rev (map (\<lambda>r. (a_asset_id r, f r)) (filter (\<lambda>r. a_asset_id r \<in> set ids) rows))) i =
    map_option f (look i rows)"
proof -
  let ?rows = "filter (\<lambda>r. a_asset_id r \<in> set ids) rows"
  have d: "distinct (map a_asset_id ?rows)" using assms(1) by (rule distinct_map_filter)
  have "map_of (rev (map (\<lambda>r. (a_asset_id r, f r)) ?rows)) =
      map_of (map (\<lambda>r. (a_asset_id r, f r)) ?rows)"
    by (rule map_of_inject_set [THEN iffD2]) (use d in \<open>simp_all add: rev_map [symmetric] comp_def distinct_rev\<close>)
  moreover have "map_of (map (\<lambda>r. (a_asset_id r, f r)) ?rows) i = map_option f (look i ?rows)"
    using d by (rule look_distinct)
  moreover have "look i ?rows = look i rows"
    using assms(2) unfolding look_def by (induction rows) auto
  ultimately show ?thesis by simp
qed

lemma applyAssets_quiet:
  assumes "pg_quiet p" "heartbeat_ok hb" "assets_ready (hb_HouseID hb) (pg_tables p)"
  shows "if \<exists>a \<in> set (hb_FlexibleAssets hb). asset_clash (hb_HouseID hb) (pg_tables p) a
   then \<exists>e q. errors_Is e ErrIntegrityConflict \<and> applyAssets hb seen p = (Inl e, q) \<and>
      pg_quiet q \<and> pg_clock q = pg_clock p
   else applyAssets hb seen p =
      (Inr (), p\<lparr>pg_tables := fold (put_asset (hb_HouseID hb) seen) (hb_FlexibleAssets hb) (pg_tables p)\<rparr>)"
proof (cases "hb_FlexibleAssets hb = []")
  case True
  then show ?thesis by (simp add: applyAssets_def)
next
  case False
  let ?as = "hb_FlexibleAssets hb" and ?T = "pg_tables p"
  define load where "load = (\<lambda>rows ids. map_of (rev (map (\<lambda>r. (a_asset_id r, stored_of_row r))
    (filter (\<lambda>r. a_asset_id r \<in> set ids) rows))))"
  define reg where "reg = load (t_flexible_assets ?T) (map fa_AssetID ?as)"
  define unknown where "unknown = map fa_AssetID (filter (\<lambda>a. reg (fa_AssetID a) = None) ?as)"
  define disc where "disc = (if unknown = [] then Map.empty else load (t_discovered_assets ?T) unknown)"
  have d: "distinct (map a_asset_id (t_flexible_assets ?T))"
    "distinct (map a_asset_id (t_discovered_assets ?T))"
    using assms(3) by (simp_all add: assets_ready_def)
  have agree: "maps_agree reg disc ?as ?T"
    unfolding maps_agree_def
  proof (intro ballI conjI impI)
    fix a assume a: "a \<in> set ?as"
    show "reg (fa_AssetID a) = map_option stored_of_row (look (fa_AssetID a) (t_flexible_assets ?T))"
      unfolding reg_def load_def by (rule loaded_map) (use d a in auto)
    assume "reg (fa_AssetID a) = None"
    with a have "fa_AssetID a \<in> set unknown" by (auto simp: unknown_def)
    moreover from this have "unknown \<noteq> []" by auto
    ultimately show "disc (fa_AssetID a) =
        map_option stored_of_row (look (fa_AssetID a) (t_discovered_assets ?T))"
      unfolding disc_def if_not_P [OF \<open>unknown \<noteq> []\<close>] load_def by (intro loaded_map d)
  qed
  have load: "loadAssets selectRegisteredAssetsSQL ids p = (Inr (load (t_flexible_assets ?T) ids), p)"
    "loadAssets selectDiscoveredAssetsSQL ids p = (Inr (load (t_discovered_assets ?T) ids), p)" for ids
    using assms(1) by (simp_all add: loadAssets_def andThen_def onSql_stmt_quiet
        selectRegisteredAssetsSQL_def selectDiscoveredAssetsSQL_def load_def)
  have "applyAssets hb seen p = applyAssetList (hb_HouseID hb) seen reg disc ?as p"
    using False by (simp add: applyAssets_def andThen_def load Let_def disc_def reg_def unknown_def)
  moreover have "list_all flexible_ok ?as" "distinct (map fa_AssetID ?as)"
    using assms(2) by (simp_all add: heartbeat_ok_def)
  note applyAssetList_quiet [OF assms(1) this assms(3) agree, of seen]
  ultimately show ?thesis by (simp only:)
qed

lemma applyHouse_quiet:
  assumes "pg_quiet p" "distinct (map h_house_id (t_houses (pg_tables p)))"
  shows "if house_known hb (pg_tables p)
    then applyHouse hb seen p = (Inr (), p\<lparr>pg_tables := touch_house hb seen (pg_tables p)\<rparr>)
    else \<exists>e. errors_Is e ErrHouseIdentity \<and> applyHouse hb seen p = (Inl e, p)"
proof -
  let ?T = "pg_tables p" and ?m = "house_matches (hb_HouseID hb) (hb_GridID hb) (hb_MeterID hb)"
  have p: "p\<lparr>pg_tables := ?T\<rparr> = p" by simp
  show ?thesis
  proof (cases "house_known hb ?T")
    case True
    then obtain h where "find ?m (t_houses ?T) = Some h"
      by (auto simp: house_known_def find_None_iff dest: not_None_eq [THEN iffD1, rotated])
         (metis find_None_iff2 not_None_eq)
    with True assms(1) show ?thesis
      by (simp add: applyHouse_def stmt_quiet touchHouseSQL_def touch_house_def)
  next
    case False
    then have none: "find ?m (t_houses ?T) = None" by (auto simp: house_known_def find_None_iff)
    have touch: "applyHouse hb seen p = explainHouseMismatch hb p"
      using assms(1) none by (simp add: applyHouse_def stmt_quiet touchHouseSQL_def)
    show ?thesis
    proof (cases "find (\<lambda>h. h_house_id h = hb_HouseID hb) (t_houses ?T)")
      case None
      with False assms(1) touch show ?thesis
        by (simp add: explainHouseMismatch_def Let_def stmt_quiet selectHouseIdentitySQL_def
            house_identity_error_def)
    next
      case (Some h)
      then have "h \<in> set (t_houses ?T)" "h_house_id h = hb_HouseID hb"
        by (auto dest: find_Some_in)
      with False have "h_grid_id h \<noteq> hb_GridID hb \<or> h_meter_id h \<noteq> Some (hb_MeterID hb)"
        by (auto simp: house_known_def house_matches_def)
      with Some False assms(1) touch show ?thesis
        by (auto simp: explainHouseMismatch_def Let_def stmt_quiet selectHouseIdentitySQL_def
            house_identity_error_def split: option.splits)
    qed
  qed
qed

lemma touch_house_frame [simp]:
  "t_flexible_assets (touch_house hb seen T) = t_flexible_assets T"
  "t_discovered_assets (touch_house hb seen T) = t_discovered_assets T"
  "map h_house_id (t_houses (touch_house hb seen T)) = map h_house_id (t_houses T)"
  by (simp_all add: touch_house_def)

lemma touch_house_ids [simp]:
  "h_house_id ` set (t_houses (touch_house hb seen T)) = h_house_id ` set (t_houses T)"
  by (metis touch_house_frame(3) set_map)

lemma asset_clash_touch [simp]: "asset_clash house (touch_house hb seen T) a = asset_clash house T a"
  by (simp add: asset_clash_def known_row_def cong: option.case_cong)

lemma assets_ready_touch:
  "tables_ok T \<Longrightarrow> house_known hb T \<Longrightarrow> assets_ready (hb_HouseID hb) (touch_house hb seen T)"
  by (force simp: assets_ready_def tables_ok_def house_known_def house_matches_def)

text \<open>The whole method on a server that does not fail.\<close>

definition heartbeat_accepted :: "Heartbeat \<Rightarrow> tables \<Rightarrow> bool" where
  "heartbeat_accepted hb T \<longleftrightarrow>
     house_known hb T \<and> \<not> (\<exists>a \<in> set (hb_FlexibleAssets hb). asset_clash (hb_HouseID hb) T a)"

lemma heartbeat_body_quiet:
  fixes seen :: int
  assumes "pg_quiet p" "heartbeat_ok hb" "tables_ok (pg_tables p)"
  defines "body \<equiv> andThen (applyHouse hb seen) (\<lambda>_. applyAssets hb seen)"
  shows "if heartbeat_accepted hb (pg_tables p)
    then body p = (Inr (), p\<lparr>pg_tables := heartbeat_effect hb seen (pg_tables p)\<rparr>)
    else \<exists>e q. body p = (Inl e, q) \<and> pg_quiet q \<and> pg_clock q = pg_clock p \<and>
      errors_Is e (if house_known hb (pg_tables p) then ErrIntegrityConflict else ErrHouseIdentity)"
proof -
  let ?T = "pg_tables p"
  have d: "distinct (map h_house_id (t_houses ?T))" using assms(3) by (simp add: tables_ok_def)
  show ?thesis
  proof (cases "house_known hb ?T")
    case False
    with applyHouse_quiet [OF assms(1) d, of hb seen] assms(1) show ?thesis
      by (auto simp: body_def heartbeat_accepted_def andThen_def)
  next
    case True
    let ?p1 = "p\<lparr>pg_tables := touch_house hb seen ?T\<rparr>"
    from True applyHouse_quiet [OF assms(1) d, of hb seen]
    have "body p = applyAssets hb seen ?p1" by (simp add: body_def andThen_def)
    with applyAssets_quiet [of ?p1 hb seen] assms(1,2) assets_ready_touch [OF assms(3) True] True
    show ?thesis
      by (auto simp: heartbeat_accepted_def heartbeat_effect_def split: if_split_asm)
  qed
qed

lemma honest_loadAssets [honesty]: "honest (loadAssets q ids)"
  unfolding loadAssets_def by (intro honesty)

lemma honest_applyKnownAsset [honesty]: "honest (applyKnownAsset src house s a seen)"
  unfolding applyKnownAsset_def
  by (cases "compareAsset (sa_houseID s) (sa_asset s) a house")
     (simp_all only: assetAction.case honesty)

lemma honest_observeNewAsset [honesty]: "honest (observeNewAsset house a seen)"
  unfolding observeNewAsset_def by (intro honesty)

lemma honest_applyAssetList [honesty]: "honest (applyAssetList house seen reg disc as)"
proof (induction as)
  case (Cons a as)
  then show ?case unfolding applyAssetList.simps by (intro honesty)
qed (simp only: applyAssetList.simps honesty)

lemma honest_applyAssets [honesty]: "honest (applyAssets hb seen)"
  unfolding applyAssets_def Let_def by (intro honesty)

lemma explainHouseMismatch_error: "explainHouseMismatch hb p \<noteq> (Inr u, q)"
  by (auto simp: explainHouseMismatch_def Let_def split: prod.splits sum.splits sql_error.splits)

lemma honest_applyHouse [honesty]: "honest (applyHouse hb seen)"
  unfolding honest_def
proof (intro allI impI)
  fix p x q
  assume "applyHouse hb seen p = (Inr x, q)"
  then obtain h where
      "stmt (touchHouseSQL (hb_HouseID hb) (hb_GridID hb) (hb_MeterID hb) seen) p = (Inr h, q)"
    by (auto simp: applyHouse_def explainHouseMismatch_error split: prod.splits sum.splits sql_error.splits)
  from stmt_honest [OF this] show "applyHouse hb seen (p\<lparr>pg_faults := []\<rparr>) = (Inr x, q\<lparr>pg_faults := []\<rparr>)"
    by (simp add: applyHouse_def)
qed

text \<open>Every outcome, whatever the connection does.\<close>

lemma ApplyHeartbeat_cases:
  assumes "heartbeat_ok hb" "tables_ok (pg_tables p)" "ApplyHeartbeat hb t p = (res, p')"
  obtains (unchanged) e where "res = Inl e" "pg_tables p' = pg_tables p"
  | (applied) "heartbeat_accepted hb (pg_tables p)"
      "pg_tables p' = heartbeat_effect hb (time_Truncate ns_microsecond t) (pg_tables p)"
      "res = Inr () \<or> (\<exists>i. res = Inl (infra_error i))"
proof -
  let ?seen = "time_Truncate ns_microsecond t"
  let ?body = "andThen (applyHouse hb ?seen) (\<lambda>_. applyAssets hb ?seen)"
  have "honest ?body" by (intro honesty)
  moreover have "BeginFunc ?body p = (res, p')" using assms(3) by (simp add: ApplyHeartbeat_def Let_def)
  ultimately show thesis
  proof (cases rule: BeginFunc_honest)
    case (rolled_back e)
    then show thesis by (rule unchanged)
  next
    case (committed q x)
    with heartbeat_body_quiet [of "p\<lparr>pg_faults := []\<rparr>" hb ?seen] assms(1,2) show thesis
      by (intro applied) (auto split: if_split_asm)
  qed
qed

lemma ApplyHeartbeat_quiet:
  assumes "pg_quiet p" "heartbeat_ok hb" "tables_ok (pg_tables p)"
  shows "if heartbeat_accepted hb (pg_tables p)
    then ApplyHeartbeat hb t p =
      (Inr (), p\<lparr>pg_tables := heartbeat_effect hb (time_Truncate ns_microsecond t) (pg_tables p)\<rparr>)
    else \<exists>e. ApplyHeartbeat hb t p = (Inl e, p) \<and>
      errors_Is e (if house_known hb (pg_tables p) then ErrIntegrityConflict else ErrHouseIdentity)"
  using heartbeat_body_quiet [OF assms, of "time_Truncate ns_microsecond t"] assms(1)
  by (cases p) (auto simp: ApplyHeartbeat_def BeginFunc_def Let_def split: if_split_asm)


section \<open>What the effect can and cannot change\<close>

text \<open>Rows of the house may be refreshed; nobody else's row changes, and nothing about identity does.\<close>

definition house_touched :: "string \<Rightarrow> houses_row \<Rightarrow> houses_row \<Rightarrow> bool" where
  "house_touched house h h' \<longleftrightarrow>
     h' = h \<or> h_house_id h = house \<and> h_last_heartbeat_at h \<le> h_last_heartbeat_at h' \<and>
       h' = h\<lparr>h_last_heartbeat_at := h_last_heartbeat_at h'\<rparr>"

definition asset_refreshed :: "string \<Rightarrow> assets_row \<Rightarrow> assets_row \<Rightarrow> bool" where
  "asset_refreshed house r r' \<longleftrightarrow>
     r' = r \<or> a_house_id r = house \<and> a_asset_id r' = a_asset_id r \<and> a_house_id r' = a_house_id r \<and>
       a_asset_type r' = a_asset_type r \<and> a_first_seen_at r' = a_first_seen_at r \<and>
       a_last_seen_at r \<le> a_last_seen_at r'"

definition liveness_only :: "string \<Rightarrow> tables \<Rightarrow> tables \<Rightarrow> bool" where
  "liveness_only house T T' \<longleftrightarrow>
     list_all2 (house_touched house) (t_houses T) (t_houses T') \<and>
     list_all2 (asset_refreshed house) (t_flexible_assets T) (t_flexible_assets T') \<and>
     (\<exists>old new. t_discovered_assets T' = old @ new \<and>
        list_all2 (asset_refreshed house) (t_discovered_assets T) old \<and>
        list_all (\<lambda>r. a_house_id r = house) new) \<and>
     t_grids T' = t_grids T \<and> t_meter_readings T' = t_meter_readings T \<and>
     t_storage_readings T' = t_storage_readings T \<and> t_failures T' = t_failures T \<and>
     t_failures_seq T' = t_failures_seq T"

lemma house_touched_refl [simp]: "house_touched house h h"
  by (simp add: house_touched_def)

lemma asset_refreshed_refl [simp]: "asset_refreshed house r r"
  by (simp add: asset_refreshed_def)

lemma house_touched_trans:
  "house_touched house a b \<Longrightarrow> house_touched house b c \<Longrightarrow> house_touched house a c"
  by (cases a; cases b; cases c) (auto simp: house_touched_def)

lemma asset_refreshed_trans:
  "asset_refreshed house a b \<Longrightarrow> asset_refreshed house b c \<Longrightarrow> asset_refreshed house a c"
  by (auto simp: asset_refreshed_def)

lemma list_all2_refl_on [simp]: "(\<And>x. P x x) \<Longrightarrow> list_all2 P xs xs"
  by (simp add: list_all2_refl)

lemma liveness_only_refl: "liveness_only house T T"
  unfolding liveness_only_def by (intro conjI exI [of _ "t_discovered_assets T"] exI [of _ "[]"]) simp_all

lemma liveness_only_trans:
  assumes "liveness_only house T U" "liveness_only house U V"
  shows "liveness_only house T V"
proof -
  from assms(1) obtain o1 n1 where 1: "t_discovered_assets U = o1 @ n1"
      "list_all2 (asset_refreshed house) (t_discovered_assets T) o1" "list_all (\<lambda>r. a_house_id r = house) n1"
    by (auto simp: liveness_only_def)
  from assms(2) obtain o2 n2 where 2: "t_discovered_assets V = o2 @ n2"
      "list_all2 (asset_refreshed house) (o1 @ n1) o2" "list_all (\<lambda>r. a_house_id r = house) n2"
    by (auto simp: liveness_only_def 1(1))
  from 2(2) obtain p q where o2: "o2 = p @ q" "list_all2 (asset_refreshed house) o1 p"
      "list_all2 (asset_refreshed house) n1 q"
    by (auto simp: list_all2_append1)
  have "list_all (\<lambda>r. a_house_id r = house) q"
    using o2(3) 1(3) by (auto simp: list_all_length list_all2_conv_all_nth asset_refreshed_def)
  moreover have "list_all2 (asset_refreshed house) (t_discovered_assets T) p"
    using 1(2) o2(2) by (rule list_all2_trans [rotated]) (rule asset_refreshed_trans)
  ultimately have "\<exists>old new. t_discovered_assets V = old @ new \<and>
      list_all2 (asset_refreshed house) (t_discovered_assets T) old \<and>
      list_all (\<lambda>r. a_house_id r = house) new"
    using 2(1,3) o2(1) by (intro exI [of _ p] exI [of _ "q @ n2"]) simp
  with assms show ?thesis
    unfolding liveness_only_def
    by (auto intro: list_all2_trans house_touched_trans asset_refreshed_trans)
qed

lemma touch_house_liveness: "liveness_only (hb_HouseID hb) T (touch_house hb seen T)"
proof -
  have "list_all2 (house_touched (hb_HouseID hb)) (t_houses T) (t_houses (touch_house hb seen T))"
    by (auto simp: touch_house_def update_where_def list_all2_map2 list_all2_same house_touched_def
        house_matches_def)
  moreover have "\<exists>old new. t_discovered_assets T = old @ new \<and>
      list_all2 (asset_refreshed (hb_HouseID hb)) (t_discovered_assets T) old \<and>
      list_all (\<lambda>r. a_house_id r = hb_HouseID hb) new"
    by (intro exI [of _ "t_discovered_assets T"] exI [of _ "[]"]) simp
  ultimately show ?thesis by (simp add: liveness_only_def) (simp add: touch_house_def)
qed

lemma refresh_asset_refreshed:
  assumes "\<And>r. r \<in> set rows \<Longrightarrow> a_asset_id r = fa_AssetID a \<Longrightarrow> a_house_id r = house"
  shows "list_all2 (asset_refreshed house) rows (refresh_asset a seen rows)"
  using assms
  by (auto simp: refresh_asset_def update_where_def list_all2_map2 list_all2_same asset_refreshed_def)

text \<open>An asset without a conflict is owned by the house, in the table that decides about it.\<close>

lemma put_asset_liveness:
  assumes "assets_ready house T" "\<not> asset_clash house T a"
  shows "liveness_only house T (put_asset house seen a T)"
proof -
  have own: "a_house_id x = house"
    if "look (fa_AssetID a) rows = Some r" "a_house_id r = house" "distinct (map a_asset_id rows)"
      "x \<in> set rows" "a_asset_id x = fa_AssetID a" for rows r x
    using that look_SomeD distinct_key_eq by metis
  have d: "distinct (map a_asset_id (t_flexible_assets T))"
    "distinct (map a_asset_id (t_discovered_assets T))"
    using assms(1) by (simp_all add: assets_ready_def)
  have nil: "list_all2 (asset_refreshed house) rows rows" for rows by simp
  consider (reg) r where "look (fa_AssetID a) (t_flexible_assets T) = Some r" "a_house_id r = house"
    | (disc) r where "look (fa_AssetID a) (t_flexible_assets T) = None"
        "look (fa_AssetID a) (t_discovered_assets T) = Some r" "a_house_id r = house"
    | (new) "look (fa_AssetID a) (t_flexible_assets T) = None"
        "look (fa_AssetID a) (t_discovered_assets T) = None"
    using assms(2) by (auto simp: asset_clash_def known_row_def split: option.splits)
  then show ?thesis
  proof cases
    case reg
    then have "list_all2 (asset_refreshed house) (t_flexible_assets T)
        (refresh_asset a seen (t_flexible_assets T))"
      using own d(1) by (intro refresh_asset_refreshed) blast
    moreover have "put_asset house seen a T =
        T\<lparr>t_flexible_assets := refresh_asset a seen (t_flexible_assets T)\<rparr>"
      using reg by (simp add: put_asset_def)
    ultimately show ?thesis using liveness_only_refl [of house T] by (simp add: liveness_only_def)
  next
    case disc
    then have "list_all2 (asset_refreshed house) (t_discovered_assets T)
        (refresh_asset a seen (t_discovered_assets T))"
      using own d(2) by (intro refresh_asset_refreshed) blast
    then show ?thesis
      using disc unfolding liveness_only_def
      by (intro conjI exI [of _ "refresh_asset a seen (t_discovered_assets T)"] exI [of _ "[]"])
         (simp_all add: put_asset_def)
  next
    case new
    then show ?thesis
      unfolding liveness_only_def
      by (intro conjI exI [of _ "t_discovered_assets T"] exI [of _ "[asset_row_of house a seen]"])
         (simp_all add: put_asset_def asset_row_of_def)
  qed
qed

lemma fold_put_liveness:
  "assets_ready house T \<Longrightarrow> distinct (map fa_AssetID as) \<Longrightarrow> \<forall>a \<in> set as. \<not> asset_clash house T a \<Longrightarrow>
   liveness_only house T (fold (put_asset house seen) as T)"
proof (induction as arbitrary: T)
  case (Cons a as)
  have "\<not> asset_clash house (put_asset house seen a T) b" if "b \<in> set as" for b
    using Cons.prems(2,3) that by (metis asset_clash_put distinct.simps(2) image_eqI list.map(2)
        list.set_intros(2) list.set_map)
  with Cons.IH [of "put_asset house seen a T"] Cons.prems assets_ready_put
  have "liveness_only house (put_asset house seen a T) (fold (put_asset house seen) (a # as) T)" by simp
  moreover have "liveness_only house T (put_asset house seen a T)"
    using Cons.prems by (intro put_asset_liveness) simp_all
  ultimately show ?case by (rule liveness_only_trans [rotated])
qed (simp add: liveness_only_refl)

lemma heartbeat_effect_liveness:
  assumes "heartbeat_ok hb" "tables_ok T" "heartbeat_accepted hb T"
  shows "liveness_only (hb_HouseID hb) T (heartbeat_effect hb seen T)"
  unfolding heartbeat_effect_def
  using assms assets_ready_touch [OF assms(2)] touch_house_liveness
  by (intro liveness_only_trans [OF touch_house_liveness fold_put_liveness])
     (auto simp: heartbeat_accepted_def heartbeat_ok_def)

section \<open>A heartbeat is reflected, and repeating it changes nothing\<close>

definition asset_reflected :: "string \<Rightarrow> FlexibleAsset \<Rightarrow> tables \<Rightarrow> bool" where
  "asset_reflected house a T \<longleftrightarrow>
     (case known_row (fa_AssetID a) T of
        None \<Rightarrow> False
      | Some r \<Rightarrow> a_house_id r = house \<and> a_asset_type r = fa_AssetType a \<and> same_caps r a)"

lemma known_row_put_eq:
  "i \<noteq> fa_AssetID a \<Longrightarrow> known_row i (put_asset house seen a T) = known_row i T"
  using known_row_put_other [of i a house seen T] by (simp add: known_row_def cong: option.case_cong)

lemma look_refresh_asset:
  "look (fa_AssetID a) rows = Some r \<Longrightarrow>
   look (fa_AssetID a) (refresh_asset a seen rows) = Some (if same_caps r a then r else refresh a seen r)"
  unfolding refresh_asset_def by (subst look_update_where) (auto dest: look_SomeD)

lemma put_asset_reflected: "\<not> asset_clash house T a \<Longrightarrow> asset_reflected house a (put_asset house seen a T)"
  by (auto simp: asset_clash_def asset_reflected_def known_row_def put_asset_def look_refresh_asset
      split: option.splits if_splits)
     (auto simp: look_def find_append asset_row_of_def same_caps_def)

lemma fold_put_reflected:
  "distinct (map fa_AssetID as) \<Longrightarrow> \<forall>a \<in> set as. \<not> asset_clash house T a \<Longrightarrow> a \<in> set as \<Longrightarrow>
   asset_reflected house a (fold (put_asset house seen) as T)"
proof (induction as arbitrary: T)
  case (Cons b as)
  have other: "\<not> asset_clash house (put_asset house seen b T) c" if "c \<in> set as" for c
    using Cons.prems(1,2) that by (metis asset_clash_put distinct.simps(2) image_eqI list.map(2)
        list.set_intros(2) list.set_map)
  have keep: "known_row (fa_AssetID b) (fold (put_asset house seen) xs U) = known_row (fa_AssetID b) U"
    if "fa_AssetID b \<notin> fa_AssetID ` set xs" for xs U
    using that by (induction xs arbitrary: U) (auto simp: known_row_put_eq)
  show ?case
  proof (cases "a \<in> set as")
    case True
    with Cons.IH [of "put_asset house seen b T"] Cons.prems(1) other show ?thesis by simp
  next
    case False
    with Cons.prems have "a = b" by simp
    with put_asset_reflected [of house T b seen] keep [of as] Cons.prems(1,2) show ?thesis
      by (simp add: asset_reflected_def)
  qed
qed simp

lemma put_asset_noop:
  assumes "assets_ready house T" "asset_reflected house a T"
  shows "put_asset house seen a T = T"
  using assms refresh_asset_same [of "t_flexible_assets T" a] refresh_asset_same [of "t_discovered_assets T" a]
  by (auto simp: asset_reflected_def known_row_def put_asset_def assets_ready_def split: option.splits)

lemma fold_put_noop:
  "assets_ready house T \<Longrightarrow> \<forall>a \<in> set as. asset_reflected house a T \<Longrightarrow>
   fold (put_asset house seen) as T = T"
  by (induction as) (simp_all add: put_asset_noop)


lemma put_asset_houses [simp]: "t_houses (put_asset house seen a T) = t_houses T"
  by (simp add: put_asset_def)

lemma fold_put_houses [simp]: "t_houses (fold (put_asset house seen) as T) = t_houses T"
  by (induction as arbitrary: T) simp_all

lemma assets_ready_fold: "assets_ready house T \<Longrightarrow> assets_ready house (fold (put_asset house seen) as T)"
  by (induction as arbitrary: T) (simp_all add: assets_ready_put)

lemma touch_house_noop:
  assumes "\<forall>h \<in> set (t_houses T). house_matches (hb_HouseID hb) (hb_GridID hb) (hb_MeterID hb) h \<longrightarrow>
    seen \<le> h_last_heartbeat_at h"
  shows "touch_house hb seen T = T"
proof -
  have "update_where (house_matches (hb_HouseID hb) (hb_GridID hb) (hb_MeterID hb))
      (\<lambda>h. h\<lparr>h_last_heartbeat_at := max (h_last_heartbeat_at h) seen\<rparr>) (t_houses T) = t_houses T"
    unfolding update_where_def using assms by (intro map_idI) (auto simp: max_def)
  then show ?thesis by (simp add: touch_house_def)
qed

lemma touched_not_before:
  "h \<in> set (t_houses (touch_house hb seen T)) \<Longrightarrow>
   house_matches (hb_HouseID hb) (hb_GridID hb) (hb_MeterID hb) h \<Longrightarrow> seen \<le> h_last_heartbeat_at h"
  by (auto simp: touch_house_def update_where_def house_matches_def split: if_splits)

lemma heartbeat_effect_reflected:
  assumes "heartbeat_ok hb" "heartbeat_accepted hb T" "a \<in> set (hb_FlexibleAssets hb)"
  shows "asset_reflected (hb_HouseID hb) a (heartbeat_effect hb seen T)"
  unfolding heartbeat_effect_def using assms
  by (intro fold_put_reflected) (auto simp: heartbeat_ok_def heartbeat_accepted_def)

lemma heartbeat_effect_idem:
  assumes "heartbeat_ok hb" "tables_ok T" "heartbeat_accepted hb T"
  shows "heartbeat_effect hb seen (heartbeat_effect hb seen T) = heartbeat_effect hb seen T"
proof -
  let ?U = "heartbeat_effect hb seen T"
  have "touch_house hb seen ?U = ?U"
    by (rule touch_house_noop) (auto simp: heartbeat_effect_def dest: touched_not_before)
  moreover have "assets_ready (hb_HouseID hb) ?U"
    unfolding heartbeat_effect_def
    using assms by (intro assets_ready_fold assets_ready_touch) (auto simp: heartbeat_accepted_def)
  ultimately show ?thesis
    using fold_put_noop [of "hb_HouseID hb" ?U "hb_FlexibleAssets hb" seen]
      heartbeat_effect_reflected [OF assms(1,3)]
    by (simp add: heartbeat_effect_def)
qed

lemma house_known_effect [simp]: "house_known hb (heartbeat_effect hb seen T) = house_known hb T"
  by (auto simp: house_known_def heartbeat_effect_def touch_house_def update_where_def house_matches_def
      simp del: if_image_distrib)

lemma heartbeat_accepted_again:
  assumes "heartbeat_ok hb" "heartbeat_accepted hb T"
  shows "heartbeat_accepted hb (heartbeat_effect hb seen T)"
proof -
  have "\<not> asset_clash (hb_HouseID hb) (heartbeat_effect hb seen T) a"
    if "a \<in> set (hb_FlexibleAssets hb)" for a
    using heartbeat_effect_reflected [OF assms that, of seen]
    by (simp add: asset_reflected_def asset_clash_def split: option.splits)
  with assms(2) show ?thesis by (simp add: heartbeat_accepted_def)
qed

lemma map_filter_update_where:
  "(\<And>r. key (f r) = key r) \<Longrightarrow> (\<And>r. P (f r) = P r) \<Longrightarrow>
   map key (filter P (update_where p f rs)) = map key (filter P rs)"
  by (induction rs) auto

lemma tables_ok_touch: "tables_ok T \<Longrightarrow> tables_ok (touch_house hb seen T)"
  unfolding tables_ok_def touch_house_def
  by (auto simp: map_filter_update_where set_update_where)

lemma tables_ok_put: "tables_ok T \<Longrightarrow> tables_ok (put_asset house seen a T)"
  by (auto simp: tables_ok_def put_asset_def look_None asset_row_of_def)

lemma tables_ok_heartbeat_effect: "tables_ok T \<Longrightarrow> tables_ok (heartbeat_effect hb seen T)"
proof -
  have "tables_ok (fold (put_asset house seen) as U)" if "tables_ok U" for house as U
    using that by (induction as arbitrary: U) (simp_all add: tables_ok_put)
  then show "tables_ok T \<Longrightarrow> tables_ok (heartbeat_effect hb seen T)"
    by (simp add: heartbeat_effect_def tables_ok_touch)
qed

lemma ApplyHeartbeat_tables_ok [invariants]:
  assumes "heartbeat_ok hb" "tables_ok (pg_tables p)" "ApplyHeartbeat hb t p = (res, p')"
  shows "tables_ok (pg_tables p')"
  using assms(2) by (cases rule: ApplyHeartbeat_cases [OF assms]) (auto simp: tables_ok_heartbeat_effect)

text \<open>What success means, and that a second delivery finds nothing to do.\<close>

lemma heartbeat_success:
  assumes "heartbeat_ok hb" "tables_ok (pg_tables p)" "ApplyHeartbeat hb t p = (Inr u, q)"
  shows "(\<exists>h \<in> set (t_houses (pg_tables q)). house_matches (hb_HouseID hb) (hb_GridID hb) (hb_MeterID hb) h \<and>
        time_Truncate ns_microsecond t \<le> h_last_heartbeat_at h) \<and>
     (\<forall>a \<in> set (hb_FlexibleAssets hb). asset_reflected (hb_HouseID hb) a (pg_tables q)) \<and>
     ApplyHeartbeat hb t (q\<lparr>pg_faults := []\<rparr>) = (Inr (), q\<lparr>pg_faults := []\<rparr>)"
proof (cases rule: ApplyHeartbeat_cases [OF assms])
  case 2
  note applied = this
  let ?s = "time_Truncate ns_microsecond t"
  have known: "house_known hb (pg_tables q)"
    using applied by (simp add: heartbeat_accepted_def)
  then have "\<exists>h \<in> set (t_houses (pg_tables q)). house_matches (hb_HouseID hb) (hb_GridID hb) (hb_MeterID hb) h \<and>
        ?s \<le> h_last_heartbeat_at h"
    using applied(2) touched_not_before
    by (auto simp: house_known_def heartbeat_effect_def)
  moreover have "\<forall>a \<in> set (hb_FlexibleAssets hb). asset_reflected (hb_HouseID hb) a (pg_tables q)"
    using applied heartbeat_effect_reflected [OF assms(1)] by simp
  moreover have "ApplyHeartbeat hb t (q\<lparr>pg_faults := []\<rparr>) = (Inr (), q\<lparr>pg_faults := []\<rparr>)"
    using ApplyHeartbeat_quiet [of "q\<lparr>pg_faults := []\<rparr>" hb t] assms(1,2) applied
      heartbeat_accepted_again [OF assms(1) applied(1), of ?s]
      heartbeat_effect_idem [OF assms(1,2) applied(1), of ?s] tables_ok_heartbeat_effect [OF assms(2)]
    by (cases q) simp
  ultimately show ?thesis by blast
qed simp

section \<open>Properties\<close>

text \<open>
  C8.  The heartbeat transaction implements its abstract effect, on a server that answers: when the
  house is registered with exactly this grid and meter and no reported asset belongs to another house
  or has another type, the tables become the abstract effect; otherwise nothing is written and the
  error is a house-identity error or an integrity conflict.
\<close>

theorem ApplyHeartbeat_outcome:
  assumes "pg_quiet p" "heartbeat_ok hb" "tables_ok (pg_tables p)"
  shows "if heartbeat_accepted hb (pg_tables p)
    then ApplyHeartbeat hb t p =
      (Inr (), p\<lparr>pg_tables := heartbeat_effect hb (time_Truncate ns_microsecond t) (pg_tables p)\<rparr>)
    else \<exists>e. ApplyHeartbeat hb t p = (Inl e, p) \<and>
      errors_Is e (if house_known hb (pg_tables p) then ErrIntegrityConflict else ErrHouseIdentity)"
  using assms by (rule ApplyHeartbeat_quiet)

lemma sample_heartbeat_accepted: "heartbeat_accepted sample_heartbeat sample_tables"
  by (simp add: heartbeat_accepted_def house_known_def house_matches_def sample_heartbeat_def
      sample_tables_def empty_tables_def asset_clash_def known_row_def look_def)

theorem ApplyHeartbeat_outcome_witness:
  "fst (ApplyHeartbeat sample_heartbeat 5000 (quiet_pg sample_tables 0)) = Inr () \<and>
   (\<exists>e. ApplyHeartbeat sample_heartbeat 5000 (quiet_pg empty_tables 0) = (Inl e, quiet_pg empty_tables 0) \<and>
        errors_Is e ErrHouseIdentity)"
proof -
  have "\<not> house_known sample_heartbeat empty_tables"
    by (simp add: house_known_def empty_tables_def)
  then show ?thesis
    using ApplyHeartbeat_outcome [of "quiet_pg sample_tables 0" sample_heartbeat 5000]
      ApplyHeartbeat_outcome [of "quiet_pg empty_tables 0" sample_heartbeat 5000]
      sample_heartbeat_accepted sample_heartbeat_ok sample_tables_ok
    by (simp add: heartbeat_accepted_def)
qed

text \<open>
  C9.  A heartbeat grants nothing.  Whatever the connection does, after a heartbeat the houses are
  the same and only the liveness time of the sending house may have moved, forwards; the registered
  assets are the same, with the same owner and type, and only those of the house may have refreshed
  capabilities; new observations belong to the house; grids, telemetry and failures are untouched.
\<close>

theorem ApplyHeartbeat_grants_nothing:
  assumes "heartbeat_ok hb" "tables_ok (pg_tables p)"
  shows "liveness_only (hb_HouseID hb) (pg_tables p) (pg_tables (snd (ApplyHeartbeat hb t p)))"
proof (cases "ApplyHeartbeat hb t p")
  case (Pair res q)
  then show ?thesis
    by (cases rule: ApplyHeartbeat_cases [OF assms Pair])
       (auto simp: liveness_only_refl heartbeat_effect_liveness [OF assms])
qed

theorem ApplyHeartbeat_grants_nothing_witness:
  "liveness_only ''g1-house1'' sample_tables
     (pg_tables (snd (ApplyHeartbeat sample_heartbeat 5000 (quiet_pg sample_tables 0))))"
  using ApplyHeartbeat_grants_nothing [of sample_heartbeat "quiet_pg sample_tables 0" 5000]
    sample_heartbeat_ok sample_tables_ok
  by (simp add: sample_heartbeat_def)




section \<open>Other tables\<close>

text \<open>A heartbeat touches the houses and the two asset tables only, whatever state the tables are in.\<close>

definition other_tables :: "(tables \<Rightarrow> 'c) \<Rightarrow> bool" where
  "other_tables f \<longleftrightarrow>
     (\<forall>T x. f (T\<lparr>t_houses := x\<rparr>) = f T) \<and> (\<forall>T x. f (T\<lparr>t_flexible_assets := x\<rparr>) = f T) \<and>
     (\<forall>T x. f (T\<lparr>t_discovered_assets := x\<rparr>) = f T)"

lemma heartbeat_statements_keep:
  assumes "other_tables f"
  shows "f (snd (touchHouseSQL h g m seen c T)) = f T" "f (snd (selectHouseIdentitySQL h c T)) = f T"
    "f (snd (selectRegisteredAssetsSQL ids c T)) = f T" "f (snd (selectDiscoveredAssetsSQL ids c T)) = f T"
    "f (snd (updateRegisteredAssetSQL a seen c T)) = f T" "f (snd (updateDiscoveredAssetSQL a seen c T)) = f T"
    "f (snd (insertDiscoveredAssetSQL row c T)) = f T"
  using assms unfolding other_tables_def
  by (simp_all add: touchHouseSQL_def selectHouseIdentitySQL_def selectRegisteredAssetsSQL_def
      selectDiscoveredAssetsSQL_def updateRegisteredAssetSQL_def updateDiscoveredAssetSQL_def
      insertDiscoveredAssetSQL_def Let_def split: option.splits sum.splits)

lemma keeps_loadAssets [keeping]:
  "(\<And>ids c T. f (snd (query ids c T)) = f T) \<Longrightarrow> keeps f (loadAssets query ids)"
  unfolding loadAssets_def by (intro keeping)

lemma keeps_applyKnownAsset:
  "other_tables f \<Longrightarrow> src \<in> {registeredSource, discoveredSource} \<Longrightarrow> keeps f (applyKnownAsset src house s a seen)"
  unfolding applyKnownAsset_def
  by (cases "compareAsset (sa_houseID s) (sa_asset s) a house")
     (auto intro!: keeping simp: heartbeat_statements_keep registeredSource_def discoveredSource_def)

lemma keeps_observeNewAsset: "other_tables f \<Longrightarrow> keeps f (observeNewAsset house a seen)"
  unfolding observeNewAsset_def
  by (intro keeping keeps_applyKnownAsset) (simp_all add: heartbeat_statements_keep)

lemma keeps_applyAssetList: "other_tables f \<Longrightarrow> keeps f (applyAssetList house seen reg disc as)"
proof (induction as)
  case (Cons a as)
  then show ?case
    unfolding applyAssetList.simps
    by (intro keeping keeps_applyKnownAsset keeps_observeNewAsset) simp_all
qed (simp add: keeping)

lemma keeps_applyAssets: "other_tables f \<Longrightarrow> keeps f (applyAssets hb seen)"
  unfolding applyAssets_def Let_def
  by (intro keeping keeps_applyAssetList) (simp_all add: heartbeat_statements_keep)

lemma keeps_applyHouse: "other_tables f \<Longrightarrow> keeps f (applyHouse hb seen)"
  unfolding keeps_def applyHouse_def explainHouseMismatch_def Let_def
  by (auto split: prod.splits sum.splits sql_error.splits dest!: stmt_tables
      simp: heartbeat_statements_keep)

lemma ApplyHeartbeat_keeps: "other_tables f \<Longrightarrow> keeps f (ApplyHeartbeat hb t)"
  unfolding ApplyHeartbeat_def Let_def by (intro keeping keeps_applyHouse keeps_applyAssets)

end
