(* ===== verification/World.thy ===== *)
theory World
  imports RedisStore HeartbeatStore
begin

text \<open>
  The two stores together, as the handlers and the operator commands see them, and the lifting of a
  store's methods to the pair.
\<close>

record world =
  w_pg :: pg
  w_redis :: redis

definition onPg :: "(pg, 'a) act \<Rightarrow> (world, 'a) act" where
  "onPg m w = (case m (w_pg w) of (r, p) \<Rightarrow> (r, w\<lparr>w_pg := p\<rparr>))"

definition onRedis :: "(redis, 'a) act \<Rightarrow> (world, 'a) act" where
  "onRedis m w = (case m (w_redis w) of (r, c) \<Rightarrow> (r, w\<lparr>w_redis := c\<rparr>))"

lemma onPg_eq: "m (w_pg w) = (r, p) \<Longrightarrow> onPg m w = (r, w\<lparr>w_pg := p\<rparr>)"
  by (simp add: onPg_def)

lemma onRedis_eq: "m (w_redis w) = (r, c) \<Longrightarrow> onRedis m w = (r, w\<lparr>w_redis := c\<rparr>)"
  by (simp add: onRedis_def)

lemma onPg_iff [inversion]:
  "onPg m w = (r, w') \<longleftrightarrow> m (w_pg w) = (r, w_pg w') \<and> w_redis w' = w_redis w"
  by (cases w; cases w') (auto simp: onPg_def split: prod.splits)

lemma onRedis_iff [inversion]:
  "onRedis m w = (r, w') \<longleftrightarrow> m (w_redis w) = (r, w_redis w') \<and> w_pg w' = w_pg w"
  by (cases w; cases w') (auto simp: onRedis_def split: prod.splits)

definition world_ok :: "world \<Rightarrow> bool" where
  "world_ok w \<longleftrightarrow> tables_ok (pg_tables (w_pg w)) \<and> redis_ok (w_redis w)"

abbreviation world_quiet :: "world \<Rightarrow> bool" where
  "world_quiet w \<equiv> pg_quiet (w_pg w) \<and> rd_quiet (w_redis w)"

end
