(* ===== verification/FailureStore.thy ===== *)
theory FailureStore
  imports World Utf8
begin

text \<open>
  \<^verbatim>\<open>internal/store/postgres/failures.go\<close> and \<^verbatim>\<open>failure_ops.go\<close>, with the record type of
  \<^verbatim>\<open>internal/ingestion/failure_recorder.go\<close> and the loop of \<^verbatim>\<open>cmd/failure-replay\<close>: the durable record of
  failed Kafka records, and its operator side.
\<close>

section \<open>Recording\<close>

record IngestionFailure =
  if_Topic :: string
  if_Partition :: int
  if_Offset :: int
  if_Key :: "bytes option"
  if_RawPayload :: "bytes option"
  if_PayloadSHA256 :: string
  if_Stage :: string
  if_Reason :: string
  if_Attempts :: int

definition StageDecode :: string where "StageDecode = ''decode''"
definition StageGridValidation :: string where "StageGridValidation = ''grid_validation''"
definition StageRedisWrite :: string where "StageRedisWrite = ''redis_write''"
definition StageTimescaleWrite :: string where "StageTimescaleWrite = ''timescale_write''"
definition StageHandlerPanic :: string where "StageHandlerPanic = ''handler_panic''"

lemmas stage_defs = StageDecode_def StageGridValidation_def StageRedisWrite_def
  StageTimescaleWrite_def StageHandlerPanic_def

definition stages :: "string set" where
  "stages = {''decode'', ''grid_validation'', ''redis_write'', ''timescale_write'', ''handler_panic''}"

definition fails_at :: "string \<Rightarrow> int \<Rightarrow> int \<Rightarrow> string \<Rightarrow> failures_row \<Rightarrow> bool" where
  "fails_at topic part off stage f \<longleftrightarrow> failure_key f = (topic, part, off, stage)"

text \<open>
  The upsert.  The identifier is drawn from the sequence before the conflict is known, so the
  sequence moves on an update as well.  Text columns refuse invalid UTF-8 and NUL (22021), the payload
  column refuses NULL (23502), and the checks are those of migrations 00007 and 00008.
\<close>

definition upsertIngestionFailureSQL ::
    "IngestionFailure \<Rightarrow> int \<Rightarrow> tables \<Rightarrow> (sql_error + unit) \<times> tables" where
  "upsertIngestionFailureSQL rec now T =
     (let T' = T\<lparr>t_failures_seq := t_failures_seq T + 1\<rparr> in
      if \<not> (text_ok (if_Topic rec) \<and> text_ok (if_PayloadSHA256 rec) \<and> text_ok (if_Stage rec) \<and>
            text_ok (if_Reason rec))
      then (Inl (PgError ''22021'' ''invalid byte sequence for encoding''), T)
      else case if_RawPayload rec of
        None \<Rightarrow> (Inl (PgError ''23502'' ''null value in column raw_payload''), T')
      | Some payload \<Rightarrow>
          if if_Stage rec \<notin> stages \<or> if_Attempts rec < 1
          then (Inl (PgError pgCheckViolation ''new row violates check constraint''), T')
          else if find (fails_at (if_Topic rec) (if_Partition rec) (if_Offset rec) (if_Stage rec))
                    (t_failures T) \<noteq> None
          then (Inr (), T'\<lparr>t_failures :=
                 update_where (fails_at (if_Topic rec) (if_Partition rec) (if_Offset rec) (if_Stage rec))
                   (\<lambda>f. f\<lparr>f_kafka_key := if_Key rec, f_raw_payload := payload,
                          f_payload_sha256 := if_PayloadSHA256 rec, f_error_reason := if_Reason rec,
                          f_attempt_count := if_Attempts rec, f_last_failed_at := now\<rparr>)
                   (t_failures T)\<rparr>)
          else (Inr (), T'\<lparr>t_failures := t_failures T @
                 [\<lparr>f_id = t_failures_seq T, f_kafka_topic = if_Topic rec,
                   f_kafka_partition = if_Partition rec, f_kafka_offset = if_Offset rec,
                   f_kafka_key = if_Key rec, f_raw_payload = payload,
                   f_payload_sha256 = if_PayloadSHA256 rec, f_failure_stage = if_Stage rec,
                   f_error_reason = if_Reason rec, f_attempt_count = if_Attempts rec,
                   f_first_failed_at = now, f_last_failed_at = now, f_resolution = ''unresolved'',
                   f_resolved_at = None, f_resolved_by = None\<rparr>]\<rparr>))"

definition RecordFailure :: "IngestionFailure \<Rightarrow> (pg, unit) act" where
  "RecordFailure rec0 =
     (let rec1 = (if if_Attempts rec0 < 1 then rec0\<lparr>if_Attempts := 1\<rparr> else rec0);
          rec2 = (if if_RawPayload rec1 = None then rec1\<lparr>if_RawPayload := Some []\<rparr> else rec1) in
      onSql (sqlErrorf (''record ingestion failure '' @ if_Topic rec2 @ ''/'' @
                        show_int (if_Partition rec2) @ ''@'' @ show_int (if_Offset rec2) @
                        '' stage '' @ if_Stage rec2 @ '': ''))
        (stmt (upsertIngestionFailureSQL (rec2\<lparr>if_Reason := sanitizeText (if_Reason rec2)\<rparr>))))"

section \<open>The operator's view\<close>

record FailureRow =
  fr_ID :: int
  fr_Topic :: string
  fr_Partition :: int
  fr_Offset :: int
  fr_Key :: "bytes option"
  fr_RawPayload :: "bytes option"
  fr_PayloadSHA256 :: string
  fr_Stage :: string
  fr_Reason :: string
  fr_Attempts :: int
  fr_FirstFailedAt :: int
  fr_LastFailedAt :: int
  fr_Resolution :: string

definition failure_row :: "bool \<Rightarrow> failures_row \<Rightarrow> FailureRow" where
  "failure_row with_payload f =
     \<lparr>fr_ID = f_id f, fr_Topic = f_kafka_topic f, fr_Partition = f_kafka_partition f,
      fr_Offset = f_kafka_offset f,
      fr_Key = (if with_payload then f_kafka_key f else None),
      fr_RawPayload = (if with_payload then Some (f_raw_payload f) else None),
      fr_PayloadSHA256 = f_payload_sha256 f, fr_Stage = f_failure_stage f,
      fr_Reason = f_error_reason f, fr_Attempts = f_attempt_count f,
      fr_FirstFailedAt = f_first_failed_at f, fr_LastFailedAt = f_last_failed_at f,
      fr_Resolution = f_resolution f\<rparr>"

definition listUnresolvedFailuresSQL ::
    "int \<Rightarrow> int \<Rightarrow> int \<Rightarrow> tables \<Rightarrow> (sql_error + failures_row list) \<times> tables" where
  "listUnresolvedFailuresSQL after limit now T =
     (Inr (take (nat limit) (sort_key f_id
        (filter (\<lambda>f. f_resolution f = ''unresolved'' \<and> after < f_id f) (t_failures T)))), T)"

definition ListUnresolvedFailures :: "int \<Rightarrow> int \<Rightarrow> (pg, FailureRow list) act" where
  "ListUnresolvedFailures afterID limit =
     (if limit \<le> 0 then throw (errors_New ''postgres: list failures: limit must be positive'')
      else andThen (onSql (sqlErrorf ''postgres: list failures: '')
                      (stmt (listUnresolvedFailuresSQL afterID limit))) (\<lambda>rows.
        ret (map (failure_row False) rows)))"

definition backlogSQL :: "int \<Rightarrow> tables \<Rightarrow> (sql_error + int \<times> int) \<times> tables" where
  "backlogSQL now T =
     (let fs = filter (\<lambda>f. f_resolution f = ''unresolved'') (t_failures T) in
      (Inr (int (length fs),
            case fs of [] \<Rightarrow> 0 | f # gs \<Rightarrow> now - fold min (map f_first_failed_at gs) (f_first_failed_at f)), T))"

definition FailureBacklog :: "(pg, int \<times> int) act" where
  "FailureBacklog = onSql (sqlErrorf ''postgres: failure backlog: '') (stmt backlogSQL)"

definition lockFailureSQL :: "int \<Rightarrow> int \<Rightarrow> tables \<Rightarrow> (sql_error + failures_row) \<times> tables" where
  "lockFailureSQL i now T =
     (case find (\<lambda>f. f_id f = i) (t_failures T) of None \<Rightarrow> (Inl NoRows, T) | Some f \<Rightarrow> (Inr f, T))"

definition resolveFailureSQL ::
    "int \<Rightarrow> string \<Rightarrow> string \<Rightarrow> int \<Rightarrow> tables \<Rightarrow> (sql_error + unit) \<times> tables" where
  "resolveFailureSQL i resolution actor now T =
     (if \<not> text_ok actor then (Inl (PgError ''22021'' ''invalid byte sequence for encoding''), T)
      else if resolution \<notin> {''unresolved'', ''replayed'', ''discarded''}
      then (Inl (PgError pgCheckViolation ''new row violates check constraint''), T)
      else (Inr (), T\<lparr>t_failures := update_where (\<lambda>f. f_id f = i)
             (\<lambda>f. f\<lparr>f_resolution := resolution, f_resolved_at := Some now, f_resolved_by := Some actor\<rparr>)
             (t_failures T)\<rparr>))"

definition noteReplayFailureSQL ::
    "int \<Rightarrow> string \<Rightarrow> int \<Rightarrow> tables \<Rightarrow> (sql_error + unit) \<times> tables" where
  "noteReplayFailureSQL i reason now T =
     (if \<not> text_ok reason then (Inl (PgError ''22021'' ''invalid byte sequence for encoding''), T)
      else (Inr (), T\<lparr>t_failures := update_where (\<lambda>f. f_id f = i)
             (\<lambda>f. f\<lparr>f_error_reason := reason, f_last_failed_at := now,
                    f_attempt_count := f_attempt_count f + 1\<rparr>)
             (t_failures T)\<rparr>))"

definition failure_unavailable :: go_error where
  "failure_unavailable =
     sentinel_error ErrFailureUnavailable
       ''postgres: failure not found, already resolved, or being replayed''"

text \<open>
  The transaction only reads before it calls \<open>fn\<close>, which works on other connections and commits on
  its own.  A rollback afterwards therefore undoes the last statement and nothing of what \<open>fn\<close> did:
  \<open>TxRest\<close> is the part of the transaction after the call.
\<close>

definition TxRest :: "(pg, 'a) act \<Rightarrow> (pg, 'a) act" where
  "TxRest fn p =
     (case fn p of
        (Inl e, q) \<Rightarrow> (Inl e, q\<lparr>pg_tables := pg_tables p\<rparr>)
      | (Inr x, q) \<Rightarrow>
          (case next_fault (pg_faults q) of
             (Succeed, gs) \<Rightarrow> (Inr x, q\<lparr>pg_faults := gs\<rparr>)
           | (Fail i, gs) \<Rightarrow> (Inl (infra_error i), q\<lparr>pg_faults := gs, pg_tables := pg_tables p\<rparr>)
           | (Lost i, gs) \<Rightarrow> (Inl (infra_error i), q\<lparr>pg_faults := gs\<rparr>)))"

definition Begin :: "(pg, unit) act" where
  "Begin p =
     (case next_fault (pg_faults p) of
        (Succeed, fs) \<Rightarrow> (Inr (), p\<lparr>pg_faults := fs\<rparr>)
      | (Fail i, fs) \<Rightarrow> (Inl (infra_error i), p\<lparr>pg_faults := fs\<rparr>)
      | (Lost i, fs) \<Rightarrow> (Inl (infra_error i), p\<lparr>pg_faults := fs\<rparr>))"

type_synonym replay_fn = "FailureRow \<Rightarrow> world \<Rightarrow> (string \<times> go_error option) \<times> world"

definition lockUnresolved :: "int \<Rightarrow> (pg, FailureRow) act" where
  "lockUnresolved i =
     andThen Begin (\<lambda>_.
     andThen (onSql (\<lambda>e. if e = NoRows then failure_unavailable
                         else sqlErrorf (''postgres: lock failure '' @ show_int i @ '': '') e)
                (stmt (lockFailureSQL i))) (\<lambda>f.
     let row = failure_row True f in
     if fr_Resolution row \<noteq> ''unresolved'' then throw failure_unavailable else ret row))"

definition closeLocked :: "int \<Rightarrow> string \<Rightarrow> string \<Rightarrow> go_error option \<Rightarrow> (pg, unit) act" where
  "closeLocked i actor resolution replayErr =
     (if resolution = '''' then
        (case replayErr of
           Some e \<Rightarrow> onSql (sqlErrorf (''postgres: note replay failure '' @ show_int i @ '': ''))
                      (stmt (noteReplayFailureSQL i (sanitizeText (err_text e))))
         | None \<Rightarrow> ret ())
      else onSql (sqlErrorf (''postgres: resolve failure '' @ show_int i @ '': ''))
             (stmt (resolveFailureSQL i resolution actor)))"

definition WithLockedFailure :: "int \<Rightarrow> string \<Rightarrow> replay_fn \<Rightarrow> (world, FailureRow \<times> string) act" where
  "WithLockedFailure i actor fn =
     andThen (onPg (lockUnresolved i)) (\<lambda>row w.
       case fn row w of ((resolution, replayErr), w') \<Rightarrow>
         andThen (onPg (TxRest (closeLocked i actor resolution replayErr)))
           (\<lambda>_. ret (row, resolution)) w')"

text \<open>The operator's loop; one line of output per identifier.\<close>

datatype replay_line =
    Skipped int
  | Errored int go_error
  | StillUnresolved int
  | Resolved int string string

fun is_resolved :: "replay_line \<Rightarrow> bool" where
  "is_resolved (Resolved _ _ _) \<longleftrightarrow> True"
| "is_resolved _ \<longleftrightarrow> False"

definition resolveOne :: "string \<Rightarrow> replay_fn \<Rightarrow> int \<Rightarrow> world \<Rightarrow> replay_line \<times> world" where
  "resolveOne actor fn i w =
     (case WithLockedFailure i actor fn w of
        (Inl e, w') \<Rightarrow>
          (if errors_Is e ErrFailureUnavailable then Skipped i else Errored i e, w')
      | (Inr (row, resolution), w') \<Rightarrow>
          (if resolution = '''' then StillUnresolved i else Resolved i resolution actor, w'))"

fun resolveLines :: "string \<Rightarrow> replay_fn \<Rightarrow> int list \<Rightarrow> world \<Rightarrow> replay_line list \<times> world" where
  "resolveLines actor fn [] w = ([], w)"
| "resolveLines actor fn (i # ids) w =
     (case resolveOne actor fn i w of (l, w1) \<Rightarrow>
      (case resolveLines actor fn ids w1 of (ls, w2) \<Rightarrow> (l # ls, w2)))"

definition resolveAll :: "string \<Rightarrow> replay_fn \<Rightarrow> int list \<Rightarrow> (world, replay_line list) act" where
  "resolveAll actor fn ids w =
     (case resolveLines actor fn ids w of (ls, w') \<Rightarrow>
      (let failed = length (filter (\<lambda>l. \<not> is_resolved l) ls) in
       (if failed > 0
        then Inl (errors_New (show_nat failed @ '' of '' @ show_nat (length ids) @
                   '' failure(s) not resolved''))
        else Inr ls, w')))"

text \<open>\<^verbatim>\<open>discard\<close>: every selected failure is closed without replaying it.\<close>

definition discard :: replay_fn where
  "discard row w = ((''discarded'', None), w)"

section \<open>What recording does\<close>

type_synonym failure_coord = "string \<times> int \<times> int \<times> string"

definition failure_coord :: "IngestionFailure \<Rightarrow> failure_coord" where
  "failure_coord rec = (if_Topic rec, if_Partition rec, if_Offset rec, if_Stage rec)"

definition has_failure :: "failure_coord \<Rightarrow> pg \<Rightarrow> bool" where
  "has_failure k p \<longleftrightarrow> k \<in> failure_key ` set (t_failures (pg_tables p))"

text \<open>A failure row as it was, or with newer attempt data; its identity, age and resolution stay.\<close>

definition failure_updated :: "failures_row \<Rightarrow> failures_row \<Rightarrow> bool" where
  "failure_updated f g \<longleftrightarrow>
     f_id g = f_id f \<and> failure_key g = failure_key f \<and> f_first_failed_at g = f_first_failed_at f \<and>
     f_resolution g = f_resolution f \<and> f_resolved_at g = f_resolved_at f \<and>
     f_resolved_by g = f_resolved_by f"

definition failures_extend :: "tables \<Rightarrow> tables \<Rightarrow> bool" where
  "failures_extend T U \<longleftrightarrow>
     (\<exists>old new. t_failures U = old @ new \<and> list_all2 failure_updated (t_failures T) old \<and>
        length new \<le> 1 \<and> list_all (\<lambda>f. f_resolution f = ''unresolved'') new) \<and>
     U\<lparr>t_failures := [], t_failures_seq := 0\<rparr> = T\<lparr>t_failures := [], t_failures_seq := 0\<rparr>"

lemma failure_updated_refl [simp]: "failure_updated f f"
  by (simp add: failure_updated_def)

lemma failures_extend_refl: "failures_extend T (T\<lparr>t_failures_seq := n\<rparr>)" "failures_extend T T"
  unfolding failures_extend_def
  by (intro conjI exI [of _ "t_failures T"] exI [of _ "[]"]; simp add: list_all2_same)+

lemma failure_key_update [simp]:
  "failure_key (f\<lparr>f_kafka_key := a, f_raw_payload := b, f_payload_sha256 := c, f_error_reason := d,
     f_attempt_count := e, f_last_failed_at := g\<rparr>) = failure_key f"
  by (simp add: failure_key_def)

lemma upsert_extends: "failures_extend T (snd (upsertIngestionFailureSQL rec now T))"
proof -
  let ?upd = "\<lambda>payload. update_where (fails_at (if_Topic rec) (if_Partition rec) (if_Offset rec) (if_Stage rec))
      (\<lambda>f. f\<lparr>f_kafka_key := if_Key rec, f_raw_payload := payload,
             f_payload_sha256 := if_PayloadSHA256 rec, f_error_reason := if_Reason rec,
             f_attempt_count := if_Attempts rec, f_last_failed_at := now\<rparr>) (t_failures T)"
  have "list_all2 failure_updated (t_failures T) (?upd payload)" for payload
    by (auto simp: update_where_def list_all2_map2 list_all2_same failure_updated_def)
  then have "failures_extend T (T\<lparr>t_failures_seq := n, t_failures := ?upd payload\<rparr>)" for n payload
    unfolding failures_extend_def by (intro conjI exI [of _ "?upd payload"] exI [of _ "[]"]) simp_all
  moreover have "failures_extend T (T\<lparr>t_failures_seq := n, t_failures := t_failures T @ [g]\<rparr>)"
    if "f_resolution g = ''unresolved''" for n g
    unfolding failures_extend_def using that
    by (intro conjI exI [of _ "t_failures T"] exI [of _ "[g]"]) (simp_all add: list_all2_same)
  ultimately show ?thesis
    by (simp add: upsertIngestionFailureSQL_def Let_def failures_extend_refl split: option.split)
qed

lemma upsert_tables_ok:
  assumes "tables_ok T"
  shows "tables_ok (snd (upsertIngestionFailureSQL rec now T))"
  using assms
  by (auto simp: upsertIngestionFailureSQL_def Let_def tables_ok_def fails_at_def find_None_iff
      set_update_where failure_key_def image_iff less_imp_le split: option.splits)

lemma upsert_has:
  "upsertIngestionFailureSQL rec now T = (Inr u, U) \<Longrightarrow>
     failure_coord rec \<in> failure_key ` set (t_failures U)"
proof -
  assume r: "upsertIngestionFailureSQL rec now T = (Inr u, U)"
  show ?thesis
  proof (cases "find (fails_at (if_Topic rec) (if_Partition rec) (if_Offset rec) (if_Stage rec)) (t_failures T)")
    case None
    with r show ?thesis
      by (auto simp: upsertIngestionFailureSQL_def Let_def failure_coord_def failure_key_def
          split: if_splits option.splits)
  next
    case (Some f)
    then have "failure_coord rec \<in> set (map failure_key (t_failures T))"
      by (force simp: fails_at_def failure_coord_def dest!: find_Some_in)
    moreover from r Some have "map failure_key (t_failures U) = map failure_key (t_failures T)"
      by (auto simp: upsertIngestionFailureSQL_def Let_def split: if_splits option.splits)
    ultimately show ?thesis by (metis set_map)
  qed
qed

definition stored_failure :: "IngestionFailure \<Rightarrow> IngestionFailure" where
  "stored_failure rec =
     rec\<lparr>if_Attempts := max 1 (if_Attempts rec),
         if_RawPayload := Some (case if_RawPayload rec of None \<Rightarrow> [] | Some b \<Rightarrow> b),
         if_Reason := sanitizeText (if_Reason rec)\<rparr>"

lemma RecordFailure_stmt:
  "RecordFailure rec = onSql (sqlErrorf (''record ingestion failure '' @ if_Topic rec @ ''/'' @
      show_int (if_Partition rec) @ ''@'' @ show_int (if_Offset rec) @ '' stage '' @ if_Stage rec @ '': ''))
     (stmt (upsertIngestionFailureSQL (stored_failure rec)))"
  by (cases rec) (auto simp: RecordFailure_def stored_failure_def max_def Let_def split: option.splits)

lemma failure_coord_stored [simp]: "failure_coord (stored_failure rec) = failure_coord rec"
  by (simp add: failure_coord_def stored_failure_def)

lemma RecordFailure_tables:
  assumes "RecordFailure rec p = (res, p')"
  shows "pg_tables p' = pg_tables p \<or>
    pg_tables p' = snd (upsertIngestionFailureSQL (stored_failure rec) (pg_clock p) (pg_tables p))"
  using assms unfolding RecordFailure_stmt by (auto simp: onSql_def dest: stmt_tables split: prod.splits)

lemma RecordFailure_extends:
  "RecordFailure rec p = (res, p') \<Longrightarrow> failures_extend (pg_tables p) (pg_tables p')"
  using RecordFailure_tables upsert_extends failures_extend_refl(2) by metis

lemma RecordFailure_tables_ok [invariants]:
  "RecordFailure rec p = (res, p') \<Longrightarrow> tables_ok (pg_tables p) \<Longrightarrow> tables_ok (pg_tables p')"
  using RecordFailure_tables upsert_tables_ok by metis

lemma has_failure_extend: "failures_extend T U \<Longrightarrow> k \<in> failure_key ` set (t_failures T) \<Longrightarrow> k \<in> failure_key ` set (t_failures U)"
proof -
  assume e: "failures_extend T U" and k: "k \<in> failure_key ` set (t_failures T)"
  from e obtain old new where o: "t_failures U = old @ new" "list_all2 failure_updated (t_failures T) old"
    by (auto simp: failures_extend_def)
  from o(2) have "map failure_key old = map failure_key (t_failures T)"
    by (induction rule: list_all2_induct) (simp_all add: failure_updated_def)
  with k o(1) show ?thesis by (metis UnCI image_Un set_append set_map)
qed

interpretation failures: failure_log RecordFailure has_failure failure_coord
proof
  fix rec p u p'
  assume "RecordFailure rec p = (Inr u, p')"
  then show "has_failure (failure_coord rec) p'"
    unfolding RecordFailure_stmt by (auto simp: inversion has_failure_def dest!: stmt_InrD upsert_has)
next
  fix rec p res p' k
  assume "RecordFailure rec p = (res, p')" "has_failure k p"
  then show "has_failure k p'"
    unfolding has_failure_def by (rule has_failure_extend [OF RecordFailure_extends])
qed


lemma filter_unique_key:
  "distinct (map key xs) \<Longrightarrow> x \<in> set xs \<Longrightarrow> filter (\<lambda>y. key y = key x) xs = [x]"
proof (induction xs)
  case (Cons y ys)
  show ?case
  proof (cases "x = y")
    case True
    with Cons.prems have "filter (\<lambda>z. key z = key x) ys = []"
      by (auto simp: filter_empty_conv image_iff)
    with True show ?thesis by simp
  next
    case False
    with Cons show ?thesis by (auto simp: image_iff)
  qed
qed simp

text \<open>On a server that answers, every well-formed failure is recorded, whatever its reason or payload.\<close>

lemma upsert_ok:
  assumes "text_ok (if_Topic rec)" "text_ok (if_PayloadSHA256 rec)" "if_Stage rec \<in> stages"
  shows "fst (upsertIngestionFailureSQL (stored_failure rec) now T) = Inr ()"
    and "\<exists>f \<in> set (t_failures (snd (upsertIngestionFailureSQL (stored_failure rec) now T))).
      failure_key f = failure_coord rec \<and> f_error_reason f = sanitizeText (if_Reason rec) \<and>
      f_raw_payload f = (case if_RawPayload rec of None \<Rightarrow> [] | Some b \<Rightarrow> b) \<and>
      f_attempt_count f = max 1 (if_Attempts rec) \<and> f_last_failed_at f = now"
proof -
  have "text_ok (if_Stage rec)"
  proof -
    show ?thesis
      using assms(3) by (auto simp: stages_def byte_def intro!: text_ok_ascii)
  qed
  then have ok: "text_ok (if_Topic (stored_failure rec))" "text_ok (if_PayloadSHA256 (stored_failure rec))"
    "text_ok (if_Stage (stored_failure rec))" "text_ok (if_Reason (stored_failure rec))"
    using assms by (simp_all add: stored_failure_def sanitizeText_def clean_text_ok)
  then show "fst (upsertIngestionFailureSQL (stored_failure rec) now T) = Inr ()"
    using assms(3) by (simp add: upsertIngestionFailureSQL_def Let_def stored_failure_def)
  let ?m = "fails_at (if_Topic rec) (if_Partition rec) (if_Offset rec) (if_Stage rec)"
  show "\<exists>f \<in> set (t_failures (snd (upsertIngestionFailureSQL (stored_failure rec) now T))).
      failure_key f = failure_coord rec \<and> f_error_reason f = sanitizeText (if_Reason rec) \<and>
      f_raw_payload f = (case if_RawPayload rec of None \<Rightarrow> [] | Some b \<Rightarrow> b) \<and>
      f_attempt_count f = max 1 (if_Attempts rec) \<and> f_last_failed_at f = now"
  proof (cases "find ?m (t_failures T)")
    case None
    with ok assms(3) show ?thesis
      by (simp add: upsertIngestionFailureSQL_def Let_def stored_failure_def failure_key_def
          failure_coord_def split: option.splits)
  next
    case (Some f)
    then have f: "f \<in> set (t_failures T)" "?m f" by (auto dest: find_Some_in)
    with Some ok assms(3) show ?thesis
      by (simp add: upsertIngestionFailureSQL_def Let_def stored_failure_def)
         (rule bexI [OF _ in_update_where [where p = ?m, OF f]],
          simp add: fails_at_def failure_coord_def)
  qed
qed

section \<open>Locked replay\<close>

lemma TxRest_Inr:
  assumes "TxRest fn p = (Inr x, q)"
  obtains q1 where "fn p = (Inr x, q1)" "pg_tables q = pg_tables q1" "pg_clock q = pg_clock q1"
  using assms by (auto simp: TxRest_def split: prod.splits sum.splits fault.splits)

lemma Begin_tables: "Begin p = (r, q) \<Longrightarrow> pg_tables q = pg_tables p \<and> pg_clock q = pg_clock p"
  by (auto simp: Begin_def split: prod.splits fault.splits)

lemma lock_read: "stmt (lockFailureSQL i) p = (r, q) \<Longrightarrow> pg_tables q = pg_tables p"
  by (rule stmt_read) (auto simp: lockFailureSQL_def split: option.splits)

lemma lockUnresolved_tables:
  "lockUnresolved i p = (r, q) \<Longrightarrow> pg_tables q = pg_tables p"
  unfolding lockUnresolved_def
  by (erule andThen_keeps [where P = "\<lambda>x. pg_tables x = pg_tables p", rotated 2])
     (auto simp: andThen_def onSql_def Let_def dest!: Begin_tables lock_read
        split: prod.splits sum.splits if_splits)

lemma lockUnresolved_Inr:
  assumes "lockUnresolved i p = (Inr row, q)"
  obtains f where "f \<in> set (t_failures (pg_tables p))" "f_id f = i" "f_resolution f = ''unresolved''"
    "row = failure_row True f"
proof -
  from assms obtain p0 f where b: "Begin p = (Inr (), p0)"
    and l: "stmt (lockFailureSQL i) p0 = (Inr f, q)"
    and u: "f_resolution f = ''unresolved''" "row = failure_row True f"
    by (auto simp: lockUnresolved_def inversion Let_def failure_row_def split: if_splits)
  have "find (\<lambda>f. f_id f = i) (t_failures (pg_tables p)) = Some f"
    using stmt_Inr(1) [OF l] Begin_tables [OF b] by (auto simp: lockFailureSQL_def split: option.splits)
  with that u show thesis by (auto dest: find_Some_in)
qed

text \<open>A failure that is closed, or does not exist, is refused before the replay function is called.\<close>

lemma lockUnresolved_refuses:
  assumes "\<forall>f \<in> set (t_failures (pg_tables p)). f_id f = i \<longrightarrow> f_resolution f \<noteq> ''unresolved''"
  shows "\<exists>e q. lockUnresolved i p = (Inl e, q) \<and> pg_tables q = pg_tables p"
proof (cases "lockUnresolved i p")
  case (Pair r q)
  with assms lockUnresolved_tables [OF Pair] show ?thesis
    by (cases r) (auto elim: lockUnresolved_Inr)
qed

lemma closeLocked_Inr:
  assumes "TxRest (closeLocked i actor resolution e) p = (Inr u, q)" "resolution \<noteq> ''''"
  shows "resolveFailureSQL i resolution actor (pg_clock p) (pg_tables p) = (Inr (), pg_tables q)"
  using assms by (elim TxRest_Inr) (auto simp: closeLocked_def inversion dest!: stmt_InrD)

text \<open>A successful call saw an unresolved row, ran the function once on the tables as they were, and
  closed the row unless the function left it open.\<close>

lemma WithLockedFailure_Inr:
  assumes "WithLockedFailure i actor fn w = (Inr (row, resolution), w')"
  obtains f w1 w2 e where
    "f \<in> set (t_failures (pg_tables (w_pg w)))" "f_id f = i" "f_resolution f = ''unresolved''"
    "row = failure_row True f" "pg_tables (w_pg w1) = pg_tables (w_pg w)" "w_redis w1 = w_redis w"
    "fn row w1 = ((resolution, e), w2)" "w_redis w' = w_redis w2"
    "resolution \<noteq> '''' \<Longrightarrow>
       resolveFailureSQL i resolution actor (pg_clock (w_pg w2)) (pg_tables (w_pg w2)) =
         (Inr (), pg_tables (w_pg w'))"
proof -
  from assms obtain row1 w1 where
      l1: "lockUnresolved i (w_pg w) = (Inr row1, w_pg w1)" "w_redis w1 = w_redis w"
    and rest: "(case fn row1 w1 of ((resolution, replayErr), w2) \<Rightarrow>
         andThen (onPg (TxRest (closeLocked i actor resolution replayErr)))
           (\<lambda>_. ret (row1, resolution)) w2) = (Inr (row, resolution), w')"
    by (auto simp: WithLockedFailure_def andThen_Inr_iff onPg_iff)
  obtain res e w2 where fn1: "fn row1 w1 = ((res, e), w2)" by (metis surj_pair)
  with rest have [simp]: "row1 = row" "res = resolution"
    and t: "TxRest (closeLocked i actor resolution e) (w_pg w2) = (Inr (), w_pg w')" "w_redis w' = w_redis w2"
    by (auto simp: inversion)
  note l = l1 [simplified] and fn = fn1 [simplified]
  obtain f where f: "f \<in> set (t_failures (pg_tables (w_pg w)))" "f_id f = i"
      "f_resolution f = ''unresolved''" "row = failure_row True f"
    using lockUnresolved_Inr [OF l(1)] .
  show thesis
    using that [OF f _ l(2) fn t(2)] lockUnresolved_tables [OF l(1)] closeLocked_Inr [OF t(1)] by blast
qed

definition closed_by :: "string \<Rightarrow> int \<Rightarrow> tables \<Rightarrow> bool" where
  "closed_by actor i T \<longleftrightarrow>
     (\<exists>f \<in> set (t_failures T). f_id f = i \<and> f_resolved_by f = Some actor \<and>
        f_resolution f \<in> {''replayed'', ''discarded''})"


text \<open>\<open>leaves_failures fn\<close>: the replay works on other tables, and does not ask to reopen the failure.\<close>

definition leaves_failures :: "replay_fn \<Rightarrow> bool" where
  "leaves_failures fn \<longleftrightarrow>
     (\<forall>row w r w'. fn row w = (r, w') \<longrightarrow>
        t_failures (pg_tables (w_pg w')) = t_failures (pg_tables (w_pg w)) \<and> fst r \<noteq> ''unresolved'')"

lemma leaves_failuresD:
  assumes "leaves_failures fn" "fn row w = ((resolution, e), w')"
  shows "t_failures (pg_tables (w_pg w')) = t_failures (pg_tables (w_pg w))" "resolution \<noteq> ''unresolved''"
proof -
  from assms(1) [unfolded leaves_failures_def, rule_format, OF assms(2)]
  show "t_failures (pg_tables (w_pg w')) = t_failures (pg_tables (w_pg w))" "resolution \<noteq> ''unresolved''"
    by simp_all
qed

lemma closed_by_update:
  assumes "closed_by actor j T" "\<And>f. f_id (g f) = f_id f"
    and g: "\<And>f. f_resolved_by (g f) = f_resolved_by f \<and> f_resolution (g f) = f_resolution f \<or>
      f_resolved_by (g f) = Some actor \<and> f_resolution (g f) \<in> {''replayed'', ''discarded''}"
    and U: "t_failures U = update_where P g (t_failures T)"
  shows "closed_by actor j U"
proof -
  from assms(1) obtain f where f: "f \<in> set (t_failures T)" "f_id f = j" "f_resolved_by f = Some actor"
      "f_resolution f \<in> {''replayed'', ''discarded''}"
    by (auto simp: closed_by_def)
  have "(if P f then g f else f) \<in> set (t_failures U)"
    using f(1) by (simp add: U update_where_def)
  with f(2-4) assms(2) [of f] g [of f] show ?thesis
    unfolding closed_by_def by (intro bexI [of _ "if P f then g f else f"]) auto
qed

lemma resolve_Inr:
  "resolveFailureSQL i r actor now T = (Inr u, U) \<Longrightarrow> r \<in> {''unresolved'', ''replayed'', ''discarded''} \<and>
     t_failures U = update_where (\<lambda>f. f_id f = i)
       (\<lambda>f. f\<lparr>f_resolution := r, f_resolved_at := Some now, f_resolved_by := Some actor\<rparr>) (t_failures T)"
  unfolding resolveFailureSQL_def by (split if_split_asm; (split if_split_asm)?) auto

lemma note_Inr:
  "noteReplayFailureSQL i y now T = (Inr u, U) \<Longrightarrow>
     t_failures U = update_where (\<lambda>f. f_id f = i)
       (\<lambda>f. f\<lparr>f_error_reason := y, f_last_failed_at := now, f_attempt_count := f_attempt_count f + 1\<rparr>)
       (t_failures T)"
  unfolding noteReplayFailureSQL_def by (split if_split_asm) auto

lemma TxRest_tables:
  "TxRest fn p = (r, q) \<Longrightarrow> pg_tables q = pg_tables p \<or> (\<exists>x q1. fn p = (Inr x, q1) \<and> pg_tables q = pg_tables q1)"
  by (auto simp: TxRest_def split: prod.splits sum.splits fault.splits)

lemma closeLocked_keeps_closed:
  assumes "TxRest (closeLocked i actor resolution e) p = (r, q)" "closed_by actor j (pg_tables p)"
    and "resolution \<noteq> ''unresolved''"
  shows "closed_by actor j (pg_tables q)"
  using TxRest_tables [OF assms(1)]
proof
  assume "pg_tables q = pg_tables p"
  with assms(2) show ?thesis by simp
next
  assume "\<exists>x q1. closeLocked i actor resolution e p = (Inr x, q1) \<and> pg_tables q = pg_tables q1"
  then obtain x q1 where c: "closeLocked i actor resolution e p = (Inr x, q1)" "pg_tables q = pg_tables q1"
    by blast
  then consider "pg_tables q = pg_tables p"
    | y where "noteReplayFailureSQL i y (pg_clock p) (pg_tables p) = (Inr (), pg_tables q)"
    | "resolveFailureSQL i resolution actor (pg_clock p) (pg_tables p) = (Inr (), pg_tables q)"
    by (auto simp: closeLocked_def inversion dest!: stmt_InrD split: if_splits option.splits)
  then show ?thesis
  proof cases
    case 1
    with assms(2) show ?thesis by simp
  next
    case 2
    show ?thesis by (rule closed_by_update [OF assms(2) _ _ note_Inr [OF 2]]) simp_all
  next
    case 3
    from resolve_Inr [OF 3] assms(3) show ?thesis
      by (intro closed_by_update [OF assms(2) _ _ conjunct2 [OF resolve_Inr [OF 3]]]) simp_all
  qed
qed

lemma closed_by_frame:
  "t_failures U = t_failures T \<Longrightarrow> closed_by actor j U = closed_by actor j T"
  by (simp add: closed_by_def)

lemma WithLockedFailure_keeps_closed:
  assumes "leaves_failures fn" "closed_by actor j (pg_tables (w_pg w))"
    and "WithLockedFailure i actor fn w = (res, w')"
  shows "closed_by actor j (pg_tables (w_pg w'))"
proof (cases "lockUnresolved i (w_pg w)")
  case (Pair r p1)
  have p1: "pg_tables p1 = pg_tables (w_pg w)" using Pair by (rule lockUnresolved_tables)
  let ?w1 = "w\<lparr>w_pg := p1\<rparr>"
  show ?thesis
  proof (cases r)
    case (Inl e)
    with assms(3) Pair have "w' = ?w1" by (simp add: WithLockedFailure_def andThen_def onPg_def)
    with assms(2) p1 show ?thesis by simp
  next
    case (Inr row)
    obtain resolution e w2 where fn: "fn row ?w1 = ((resolution, e), w2)"
      by (metis surj_pair)
    have w2: "closed_by actor j (pg_tables (w_pg w2))" "resolution \<noteq> ''unresolved''"
      using leaves_failuresD [OF assms(1) fn] assms(2) p1 by (simp_all add: closed_by_def)
    from assms(3) Pair Inr fn obtain s q where
        "TxRest (closeLocked i actor resolution e) (w_pg w2) = (s, q)" "w_pg w' = q"
      by (cases "TxRest (closeLocked i actor resolution e) (w_pg w2)")
         (auto simp: WithLockedFailure_def andThen_def onPg_def split: sum.splits)
    with closeLocked_keeps_closed [OF _ w2] show ?thesis by simp
  qed
qed

lemma WithLockedFailure_closes:
  assumes "leaves_failures fn" "WithLockedFailure i actor fn w = (Inr (row, resolution), w')"
    and "resolution \<noteq> ''''"
  shows "closed_by actor i (pg_tables (w_pg w'))"
proof -
  obtain f w1 w2 e where f: "f \<in> set (t_failures (pg_tables (w_pg w)))" "f_id f = i"
    and t1: "pg_tables (w_pg w1) = pg_tables (w_pg w)"
    and fn: "fn row w1 = ((resolution, e), w2)"
    and r: "resolveFailureSQL i resolution actor (pg_clock (w_pg w2)) (pg_tables (w_pg w2)) =
         (Inr (), pg_tables (w_pg w'))"
    using WithLockedFailure_Inr [OF assms(2)] assms(3) by metis
  have f2: "f \<in> set (t_failures (pg_tables (w_pg w2)))" and res: "resolution \<noteq> ''unresolved''"
    using leaves_failuresD [OF assms(1) fn] f t1 by simp_all
  note upd = resolve_Inr [OF r]
  let ?g = "\<lambda>f. f\<lparr>f_resolution := resolution, f_resolved_at := Some (pg_clock (w_pg w2)),
    f_resolved_by := Some actor\<rparr>"
  have "?g f \<in> set (t_failures (pg_tables (w_pg w')))"
    using upd in_update_where [OF f2, of "\<lambda>f. f_id f = i" ?g] f(2) by simp
  moreover have "resolution \<in> {''replayed'', ''discarded''}" using upd res by blast
  ultimately show ?thesis
    unfolding closed_by_def using f(2) by (intro bexI [of _ "?g f"]) simp_all
qed

lemma resolveOne_resolved:
  assumes "leaves_failures fn" "resolveOne actor fn i w = (l, w')" "is_resolved l"
  shows "closed_by actor i (pg_tables (w_pg w'))"
    and "\<exists>f \<in> set (t_failures (pg_tables (w_pg w))). f_id f = i \<and> f_resolution f = ''unresolved''"
proof -
  from assms(2,3) obtain row resolution where
      c: "WithLockedFailure i actor fn w = (Inr (row, resolution), w')" "resolution \<noteq> ''''"
    by (auto simp: resolveOne_def split: prod.splits sum.splits if_splits)
  show "closed_by actor i (pg_tables (w_pg w'))" using assms(1) c by (rule WithLockedFailure_closes)
  from WithLockedFailure_Inr [OF c(1)]
  show "\<exists>f \<in> set (t_failures (pg_tables (w_pg w))). f_id f = i \<and> f_resolution f = ''unresolved''"
    by blast
qed

lemma resolveOne_keeps_closed:
  assumes "leaves_failures fn" "resolveOne actor fn i w = (l, w')" "closed_by actor j (pg_tables (w_pg w))"
  shows "closed_by actor j (pg_tables (w_pg w'))"
proof -
  obtain res where "WithLockedFailure i actor fn w = (res, w')"
    using assms(2) by (auto simp: resolveOne_def split: prod.splits sum.splits)
  with assms(1,3) show ?thesis by (rule WithLockedFailure_keeps_closed)
qed

lemma resolveLines_keeps_closed:
  "leaves_failures fn \<Longrightarrow> resolveLines actor fn ids w = (ls, w') \<Longrightarrow>
   closed_by actor j (pg_tables (w_pg w)) \<Longrightarrow> closed_by actor j (pg_tables (w_pg w'))"
proof (induction ids arbitrary: w ls)
  case (Cons i ids)
  then show ?case by (auto split: prod.splits dest: resolveOne_keeps_closed)
qed simp

text \<open>Identifiers are unique, so a failure that is closed is not open as well.\<close>

lemma closed_not_open:
  assumes "distinct (map f_id (t_failures T))" "closed_by actor i T"
  shows "\<not> (\<exists>f \<in> set (t_failures T). f_id f = i \<and> f_resolution f = ''unresolved'')"
proof
  assume "\<exists>f \<in> set (t_failures T). f_id f = i \<and> f_resolution f = ''unresolved''"
  then obtain f where f: "f \<in> set (t_failures T)" "f_id f = i" "f_resolution f = ''unresolved''" by blast
  from assms(2) obtain g where g: "g \<in> set (t_failures T)" "f_id g = i"
      "f_resolution g \<in> {''replayed'', ''discarded''}"
    by (auto simp: closed_by_def)
  have "f = g" using distinct_key_eq [OF assms(1) f(1) g(1)] f(2) g(2) by simp
  with f(3) g(3) show False by simp
qed

lemma WithLockedFailure_ids:
  assumes "leaves_failures fn" "WithLockedFailure i actor fn w = (res, w')"
  shows "map f_id (t_failures (pg_tables (w_pg w'))) = map f_id (t_failures (pg_tables (w_pg w)))"
proof (cases "lockUnresolved i (w_pg w)")
  case (Pair r p1)
  have p1: "pg_tables p1 = pg_tables (w_pg w)" using Pair by (rule lockUnresolved_tables)
  let ?w1 = "w\<lparr>w_pg := p1\<rparr>"
  show ?thesis
  proof (cases r)
    case (Inl e)
    with assms(2) Pair have "w' = ?w1" by (simp add: WithLockedFailure_def andThen_def onPg_def)
    with p1 show ?thesis by simp
  next
    case (Inr row)
    obtain resolution e w2 where fn: "fn row ?w1 = ((resolution, e), w2)" by (metis surj_pair)
    have w2: "t_failures (pg_tables (w_pg w2)) = t_failures (pg_tables (w_pg w))"
      using leaves_failuresD(1) [OF assms(1) fn] p1 by simp
    from assms(2) Pair Inr fn obtain s q where
        t: "TxRest (closeLocked i actor resolution e) (w_pg w2) = (s, q)" "w_pg w' = q"
      by (cases "TxRest (closeLocked i actor resolution e) (w_pg w2)")
         (auto simp: WithLockedFailure_def andThen_def onPg_def split: sum.splits)
    have "map f_id (t_failures (pg_tables q)) = map f_id (t_failures (pg_tables (w_pg w2)))"
      using TxRest_tables [OF t(1)]
      by (auto simp: closeLocked_def inversion dest!: stmt_InrD note_Inr resolve_Inr
          split: if_splits option.splits)
    with w2 t(2) show ?thesis by simp
  qed
qed

lemma resolveOne_ids:
  assumes "leaves_failures fn" "resolveOne actor fn i w = (l, w')"
  shows "map f_id (t_failures (pg_tables (w_pg w'))) = map f_id (t_failures (pg_tables (w_pg w)))"
proof -
  obtain res where "WithLockedFailure i actor fn w = (res, w')"
    using assms(2) by (auto simp: resolveOne_def split: prod.splits sum.splits)
  with assms(1) show ?thesis by (rule WithLockedFailure_ids)
qed

lemma resolveLines_all:
  "leaves_failures fn \<Longrightarrow> distinct (map f_id (t_failures (pg_tables (w_pg w)))) \<Longrightarrow>
   resolveLines actor fn ids w = (ls, w') \<Longrightarrow> list_all is_resolved ls \<Longrightarrow>
   (\<forall>i \<in> set ids. closed_by actor i (pg_tables (w_pg w'))) \<and> distinct ids \<and>
   (\<forall>i \<in> set ids. \<exists>f \<in> set (t_failures (pg_tables (w_pg w))). f_id f = i) \<and>
   (\<forall>i. closed_by actor i (pg_tables (w_pg w)) \<longrightarrow> i \<notin> set ids)"
proof (induction ids arbitrary: w ls)
  case (Cons i ids)
  from Cons.prems(3) obtain l w1 ms where one: "resolveOne actor fn i w = (l, w1)"
    and rest: "resolveLines actor fn ids w1 = (ms, w')" and ls: "ls = l # ms"
    by (auto split: prod.splits)
  have ids: "map f_id (t_failures (pg_tables (w_pg w1))) = map f_id (t_failures (pg_tables (w_pg w)))"
    using Cons.prems(1) one by (rule resolveOne_ids)
  note res = resolveOne_resolved [OF Cons.prems(1) one]
  have l: "is_resolved l" "list_all is_resolved ms" using Cons.prems(4) ls by simp_all
  have IH: "(\<forall>i \<in> set ids. closed_by actor i (pg_tables (w_pg w'))) \<and> distinct ids \<and>
     (\<forall>i \<in> set ids. \<exists>f \<in> set (t_failures (pg_tables (w_pg w1))). f_id f = i) \<and>
     (\<forall>i. closed_by actor i (pg_tables (w_pg w1)) \<longrightarrow> i \<notin> set ids)"
    using Cons.prems(2) ids by (intro Cons.IH [OF Cons.prems(1) _ rest l(2)]) simp
  have "closed_by actor i (pg_tables (w_pg w'))"
    using resolveLines_keeps_closed [OF Cons.prems(1) rest] res(1) l by blast
  moreover have "i \<notin> set ids" using IH res(1) l by blast
  moreover have "f_id ` set (t_failures (pg_tables (w_pg w1))) = f_id ` set (t_failures (pg_tables (w_pg w)))"
    using ids by (metis set_map)
  then have "\<exists>f \<in> set (t_failures (pg_tables (w_pg w))). f_id f = k" if "k \<in> set ids" for k
    using IH that by (metis image_iff)
  moreover have "j \<notin> set (i # ids)" if "closed_by actor j (pg_tables (w_pg w))" for j
    using that IH resolveOne_keeps_closed [OF Cons.prems(1) one that]
      closed_not_open [OF Cons.prems(2) that] res(2) l by auto
  ultimately show ?case using IH res(2) l by auto
qed simp

section \<open>Properties\<close>

definition sample_failure :: IngestionFailure where
  "sample_failure =
     \<lparr>if_Topic = ''t'', if_Partition = 0, if_Offset = 7, if_Key = None, if_RawPayload = None,
      if_PayloadSHA256 = ''00'', if_Stage = ''decode'', if_Reason = ''bad'', if_Attempts = 0\<rparr>"

definition sample_failures :: tables where
  "sample_failures = snd (upsertIngestionFailureSQL (stored_failure sample_failure) 5 sample_tables)"

lemma sample_failure_ok: "text_ok (if_Topic sample_failure)" "text_ok (if_PayloadSHA256 sample_failure)"
  "if_Stage sample_failure \<in> stages"
  by (auto simp: sample_failure_def stages_def byte_def intro!: text_ok_ascii)

text \<open>
  C11. \<^verbatim>\<open>RecordFailure\<close> on a server that answers succeeds for every failure whose topic and digest are
  storable text and whose stage is one the schema knows, whatever the reason, payload or attempt count
  are.  Afterwards exactly one row has the failure's topic, partition, offset and stage; it holds the
  cleaned reason, the payload (empty for a tombstone), at least one attempt and the current time, and no
  other row has changed its identity, its first failure time or its resolution.
\<close>

theorem RecordFailure_outcome:
  assumes "pg_quiet p" "tables_ok (pg_tables p)"
    and "text_ok (if_Topic rec)" "text_ok (if_PayloadSHA256 rec)" "if_Stage rec \<in> stages"
  shows "\<exists>p' f. RecordFailure rec p = (Inr (), p') \<and> tables_ok (pg_tables p') \<and>
    filter (\<lambda>f. failure_key f = failure_coord rec) (t_failures (pg_tables p')) = [f] \<and>
    f_error_reason f = sanitizeText (if_Reason rec) \<and>
    f_raw_payload f = (case if_RawPayload rec of None \<Rightarrow> [] | Some b \<Rightarrow> b) \<and>
    f_attempt_count f = max 1 (if_Attempts rec) \<and> f_last_failed_at f = pg_clock p \<and>
    failures_extend (pg_tables p) (pg_tables p')"
proof -
  let ?q = "upsertIngestionFailureSQL (stored_failure rec) (pg_clock p) (pg_tables p)"
  let ?p' = "p\<lparr>pg_tables := snd ?q\<rparr>"
  note ok = upsert_ok [OF assms(3-5), where now = "pg_clock p" and T = "pg_tables p"]
  have r: "RecordFailure rec p = (Inr (), ?p')"
    using assms(1) ok(1) by (simp add: RecordFailure_stmt onSql_stmt_quiet)
  have t: "tables_ok (pg_tables ?p')" using r assms(2) by (rule RecordFailure_tables_ok)
  from ok(2) obtain f where f: "f \<in> set (t_failures (snd ?q))" "failure_key f = failure_coord rec"
    "f_error_reason f = sanitizeText (if_Reason rec)"
    "f_raw_payload f = (case if_RawPayload rec of None \<Rightarrow> [] | Some b \<Rightarrow> b)"
    "f_attempt_count f = max 1 (if_Attempts rec)" "f_last_failed_at f = pg_clock p"
    by blast
  have "filter (\<lambda>g. failure_key g = failure_coord rec) (t_failures (snd ?q)) = [f]"
    using filter_unique_key [of failure_key "t_failures (snd ?q)" f] t f(1,2) by (simp add: tables_ok_def)
  with r t f(3-6) RecordFailure_extends [OF r] show ?thesis by auto
qed

theorem RecordFailure_outcome_witness:
  "\<exists>p' f. RecordFailure sample_failure (quiet_pg sample_tables 5) = (Inr (), p') \<and> tables_ok (pg_tables p') \<and>
    filter (\<lambda>f. failure_key f = failure_coord sample_failure) (t_failures (pg_tables p')) = [f] \<and>
    f_error_reason f = sanitizeText ''bad'' \<and> f_raw_payload f = [] \<and>
    f_attempt_count f = 1 \<and> f_last_failed_at f = 5 \<and>
    failures_extend sample_tables (pg_tables p')"
  using RecordFailure_outcome [of "quiet_pg sample_tables 5" sample_failure] sample_failure_ok sample_tables_ok
  by (simp add: sample_failure_def)

text \<open>
  C12. Whatever faults interrupt a sequence of recordings, a failure that was on record stays on record,
  and every recording that reported success is on record at the end: a worker that commits a failed
  record's offset after \<^verbatim>\<open>RecordFailure\<close> succeeded has not lost it.
\<close>

theorem recorded_failures_survive:
  assumes "deliver RecordFailure recs p = (out, p')"
  shows "(\<forall>k. has_failure k p \<longrightarrow> has_failure k p') \<and>
    list_all2 (\<lambda>rec res. \<not> isl res \<longrightarrow> has_failure (failure_coord rec) p') recs out"
  using failures.deliver_kept [OF assms] failures.deliver_logged [OF assms] by blast

theorem recorded_failures_survive_witness:
  "\<exists>out p'. deliver RecordFailure [sample_failure] \<lparr>pg_tables = sample_tables, pg_faults = [Lost CtxDeadline], pg_clock = 5\<rparr>
      = (out, p') \<and> list_all isl out \<and>
    (\<forall>k. has_failure k (quiet_pg sample_tables 5) \<longrightarrow> has_failure k p') \<and>
    list_all2 (\<lambda>rec res. \<not> isl res \<longrightarrow> has_failure (failure_coord rec) p') [sample_failure] out"
proof -
  let ?p = "\<lparr>pg_tables = sample_tables, pg_faults = [Lost CtxDeadline], pg_clock = 5\<rparr>"
  obtain out p' where d: "deliver RecordFailure [sample_failure] ?p = (out, p')" by force
  from d have "list_all isl out"
    by (auto simp: RecordFailure_stmt onSql_def stmt_def split: prod.splits)
  with d recorded_failures_survive [OF d] show ?thesis by (auto simp: has_failure_def)
qed

text \<open>
  Recording never reopens, closes or re-dates a failure: under any faults the rows there were keep
  their identifier, key, first failure time and resolution, at most one unresolved row is added, and no
  other table changes.  In particular a failure the operator has closed stays closed when the same
  record fails again.
\<close>

theorem RecordFailure_never_reopens:
  "failures_extend (pg_tables p) (pg_tables (snd (RecordFailure rec p)))"
  using RecordFailure_extends [of rec p] by (metis prod.collapse)



text \<open>
  When the operator command reports success, every selected failure existed, was named once, and
  is now closed in that operator's name; the replay function leaves the failure table to the
  transaction that holds the lock.
\<close>

theorem resolveAll_closes_all:
  assumes "leaves_failures fn" "tables_ok (pg_tables (w_pg w))"
    and "resolveAll actor fn ids w = (Inr ls, w')"
  shows "distinct ids \<and> length ls = length ids \<and> (\<forall>i \<in> set ids. closed_by actor i (pg_tables (w_pg w')) \<and>
    (\<exists>f \<in> set (t_failures (pg_tables (w_pg w))). f_id f = i))"
proof -
  from assms(3) have r: "resolveLines actor fn ids w = (ls, w')" and
      n: "length (filter (\<lambda>l. \<not> is_resolved l) ls) = 0"
    by (auto simp: resolveAll_def Let_def split: prod.splits if_splits)
  from n have "list_all is_resolved ls" by (simp add: filter_empty_conv list_all_iff)
  moreover have "length ls = length ids"
    using r by (induction ids arbitrary: w ls) (auto split: prod.splits)
  ultimately show ?thesis
    using resolveLines_all [OF assms(1) _ r] assms(2) by (auto simp: tables_ok_def)
qed

lemma discard_leaves: "leaves_failures discard"
  by (simp add: leaves_failures_def discard_def)

lemma sample_failures_rows:
  "map f_id (t_failures sample_failures) = [1]" "map f_resolution (t_failures sample_failures) = [''unresolved'']"
  "tables_ok sample_failures"
proof -
  have ok: "text_ok (if_Stage (stored_failure sample_failure))" "text_ok (if_Topic (stored_failure sample_failure))"
    "text_ok (if_PayloadSHA256 (stored_failure sample_failure))" "text_ok (if_Reason (stored_failure sample_failure))"
    using clean_text_ok
    by (auto simp: sample_failure_def stored_failure_def sanitizeText_def byte_def intro!: text_ok_ascii)
  have "stored_failure sample_failure = sample_failure\<lparr>if_Attempts := 1, if_RawPayload := Some [],
      if_Reason := sanitizeText ''bad''\<rparr>"
    by (simp add: sample_failure_def stored_failure_def)
  with ok show "map f_id (t_failures sample_failures) = [1]"
      "map f_resolution (t_failures sample_failures) = [''unresolved'']"
    by (simp_all add: sample_failures_def upsertIngestionFailureSQL_def Let_def sample_tables_def
        empty_tables_def sample_failure_def stages_def)
  show "tables_ok sample_failures"
    unfolding sample_failures_def using sample_tables_ok(2) by (rule upsert_tables_ok)
qed

lemma sample_discard:
  "\<exists>ls w'. resolveAll ''op'' discard [1] \<lparr>w_pg = quiet_pg sample_failures 9, w_redis = empty_redis []\<rparr> = (Inr ls, w')"
proof -
  let ?w = "\<lparr>w_pg = quiet_pg sample_failures 9, w_redis = empty_redis []\<rparr>"
  obtain f where f: "t_failures sample_failures = [f]" "f_id f = 1" "f_resolution f = ''unresolved''"
    using sample_failures_rows(1,2) by auto
  have op: "text_ok ''op''" by (simp add: text_ok_ascii byte_def)
  have "lockUnresolved 1 (quiet_pg sample_failures 9) = (Inr (failure_row True f), quiet_pg sample_failures 9)"
    by (simp add: lockUnresolved_def andThen_def Begin_def onSql_def stmt_def lockFailureSQL_def f
        failure_row_def quiet_pg_def)
  then have "\<exists>w'. WithLockedFailure 1 ''op'' discard ?w = (Inr (failure_row True f, ''discarded''), w')"
    by (simp add: WithLockedFailure_def andThen_def onPg_def discard_def TxRest_def closeLocked_def onSql_def
        stmt_def resolveFailureSQL_def op)
  then show ?thesis by (auto simp: resolveAll_def resolveOne_def)
qed

text \<open>
  A failure that is already closed, or does not exist, is refused before anything is replayed: the
  handler is not called and neither store changes.
\<close>

theorem WithLockedFailure_refuses_closed:
  assumes "\<forall>f \<in> set (t_failures (pg_tables (w_pg w))). f_id f = i \<longrightarrow> f_resolution f \<noteq> ''unresolved''"
  shows "\<exists>e p. WithLockedFailure i actor fn w = (Inl e, w\<lparr>w_pg := p\<rparr>) \<and> pg_tables p = pg_tables (w_pg w)"
  using lockUnresolved_refuses [OF assms] by (auto simp: WithLockedFailure_def andThen_def onPg_def)

theorem WithLockedFailure_refuses_closed_witness:
  "\<exists>e p. WithLockedFailure 4 ''op'' discard \<lparr>w_pg = quiet_pg sample_failures 9, w_redis = empty_redis []\<rparr> =
     (Inl e, \<lparr>w_pg = p, w_redis = empty_redis []\<rparr>) \<and> pg_tables p = sample_failures"
proof -
  obtain f where f: "t_failures sample_failures = [f]" "f_id f = 1"
    using sample_failures_rows(1) by auto
  show ?thesis
    using WithLockedFailure_refuses_closed [of "\<lparr>w_pg = quiet_pg sample_failures 9, w_redis = empty_redis []\<rparr>" 4
        "''op''" discard] by (simp add: f)
qed

end
