(* ===== verification/HouseRegistry.thy ===== *)
theory HouseRegistry
  imports World GoStd
begin

text \<open>
  \<^verbatim>\<open>internal/store/postgres/house_registry.go\<close> and the \<^verbatim>\<open>register-houses\<close> command: the only way a house
  enters \<^verbatim>\<open>iot_data.houses\<close>.  Registration is idempotent and never changes a house that exists.
\<close>

section \<open>Registration\<close>

record HouseRegistration =
  hr_HouseID :: string
  hr_GridID :: string
  hr_MeterID :: string
  hr_DeviceClass :: DeviceClass
  hr_RatedSolarKw :: "float64 option"

datatype RegistrationOutcome = HouseCreated | HouseUnchanged

text \<open>The column constraints of the houses table (migrations 00002 and 00009).\<close>

definition house_checks :: "HouseRegistration \<Rightarrow> bool" where
  "house_checks h \<longleftrightarrow>
     hr_DeviceClass h \<in> {''consumer'', ''residential_prosumer'', ''commercial''} \<and>
     (case hr_RatedSolarKw h of None \<Rightarrow> True | Some v \<Rightarrow> pg_le (Fin 0) v) \<and>
     hr_HouseID h \<noteq> '''' \<and> hr_MeterID h \<noteq> ''''"

text \<open>
  The insert reports the number of rows.  Check constraints are tested on the new row first, then the
  arbiter index of the conflict clause, then the other unique index, and the reference to the grid at
  the end of the statement.  The liveness column has the default \<^verbatim>\<open>now()\<close>.
\<close>

definition insertHouseSQL :: "HouseRegistration \<Rightarrow> int \<Rightarrow> tables \<Rightarrow> (sql_error + nat) \<times> tables" where
  "insertHouseSQL h now T =
     (if \<not> (text_ok (hr_HouseID h) \<and> text_ok (hr_GridID h) \<and> text_ok (hr_MeterID h) \<and>
            text_ok (hr_DeviceClass h))
      then (Inl (PgError ''22021'' ''invalid byte sequence for encoding''), T)
      else if \<not> house_checks h
      then (Inl (PgError pgCheckViolation ''new row violates check constraint''), T)
      else if list_ex (\<lambda>r. h_house_id r = hr_HouseID h) (t_houses T) then (Inr 0, T)
      else if list_ex (\<lambda>r. h_meter_id r = Some (hr_MeterID h)) (t_houses T)
      then (Inl (PgError pgUniqueViolation ''duplicate key value violates unique constraint''), T)
      else if \<not> list_ex (\<lambda>g. g_grid_id g = hr_GridID h) (t_grids T)
      then (Inl (PgError pgForeignKeyViolation ''insert violates foreign key constraint''), T)
      else (Inr 1, T\<lparr>t_houses := t_houses T @
             [\<lparr>h_house_id = hr_HouseID h, h_grid_id = hr_GridID h, h_meter_id = Some (hr_MeterID h),
               h_device_class = hr_DeviceClass h, h_rated_solar_kw = hr_RatedSolarKw h,
               h_last_heartbeat_at = now\<rparr>]\<rparr>))"

definition selectRegisteredHouseSQL ::
    "string \<Rightarrow> int \<Rightarrow> tables \<Rightarrow> (sql_error + string \<times> string option \<times> string) \<times> tables" where
  "selectRegisteredHouseSQL houseID now T =
     (case find (\<lambda>r. h_house_id r = houseID) (t_houses T) of
        None \<Rightarrow> (Inl NoRows, T)
      | Some r \<Rightarrow> (Inr (h_grid_id r, h_meter_id r, h_device_class r), T))"

definition insert_error :: "HouseRegistration \<Rightarrow> sql_error \<Rightarrow> go_error" where
  "insert_error h e =
     (let wrapped = sqlErrorf (''register house '' @ go_quote (hr_HouseID h) @ '': '') e in
      case e of
        PgError code _ \<Rightarrow>
          if code = pgForeignKeyViolation
          then sentinel_error ErrGridNotProvisioned
                 (''domain: grid is not provisioned: grid '' @ go_quote (hr_GridID h))
          else if code = pgUniqueViolation
          then sentinel_error ErrHouseIdentity
                 (''domain: house identity does not match registration: meter '' @ go_quote (hr_MeterID h) @
                  '' is already registered to another house'')
          else wrapped
      | _ \<Rightarrow> wrapped)"

definition refuse_change ::
    "HouseRegistration \<Rightarrow> string \<Rightarrow> string option \<Rightarrow> string \<Rightarrow> go_error" where
  "refuse_change h gridID meterID deviceClass =
     (let existingMeter = (case meterID of None \<Rightarrow> ''<none>'' | Some m \<Rightarrow> m) in
      sentinel_error ErrHouseIdentity
        (''domain: house identity does not match registration: house '' @ go_quote (hr_HouseID h) @ '' is registered as grid '' @
         go_quote gridID @ '' meter '' @ go_quote existingMeter @ '' class '' @ go_quote deviceClass @
         ''; refusing to change it to grid '' @ go_quote (hr_GridID h) @ '' meter '' @
         go_quote (hr_MeterID h) @ '' class '' @ go_quote (hr_DeviceClass h)))"

definition registerHouse :: "HouseRegistration \<Rightarrow> (pg, RegistrationOutcome) act" where
  "registerHouse h =
     andThen (onSql (insert_error h) (stmt (insertHouseSQL h))) (\<lambda>rows.
     if rows = 1 then ret HouseCreated
     else andThen (onSql (sqlErrorf (''load registration of house '' @ go_quote (hr_HouseID h) @ '': ''))
                     (stmt (selectRegisteredHouseSQL (hr_HouseID h)))) (\<lambda>(gridID, meterID, deviceClass).
       if gridID \<noteq> hr_GridID h \<or> meterID = None \<or> meterID \<noteq> Some (hr_MeterID h) \<or>
          deviceClass \<noteq> hr_DeviceClass h
       then throw (refuse_change h gridID meterID deviceClass)
       else ret HouseUnchanged))"

definition RegisterHouse :: "HouseRegistration \<Rightarrow> (pg, RegistrationOutcome) act" where
  "RegisterHouse h = BeginFunc (registerHouse h)"

section \<open>The command\<close>

record entry =
  en_HouseID :: string
  en_GridID :: string
  en_MeterID :: string
  en_DeviceClass :: string
  en_RatedSolarKw :: "float64 option"

definition maxEntries :: nat where
  "maxEntries = 10000"

definition registration_of :: "entry \<Rightarrow> DeviceClass \<Rightarrow> HouseRegistration" where
  "registration_of e class =
     \<lparr>hr_HouseID = en_HouseID e, hr_GridID = en_GridID e, hr_MeterID = en_MeterID e,
      hr_DeviceClass = class, hr_RatedSolarKw = en_RatedSolarKw e\<rparr>"

text \<open>
  The loop of \<^verbatim>\<open>validate\<close>: the index of the entry, the map of houses seen, and the result, which is
  the accepted registrations and the errors in order.
\<close>

fun validateLoop ::
    "nat \<Rightarrow> (string \<rightharpoonup> HouseRegistration) \<Rightarrow> entry list \<Rightarrow> HouseRegistration list \<times> go_error list" where
  "validateLoop i seen [] = ([], [])"
| "validateLoop i seen (e # es) =
     (case ValidateHouseIdentity (en_GridID e) (en_HouseID e) (en_MeterID e) (en_DeviceClass e) of
        Inl err \<Rightarrow>
          (case validateLoop (i + 1) seen es of (out, errs) \<Rightarrow>
             (out, Errorf_w (''entry '' @ show_nat (i + 1) @ '' ('' @ en_HouseID e @ ''): '') err # errs))
      | Inr class \<Rightarrow>
          (let h = registration_of e class in
           case seen (hr_HouseID h) of
             Some prev \<Rightarrow>
               (case validateLoop (i + 1) seen es of (out, errs) \<Rightarrow>
                  (out, if hr_GridID prev \<noteq> hr_GridID h \<or> hr_MeterID prev \<noteq> hr_MeterID h \<or>
                           hr_DeviceClass prev \<noteq> hr_DeviceClass h
                        then errors_New (''entry '' @ show_nat (i + 1) @ '': house '' @ hr_HouseID h @
                               '' appears twice with different identities'') # errs
                        else errs))
           | None \<Rightarrow>
               (case validateLoop (i + 1) (seen(hr_HouseID h \<mapsto> h)) es of (out, errs) \<Rightarrow>
                  (h # out, errs))))"

definition validate :: "entry list \<Rightarrow> go_error + HouseRegistration list" where
  "validate entries =
     (if entries = [] then Inl (errors_New ''no houses in input'')
      else if length entries > maxEntries
      then Inl (errors_New (''at most '' @ show_nat maxEntries @ '' entries per run''))
      else case validateLoop 0 Map.empty entries of (out, errs) \<Rightarrow>
        (case errors_Join errs of Some e \<Rightarrow> Inl e | None \<Rightarrow> Inr out))"

text \<open>\<^verbatim>\<open>run\<close> after the file has been read: created, unchanged and refused counts, and the result.\<close>

record register_counts =
  rc_created :: nat
  rc_unchanged :: nat
  rc_refused :: nat

fun registerLoop :: "HouseRegistration list \<Rightarrow> register_counts \<Rightarrow> pg \<Rightarrow> register_counts \<times> pg" where
  "registerLoop [] c p = (c, p)"
| "registerLoop (h # hs) c p =
     (case RegisterHouse h p of (r, p') \<Rightarrow>
        registerLoop hs
          (case r of
             Inl _ \<Rightarrow> c\<lparr>rc_refused := rc_refused c + 1\<rparr>
           | Inr HouseCreated \<Rightarrow> c\<lparr>rc_created := rc_created c + 1\<rparr>
           | Inr HouseUnchanged \<Rightarrow> c\<lparr>rc_unchanged := rc_unchanged c + 1\<rparr>) p')"

definition registerRun :: "bool \<Rightarrow> entry list \<Rightarrow> (pg, register_counts) act" where
  "registerRun dryRun entries =
     andThen (liftE (validate entries)) (\<lambda>houses p.
       if dryRun then ret \<lparr>rc_created = 0, rc_unchanged = 0, rc_refused = 0\<rparr> p
       else case registerLoop houses \<lparr>rc_created = 0, rc_unchanged = 0, rc_refused = 0\<rparr> p of (c, p') \<Rightarrow>
         if rc_refused c > 0
         then throw (errors_New (show_nat (rc_refused c) @ '' house(s) were not registered'')) p'
         else ret c p')"

section \<open>What registration does\<close>

definition house_row_of :: "HouseRegistration \<Rightarrow> int \<Rightarrow> houses_row" where
  "house_row_of h now =
     \<lparr>h_house_id = hr_HouseID h, h_grid_id = hr_GridID h, h_meter_id = Some (hr_MeterID h),
      h_device_class = hr_DeviceClass h, h_rated_solar_kw = hr_RatedSolarKw h,
      h_last_heartbeat_at = now\<rparr>"

text \<open>\<open>registered h T\<close>: the house is on record with the identity of \<open>h\<close>.\<close>

definition registered :: "HouseRegistration \<Rightarrow> tables \<Rightarrow> bool" where
  "registered h T \<longleftrightarrow>
     (\<exists>r \<in> set (t_houses T). h_house_id r = hr_HouseID h \<and> h_grid_id r = hr_GridID h \<and>
        h_meter_id r = Some (hr_MeterID h) \<and> h_device_class r = hr_DeviceClass h)"

definition house_exists :: "HouseRegistration \<Rightarrow> tables \<Rightarrow> bool" where
  "house_exists h T \<longleftrightarrow> (\<exists>r \<in> set (t_houses T). h_house_id r = hr_HouseID h)"

definition meter_taken :: "HouseRegistration \<Rightarrow> tables \<Rightarrow> bool" where
  "meter_taken h T \<longleftrightarrow> (\<exists>r \<in> set (t_houses T). h_meter_id r = Some (hr_MeterID h))"

definition grid_known :: "HouseRegistration \<Rightarrow> tables \<Rightarrow> bool" where
  "grid_known h T \<longleftrightarrow> (\<exists>g \<in> set (t_grids T). g_grid_id g = hr_GridID h)"

text \<open>What the columns accept: storable text and the check constraints.\<close>

definition registrable :: "HouseRegistration \<Rightarrow> bool" where
  "registrable h \<longleftrightarrow>
     text_ok (hr_HouseID h) \<and> text_ok (hr_GridID h) \<and> text_ok (hr_MeterID h) \<and>
     text_ok (hr_DeviceClass h) \<and> house_checks h"

lemma insertHouseSQL_cases:
  "registrable h \<Longrightarrow> insertHouseSQL h now T =
     (if house_exists h T then (Inr 0, T)
      else if meter_taken h T
      then (Inl (PgError pgUniqueViolation ''duplicate key value violates unique constraint''), T)
      else if \<not> grid_known h T
      then (Inl (PgError pgForeignKeyViolation ''insert violates foreign key constraint''), T)
      else (Inr 1, T\<lparr>t_houses := t_houses T @ [house_row_of h now]\<rparr>))"
  by (auto simp: insertHouseSQL_def registrable_def house_exists_def meter_taken_def grid_known_def
      house_row_of_def list_ex_iff)

lemma insert_one:
  "insertHouseSQL h now T = (Inr (Suc 0), U) \<Longrightarrow> U = T\<lparr>t_houses := t_houses T @ [house_row_of h now]\<rparr>"
  by (simp add: insertHouseSQL_def house_row_of_def split: if_split_asm)

lemma registerHouse_quiet:
  assumes "pg_quiet p" "tables_ok (pg_tables p)" "registrable h"
  shows "registerHouse h p =
    (if house_exists h (pg_tables p)
     then (if registered h (pg_tables p) then (Inr HouseUnchanged, p)
           else (Inl (let r = the (find (\<lambda>r. h_house_id r = hr_HouseID h) (t_houses (pg_tables p))) in
                   refuse_change h (h_grid_id r) (h_meter_id r) (h_device_class r)), p))
     else if meter_taken h (pg_tables p)
     then (Inl (insert_error h (PgError pgUniqueViolation ''duplicate key value violates unique constraint'')), p)
     else if \<not> grid_known h (pg_tables p)
     then (Inl (insert_error h (PgError pgForeignKeyViolation ''insert violates foreign key constraint'')), p)
     else (Inr HouseCreated,
           p\<lparr>pg_tables := (pg_tables p)\<lparr>t_houses := t_houses (pg_tables p) @ [house_row_of h (pg_clock p)]\<rparr>\<rparr>))"
proof (cases "house_exists h (pg_tables p)")
  case True
  then obtain r where f: "find (\<lambda>r. h_house_id r = hr_HouseID h) (t_houses (pg_tables p)) = Some r"
    by (cases "find (\<lambda>r. h_house_id r = hr_HouseID h) (t_houses (pg_tables p))")
       (auto simp: house_exists_def find_None_iff)
  then have r: "r \<in> set (t_houses (pg_tables p))" "h_house_id r = hr_HouseID h"
    by (auto dest: find_Some_in)
  have "registered h (pg_tables p) \<longleftrightarrow> h_grid_id r = hr_GridID h \<and> h_meter_id r = Some (hr_MeterID h) \<and>
      h_device_class r = hr_DeviceClass h"
    using assms(2) r unfolding registered_def tables_ok_def
    by (metis (no_types, lifting) distinct_key_eq)
  then show ?thesis using True assms(1,3) f
    by (simp add: registerHouse_def andThen_def onSql_stmt_quiet insertHouseSQL_cases
        selectRegisteredHouseSQL_def Let_def)
next
  case False
  then show ?thesis using assms(1,3)
    by (simp add: registerHouse_def andThen_def onSql_stmt_quiet insertHouseSQL_cases)
qed

lemma registered_exists: "registered h T \<Longrightarrow> house_exists h T"
  by (auto simp: registered_def house_exists_def)

lemma refusals:
  "errors_Is (refuse_change h g m c) s \<longleftrightarrow> s = ErrHouseIdentity"
  "errors_Is (insert_error h (PgError pgUniqueViolation t)) s \<longleftrightarrow> s = ErrHouseIdentity"
  "errors_Is (insert_error h (PgError pgForeignKeyViolation t)) s \<longleftrightarrow> s = ErrGridNotProvisioned"
  by (simp_all add: refuse_change_def insert_error_def Let_def pgUniqueViolation_def
      pgForeignKeyViolation_def)

lemma RegisterHouse_quiet:
  assumes "pg_quiet p" "tables_ok (pg_tables p)" "registrable h"
  shows "RegisterHouse h p = registerHouse h p"
proof -
  have "pg_quiet (snd (registerHouse h p))" and "isl (fst (registerHouse h p)) \<Longrightarrow> snd (registerHouse h p) = p"
    using assms(1) by (auto simp: registerHouse_quiet [OF assms] split: if_splits)
  then show ?thesis
    using assms(1) by (cases "registerHouse h p"; cases "fst (registerHouse h p)")
      (auto simp: RegisterHouse_def BeginFunc_quiet BeginFunc_quiet_error)
qed

text \<open>Under any faults a registration either leaves the tables or appends its own house.\<close>

lemma registerHouse_appends:
  assumes "registerHouse h p = (r, q)"
  shows "pg_tables q = pg_tables p \<or>
    (r = Inr HouseCreated \<or> (\<exists>e. r = Inl e)) \<and> \<not> house_exists h (pg_tables p) \<and>
      \<not> meter_taken h (pg_tables p) \<and> grid_known h (pg_tables p) \<and>
      pg_tables q = (pg_tables p)\<lparr>t_houses := t_houses (pg_tables p) @ [house_row_of h (pg_clock p)]\<rparr>"
proof -
  let ?row = "house_row_of h (pg_clock p)"
  have ins: "snd (insertHouseSQL h now T) = T \<or> (\<not> house_exists h T \<and> \<not> meter_taken h T \<and> grid_known h T \<and>
      snd (insertHouseSQL h now T) = T\<lparr>t_houses := t_houses T @ [house_row_of h now]\<rparr> \<and>
      fst (insertHouseSQL h now T) = Inr 1)" for now T
    by (auto simp: insertHouseSQL_def house_exists_def meter_taken_def grid_known_def
        house_row_of_def list_ex_iff)
  have sel: "stmt (selectRegisteredHouseSQL i) p1 = (x, p2) \<Longrightarrow> pg_tables p2 = pg_tables p1" for i p1 x p2
    by (rule stmt_read) (auto simp: selectRegisteredHouseSQL_def split: option.splits)
  obtain x p1 where s: "stmt (insertHouseSQL h) p = (x, p1)" by force
  show ?thesis
  proof (cases x)
    case (Inl e)
    with assms s have "pg_tables q = pg_tables p1" "\<exists>e. r = Inl e"
      by (auto simp: registerHouse_def andThen_def onSql_def)
    with stmt_tables [OF s] ins show ?thesis by metis
  next
    case (Inr n)
    note run = stmt_InrD [OF s [unfolded Inr]]
    show ?thesis
    proof (cases "n = 1")
      case True
      with assms s Inr have "q = p1" "r = Inr HouseCreated"
        by (auto simp: registerHouse_def andThen_def onSql_def)
      with run ins [of "pg_clock p" "pg_tables p"] show ?thesis by auto
    next
      case False
      with run ins [of "pg_clock p" "pg_tables p"] have "pg_tables p1 = pg_tables p" by auto
      with assms s Inr False show ?thesis
        by (auto simp: registerHouse_def andThen_def onSql_def split: prod.splits sum.splits if_splits
            dest!: sel)
    qed
  qed
qed

lemma RegisterHouse_appends:
  assumes "RegisterHouse h p = (r, q)"
  shows "pg_tables q = pg_tables p \<or>
    \<not> house_exists h (pg_tables p) \<and> \<not> meter_taken h (pg_tables p) \<and> grid_known h (pg_tables p) \<and>
      pg_tables q = (pg_tables p)\<lparr>t_houses := t_houses (pg_tables p) @ [house_row_of h (pg_clock p)]\<rparr>"
  using assms unfolding RegisterHouse_def
proof (cases rule: BeginFunc_atomic)
  case (committed fs q1 x)
  from registerHouse_appends [OF committed(1)] committed(2)
  show ?thesis by (auto simp: house_exists_def meter_taken_def grid_known_def)
qed simp

lemma exists_image:
  "house_exists h T \<longleftrightarrow> hr_HouseID h \<in> h_house_id ` set (t_houses T)"
  "meter_taken h T \<longleftrightarrow> Some (hr_MeterID h) \<in> h_meter_id ` set (t_houses T)"
  "grid_known h T \<longleftrightarrow> hr_GridID h \<in> g_grid_id ` set (t_grids T)"
  unfolding house_exists_def meter_taken_def grid_known_def image_iff by metis+

lemma RegisterHouse_tables_ok [invariants]:
  "RegisterHouse h p = (r, q) \<Longrightarrow> tables_ok (pg_tables p) \<Longrightarrow> tables_ok (pg_tables q)"
  by (drule RegisterHouse_appends)
     (auto simp: tables_ok_def exists_image house_row_of_def)

text \<open>A success, whatever faults were pending, means the house is on record as asked.\<close>

lemma RegisterHouse_Inr:
  assumes "RegisterHouse h p = (Inr out, q)" "tables_ok (pg_tables p)"
  shows "registered h (pg_tables q)"
proof -
  from assms(1) obtain fs q1 where b: "registerHouse h (p\<lparr>pg_faults := fs\<rparr>) = (Inr out, q1)"
    "pg_tables q = pg_tables q1"
    unfolding RegisterHouse_def by (elim BeginFunc_Inr) auto
  then obtain n p1 where i: "stmt (insertHouseSQL h) (p\<lparr>pg_faults := fs\<rparr>) = (Inr n, p1)" and
     c: "(if n = 1 then ret HouseCreated else andThen (onSql (sqlErrorf (''load registration of house '' @ go_quote (hr_HouseID h) @ '': ''))
                     (stmt (selectRegisteredHouseSQL (hr_HouseID h)))) (\<lambda>(gridID, meterID, deviceClass).
       if gridID \<noteq> hr_GridID h \<or> meterID = None \<or> meterID \<noteq> Some (hr_MeterID h) \<or>
          deviceClass \<noteq> hr_DeviceClass h
       then throw (refuse_change h gridID meterID deviceClass)
       else ret HouseUnchanged)) p1 = (Inr out, q1)"
    by (auto simp: registerHouse_def inversion)
  show ?thesis
  proof (cases "n = 1")
    case True
    with c have "q1 = p1" by simp
    with True stmt_InrD [OF i] b(2) insert_one [of h "pg_clock p" "pg_tables p"] have
      "pg_tables q = (pg_tables p)\<lparr>t_houses := t_houses (pg_tables p) @ [house_row_of h (pg_clock p)]\<rparr>"
      by simp
    then show ?thesis by (auto simp: registered_def house_row_of_def)
  next
    case False
    with c obtain s where s: "stmt (selectRegisteredHouseSQL (hr_HouseID h)) p1 = (Inr s, q1)"
        "s = (hr_GridID h, Some (hr_MeterID h), hr_DeviceClass h)"
      by (auto simp: inversion split: if_splits prod.splits)
    from stmt_InrD [OF s(1)] s(2) b(2) show ?thesis
      by (auto simp: selectRegisteredHouseSQL_def registered_def dest!: find_Some_in split: option.splits)
  qed
qed

section \<open>The command's validation\<close>

definition entry_ok_id :: "entry \<Rightarrow> bool" where
  "entry_ok_id e \<longleftrightarrow> identity_ok (en_GridID e) (en_HouseID e) (en_MeterID e) (en_DeviceClass e)"

definition same_house :: "HouseRegistration \<Rightarrow> entry \<Rightarrow> bool" where
  "same_house h e \<longleftrightarrow>
     hr_HouseID h = en_HouseID e \<and> hr_GridID h = en_GridID e \<and> hr_MeterID h = en_MeterID e \<and>
     hr_DeviceClass h = en_DeviceClass e"

lemma same_house_of [simp]: "same_house (registration_of e (en_DeviceClass e)) e"
  by (simp add: same_house_def registration_of_def)

text \<open>Entries for one house name one class.\<close>

definition classes_agree :: "entry list \<Rightarrow> bool" where
  "classes_agree es \<longleftrightarrow>
     (\<forall>e \<in> set es. \<forall>e' \<in> set es. en_HouseID e = en_HouseID e' \<longrightarrow> en_DeviceClass e = en_DeviceClass e')"

lemma classes_agreeD:
  "classes_agree es \<Longrightarrow> e \<in> set es \<Longrightarrow> e' \<in> set es \<Longrightarrow> en_HouseID e = en_HouseID e' \<Longrightarrow>
   en_DeviceClass e = en_DeviceClass e'"
  unfolding classes_agree_def by blast

lemma classes_agree_tl: "classes_agree (e # es) \<Longrightarrow> classes_agree es"
  unfolding classes_agree_def by (meson list.set_intros(2))

lemma same_identity:
  assumes "identity_ok g h m c" "identity_ok g' h m' c'"
  shows "g = g'" "m = m'"
  using assms grid_of_house by (auto simp: identity_ok_def)

text \<open>
  One pass: no error means every entry is well formed and stands for a house that is either seen
  already or in the output, under one identity; the output has each house once.
\<close>

lemma validateLoop_ok:
  assumes "validateLoop i seen es = (out, [])" "\<And>k h. seen k = Some h \<Longrightarrow> hr_HouseID h = k"
  shows "(\<forall>e \<in> set es. entry_ok_id e \<and> (\<exists>h. same_house h e \<and> (seen (en_HouseID e) = Some h \<or> h \<in> set out))) \<and>
    distinct (map hr_HouseID out) \<and>
    (\<forall>h \<in> set out. seen (hr_HouseID h) = None \<and> (\<exists>e \<in> set es. h = registration_of e (en_DeviceClass e)))"
  using assms
proof (induction es arbitrary: i seen out)
  case (Cons e es)
  from Cons.prems(1) obtain c where
      v: "ValidateHouseIdentity (en_GridID e) (en_HouseID e) (en_MeterID e) (en_DeviceClass e) = Inr c"
    by (auto split: sum.splits prod.splits)
  then have c: "c = en_DeviceClass e" and ok: "entry_ok_id e"
    by (simp_all add: ValidateHouseIdentity_Inr entry_ok_id_def)
  let ?h = "registration_of e (en_DeviceClass e)"
  have id: "hr_HouseID ?h = en_HouseID e" by (simp add: registration_of_def)
  show ?case
  proof (cases "seen (en_HouseID e)")
    case (Some prev)
    with Cons.prems v c id have "validateLoop (i + 1) seen es = (out, [])"
      and "hr_GridID prev = hr_GridID ?h" "hr_MeterID prev = hr_MeterID ?h"
        "hr_DeviceClass prev = hr_DeviceClass ?h"
      by (auto simp: Let_def split: prod.splits if_splits)
    moreover from Some Cons.prems(2) have "hr_HouseID prev = en_HouseID e" by blast
    ultimately show ?thesis
      using Cons.IH [of "i + 1" seen out] Cons.prems(2) Some ok
      by (auto simp: same_house_def registration_of_def)
  next
    case None
    with Cons.prems(1) v c id obtain out' where
        rest: "validateLoop (i + 1) (seen(en_HouseID e \<mapsto> ?h)) es = (out', [])" and out: "out = ?h # out'"
      by (auto simp: Let_def split: prod.splits)
    have "\<And>k h. (seen(en_HouseID e \<mapsto> ?h)) k = Some h \<Longrightarrow> hr_HouseID h = k"
      using Cons.prems(2) id by (auto split: if_splits)
    from Cons.IH [OF rest this] show ?thesis
      using None ok out id same_house_of [of e] by (fastforce split: if_splits)
  qed
qed simp

lemma validateLoop_accepts:
  assumes "\<forall>e \<in> set es. entry_ok_id e"
    and "classes_agree es"
    and "\<And>k h e. seen k = Some h \<Longrightarrow> e \<in> set es \<Longrightarrow> en_HouseID e = k \<Longrightarrow> same_house h e"
  shows "snd (validateLoop i seen es) = []"
  using assms
proof (induction es arbitrary: i seen)
  case (Cons e es)
  from Cons.prems(1) have v: "ValidateHouseIdentity (en_GridID e) (en_HouseID e) (en_MeterID e) (en_DeviceClass e)
      = Inr (en_DeviceClass e)"
    by (simp add: ValidateHouseIdentity_Inr entry_ok_id_def)
  let ?h = "registration_of e (en_DeviceClass e)"
  have same: "same_house ?h e'" if "e' \<in> set es" "en_HouseID e' = en_HouseID e" for e'
  proof -
    have ids: "entry_ok_id e" "entry_ok_id e'" using Cons.prems(1) that(1) by auto
    have cl: "en_DeviceClass e' = en_DeviceClass e" 
      using classes_agreeD [OF Cons.prems(2), of e' e] that by simp
    show ?thesis
      using same_identity [OF ids(1) [unfolded entry_ok_id_def]
          ids(2) [unfolded entry_ok_id_def that(2)]] cl that(2)
      by (simp add: same_house_def registration_of_def)
  qed
  show ?case
  proof (cases "seen (en_HouseID e)")
    case (Some prev)
    with Cons.prems(3) have "same_house prev e" by simp
    moreover have "snd (validateLoop (i + 1) seen es) = []"
      using Cons.prems classes_agree_tl by (intro Cons.IH) auto
    ultimately show ?thesis using v Some
      by (auto simp: Let_def same_house_def registration_of_def split: prod.splits)
  next
    case None
    have "snd (validateLoop (i + 1) (seen(en_HouseID e \<mapsto> ?h)) es) = []"
      using Cons.prems classes_agree_tl same by (intro Cons.IH) (auto split: if_splits)
    with v None show ?thesis
      by (auto simp: Let_def registration_of_def split: prod.splits)
  qed
qed simp

lemma validate_Inr_iff:
  "validate es = Inr out \<longleftrightarrow> es \<noteq> [] \<and> length es \<le> maxEntries \<and> validateLoop 0 Map.empty es = (out, [])"
  by (auto simp: validate_def errors_Join_def split: prod.splits)

section \<open>The command's writes\<close>

definition houses_extend :: "tables \<Rightarrow> tables \<Rightarrow> bool" where
  "houses_extend T U \<longleftrightarrow> (\<exists>new. U = T\<lparr>t_houses := t_houses T @ new\<rparr>)"

lemma houses_extend_refl: "houses_extend T T"
  unfolding houses_extend_def by (intro exI [of _ "[]"]) simp

lemma houses_extend_trans: "houses_extend T U \<Longrightarrow> houses_extend U V \<Longrightarrow> houses_extend T V"
  by (auto simp: houses_extend_def)

lemma registered_extend: "houses_extend T U \<Longrightarrow> registered h T \<Longrightarrow> registered h U"
  by (auto simp: houses_extend_def registered_def)

lemma RegisterHouse_extends: "RegisterHouse h p = (r, q) \<Longrightarrow> houses_extend (pg_tables p) (pg_tables q)"
  using RegisterHouse_appends houses_extend_refl by (fastforce simp: houses_extend_def)

lemma registerLoop_extends:
  "registerLoop hs c p = (c', q) \<Longrightarrow> houses_extend (pg_tables p) (pg_tables q) \<and> rc_refused c \<le> rc_refused c'"
proof (induction hs arbitrary: c p)
  case (Cons h hs)
  from Cons.prems obtain r p1 c1 where one: "RegisterHouse h p = (r, p1)"
    and rest: "registerLoop hs c1 p1 = (c', q)" and "rc_refused c \<le> rc_refused c1"
    by (auto split: prod.splits sum.splits RegistrationOutcome.splits)
  with Cons.IH [OF rest] RegisterHouse_extends [OF one] show ?case
    by (auto intro: houses_extend_trans)
qed (simp add: houses_extend_refl)

lemma registerLoop_registers:
  "registerLoop hs c p = (c', q) \<Longrightarrow> rc_refused c' = 0 \<Longrightarrow> tables_ok (pg_tables p) \<Longrightarrow>
   \<forall>h \<in> set hs. registered h (pg_tables q)"
proof (induction hs arbitrary: c p)
  case (Cons h hs)
  from Cons.prems(1) obtain r p1 c1 where one: "RegisterHouse h p = (r, p1)"
    and rest: "registerLoop hs c1 p1 = (c', q)" and c1: "isl r \<longrightarrow> 0 < rc_refused c1"
    by (auto split: prod.splits sum.splits RegistrationOutcome.splits)
  have "\<not> isl r" using registerLoop_extends [OF rest] c1 Cons.prems(2) by auto
  then obtain out where "r = Inr out" by (cases r) auto
  with one Cons.prems(3) have "registered h (pg_tables p1)" by (auto intro: RegisterHouse_Inr)
  with registerLoop_extends [OF rest] have "registered h (pg_tables q)" by (auto intro: registered_extend)
  with Cons.IH [OF rest Cons.prems(2)] RegisterHouse_tables_ok [OF one Cons.prems(3)] show ?case by simp
qed simp

section \<open>Properties\<close>

text \<open>
  C19. On a server that answers, \<^verbatim>\<open>RegisterHouse\<close> creates exactly the row it was asked for when the
  house and its meter are new and the grid is provisioned; reports \<^verbatim>\<open>unchanged\<close> and writes nothing when
  the house is registered with the same grid, meter and class; and in every other case refuses with a
  permanent error (\<^verbatim>\<open>ErrGridNotProvisioned\<close> for an unknown grid, \<^verbatim>\<open>ErrHouseIdentity\<close> for a different
  identity or a meter bound to another house) and writes nothing.
\<close>

theorem RegisterHouse_outcome:
  assumes "pg_quiet p" "tables_ok (pg_tables p)" "registrable h"
  shows "case RegisterHouse h p of
      (Inr HouseCreated, q) \<Rightarrow> \<not> house_exists h (pg_tables p) \<and> \<not> meter_taken h (pg_tables p) \<and>
        grid_known h (pg_tables p) \<and>
        pg_tables q = (pg_tables p)\<lparr>t_houses := t_houses (pg_tables p) @ [house_row_of h (pg_clock p)]\<rparr>
    | (Inr HouseUnchanged, q) \<Rightarrow> registered h (pg_tables p) \<and> q = p
    | (Inl e, q) \<Rightarrow> q = p \<and> \<not> registered h (pg_tables p) \<and>
        errors_Is e (if house_exists h (pg_tables p) \<or> meter_taken h (pg_tables p) then ErrHouseIdentity
                     else ErrGridNotProvisioned) \<and>
        (house_exists h (pg_tables p) \<or> meter_taken h (pg_tables p) \<or> \<not> grid_known h (pg_tables p))"
  using registered_exists [of h "pg_tables p"]
  by (simp add: RegisterHouse_quiet [OF assms] registerHouse_quiet [OF assms] refusals Let_def)

definition sample_registration :: HouseRegistration where
  "sample_registration =
     \<lparr>hr_HouseID = ''g1-house2'', hr_GridID = ''g1'', hr_MeterID = ''meter-g1-house2'',
      hr_DeviceClass = ''consumer'', hr_RatedSolarKw = None\<rparr>"

lemma sample_registrable: "registrable sample_registration"
  by (simp add: registrable_def sample_registration_def house_checks_def text_ok_ascii byte_def)

theorem RegisterHouse_outcome_witness:
  "\<exists>q. RegisterHouse sample_registration (quiet_pg sample_tables 7) = (Inr HouseCreated, q) \<and>
     pg_tables q = sample_tables\<lparr>t_houses := t_houses sample_tables @ [house_row_of sample_registration 7]\<rparr>"
proof -
  let ?p = "quiet_pg sample_tables 7"
  have new: "\<not> house_exists sample_registration sample_tables" "\<not> meter_taken sample_registration sample_tables"
    "grid_known sample_registration sample_tables"
    by (simp_all add: house_exists_def meter_taken_def grid_known_def sample_tables_def empty_tables_def
        sample_registration_def)
  obtain q where q: "RegisterHouse sample_registration ?p = (Inr HouseCreated, q)"
    by (simp add: RegisterHouse_quiet registerHouse_quiet sample_tables_ok sample_registrable new)
  then show ?thesis
    using RegisterHouse_outcome [of ?p sample_registration] by (simp add: sample_tables_ok sample_registrable)
qed

text \<open>
  \<^verbatim>\<open>validate\<close> accepts a file exactly when it has between one and 10000 entries, every entry has a
  well-formed identity, and entries for the same house agree on its class (grid and meter follow from
  the house identifier).  What it returns stands for every entry and names each house once.
\<close>

theorem validate_exact:
  "(case validate es of
      Inr out \<Rightarrow> distinct (map hr_HouseID out) \<and> (\<forall>e \<in> set es. \<exists>h \<in> set out. same_house h e) \<and>
        (\<forall>h \<in> set out. \<exists>e \<in> set es. h = registration_of e (en_DeviceClass e))
    | Inl _ \<Rightarrow> True) \<and>
   ((\<exists>out. validate es = Inr out) \<longleftrightarrow>
      es \<noteq> [] \<and> length es \<le> 10000 \<and> (\<forall>e \<in> set es. entry_ok_id e) \<and>
      classes_agree es)"
proof -
  have ok: "(\<forall>e \<in> set es. entry_ok_id e \<and> (\<exists>h \<in> set out. same_house h e)) \<and> distinct (map hr_HouseID out) \<and>
      (\<forall>h \<in> set out. \<exists>e \<in> set es. h = registration_of e (en_DeviceClass e))"
    if "validate es = Inr out" for out
    using that validateLoop_ok [of 0 Map.empty es out] by (auto simp: validate_Inr_iff)
  have agree: "en_DeviceClass e = en_DeviceClass e'"
    if "validate es = Inr out" "e \<in> set es" "e' \<in> set es" "en_HouseID e = en_HouseID e'" for out e e'
  proof -
    from ok [OF that(1)] that(2,3) obtain h h' where "h \<in> set out" "same_house h e" "h' \<in> set out" "same_house h' e'"
      and d: "distinct (map hr_HouseID out)" by blast
    with that(4) distinct_key_eq [OF d, of h h'] show ?thesis by (auto simp: same_house_def)
  qed
  have "\<exists>out. validate es = Inr out"
    if "es \<noteq> []" "length es \<le> 10000" "\<forall>e \<in> set es. entry_ok_id e"
      "classes_agree es"
    using that validateLoop_accepts [of es Map.empty 0]
    by (cases "validateLoop 0 Map.empty es") (auto simp: validate_Inr_iff maxEntries_def)
  moreover have "classes_agree es" if "validate es = Inr out" for out
    unfolding classes_agree_def using agree [OF that] by blast
  moreover have "es \<noteq> [] \<and> length es \<le> 10000" if "validate es = Inr out" for out
    using that by (simp add: validate_Inr_iff maxEntries_def)
  ultimately show ?thesis using ok by (cases "validate es") auto
qed

definition sample_entry :: entry where
  "sample_entry =
     \<lparr>en_HouseID = ''g1-house1'', en_GridID = ''g1'', en_MeterID = ''meter-g1-house1'',
      en_DeviceClass = ''residential_prosumer'', en_RatedSolarKw = None\<rparr>"

lemma sample_entry_ok: "entry_ok_id sample_entry"
  using sample_identity by (simp add: entry_ok_id_def sample_entry_def)

theorem validate_exact_witness: "\<exists>out. validate [sample_entry, sample_entry] = Inr out \<and> distinct (map hr_HouseID out)"
  using validate_exact [of "[sample_entry, sample_entry]"] sample_entry_ok by (auto simp: classes_agree_def)

text \<open>
  \<^verbatim>\<open>register-houses\<close>, whatever faults interrupt it, only appends houses: no existing house is changed
  and no other table is touched, and a dry run or an invalid file writes nothing.  When it reports
  success every entry of the file is on record under exactly the identity the file gives.
\<close>

theorem registerRun_registers_all:
  assumes "tables_ok (pg_tables p)" "registerRun dryRun es p = (r, q)"
  shows "houses_extend (pg_tables p) (pg_tables q) \<and> (dryRun \<or> isl (validate es) \<longrightarrow> q = p) \<and>
    (\<not> isl r \<and> \<not> dryRun \<longrightarrow> (\<forall>e \<in> set es. registered (registration_of e (en_DeviceClass e)) (pg_tables q)))"
proof (cases "validate es")
  case (Inl e)
  with assms(2) show ?thesis by (auto simp: registerRun_def andThen_def houses_extend_refl)
next
  case (Inr hs)
  have all: "\<exists>h \<in> set hs. same_house h e" if "e \<in> set es" for e
    using that validateLoop_ok [of 0 Map.empty es hs] Inr by (auto simp: validate_Inr_iff)
  let ?z = "\<lparr>rc_created = 0, rc_unchanged = 0, rc_refused = 0\<rparr>"
  obtain c p1 where l: "registerLoop hs ?z p = (c, p1)" by force
  have reg: "registered (registration_of e (en_DeviceClass e)) (pg_tables p1)"
    if "e \<in> set es" "rc_refused c = 0" for e
  proof -
    from all [OF that(1)] obtain h where "h \<in> set hs" "same_house h e" by blast
    with registerLoop_registers [OF l that(2) assms(1)] have "registered h (pg_tables p1)" by blast
    with \<open>same_house h e\<close> show ?thesis by (simp add: registered_def same_house_def registration_of_def)
  qed
  show ?thesis using assms(2) Inr l registerLoop_extends [OF l] reg
    by (auto simp: registerRun_def andThen_def houses_extend_refl split: if_splits)
qed

theorem registerRun_registers_all_witness:
  "houses_extend sample_tables (pg_tables (snd (registerRun True [sample_entry] (quiet_pg sample_tables 7)))) \<and>
   snd (registerRun True [sample_entry] (quiet_pg sample_tables 7)) = quiet_pg sample_tables 7"
proof -
  obtain r q where "registerRun True [sample_entry] (quiet_pg sample_tables 7) = (r, q)" by force
  with registerRun_registers_all [OF _ this] show ?thesis by (auto simp: sample_tables_ok)
qed

end
