(* ===== verification/Admission.thy ===== *)
theory Admission
  imports World "HOL-Library.AList"
begin

text \<open>
  Package \<^verbatim>\<open>internal/admission\<close> and \<^verbatim>\<open>internal/store/postgres/grid_loader.go\<close>: the in-memory snapshot of
  provisioned grids that handlers consult, how it is loaded at start-up and refreshed afterwards.

  A Go map is an association list without duplicate keys; the order in which Go ranges over it is
  unspecified, and nothing below depends on it.
\<close>

section \<open>The registry\<close>

record Grid =
  gr_GridID :: string
  gr_Lat :: float64
  gr_Lon :: float64

type_synonym grid_map = "(string \<times> Grid) list"

record Snapshot =
  sn_grids :: grid_map

record Registry =
  rg_current :: "Snapshot option"

definition unknown_grid :: "string \<Rightarrow> go_error" where
  "unknown_grid g = sentinel_error ErrUnknownGrid (''admission: unknown grid_id: '' @ go_quote g)"

definition empty_snapshot :: go_error where
  "empty_snapshot = sentinel_error ErrEmptySnapshot ''admission: grid snapshot is empty''"

definition newSnapshot :: "grid_map \<Rightarrow> Snapshot" where
  "newSnapshot grids = \<lparr>sn_grids = fold (\<lambda>(k, v). AList.update k v) grids []\<rparr>"

definition Snapshot_Lookup :: "Snapshot \<Rightarrow> string \<Rightarrow> Grid option" where
  "Snapshot_Lookup s gridID = map_of (sn_grids s) gridID"

definition Snapshot_Len :: "Snapshot \<Rightarrow> nat" where
  "Snapshot_Len s = length (sn_grids s)"

definition NewRegistry :: Registry where
  "NewRegistry = \<lparr>rg_current = None\<rparr>"

definition Registry_Lookup :: "Registry \<Rightarrow> string \<Rightarrow> Grid option" where
  "Registry_Lookup r gridID =
     (case rg_current r of None \<Rightarrow> None | Some snap \<Rightarrow> Snapshot_Lookup snap gridID)"

definition Ready :: "Registry \<Rightarrow> bool" where
  "Ready r \<longleftrightarrow> rg_current r \<noteq> None"

definition Publish :: "grid_map \<Rightarrow> (Registry, unit) act" where
  "Publish grids r =
     (if length grids = 0 then throw empty_snapshot r
      else ret () (r\<lparr>rg_current := Some (newSnapshot grids)\<rparr>))"

section \<open>Loading and refreshing\<close>

record RefresherConfig =
  rf_Interval :: int

definition RefresherConfig_withDefaults :: "RefresherConfig \<Rightarrow> RefresherConfig" where
  "RefresherConfig_withDefaults c =
     (if rf_Interval c \<le> 0 then c\<lparr>rf_Interval := 120 * ns_second\<rparr> else c)"

fun gridMapLoop :: "grid_map \<Rightarrow> Grid list \<Rightarrow> go_error + grid_map" where
  "gridMapLoop byID [] = Inr byID"
| "gridMapLoop byID (g # gs) =
     (if gr_GridID g = '''' then Inl (errors_New ''admission: grid row with empty grid_id'')
      else gridMapLoop (AList.update (gr_GridID g) g byID) gs)"

definition toGridMap :: "Grid list \<Rightarrow> go_error + grid_map" where
  "toGridMap grids = (if length grids = 0 then Inl empty_snapshot else gridMapLoop [] grids)"

definition diffGridIDs :: "Snapshot option \<Rightarrow> grid_map \<Rightarrow> string list \<times> string list" where
  "diffGridIDs before after =
     (case before of
        None \<Rightarrow> (map fst after, [])
      | Some s \<Rightarrow> (filter (\<lambda>i. Snapshot_Lookup s i = None) (map fst after),
                   filter (\<lambda>i. map_of after i = None) (map fst (sn_grids s))))"

text \<open>
  The loader is an action on some state; the registry is the other half of the state.  \<open>refresh_note\<close>
  is what one refresh reports to the metrics and the log.
\<close>

datatype refresh_note = Refreshed nat "string list" "string list" | KeptLastGood go_error

definition Bootstrap :: "('s, Grid list) act \<Rightarrow> (Registry \<times> 's, nat) act" where
  "Bootstrap LoadGrids rs =
     (case rs of (r, s) \<Rightarrow>
      (case LoadGrids s of
         (Inl e, s') \<Rightarrow> (Inl (Errorf_w ''admission: initial grid load failed: '' e), (r, s'))
       | (Inr grids, s') \<Rightarrow>
           (case toGridMap grids of
              Inl e \<Rightarrow> (Inl (Errorf_w ''admission: initial grid data invalid: '' e), (r, s'))
            | Inr byID \<Rightarrow>
                (case Publish byID r of
                   (Inl e, r') \<Rightarrow>
                     (Inl (Errorf_w ''admission: initial grid snapshot rejected: '' e), (r', s'))
                 | (Inr u, r') \<Rightarrow> (Inr (length byID), (r', s'))))))"

definition refreshOnce :: "('s, Grid list) act \<Rightarrow> Registry \<times> 's \<Rightarrow> refresh_note \<times> (Registry \<times> 's)" where
  "refreshOnce LoadGrids rs =
     (case rs of (r, s) \<Rightarrow>
      (case LoadGrids s of
         (Inl e, s') \<Rightarrow> (KeptLastGood e, (r, s'))
       | (Inr grids, s') \<Rightarrow>
           (case toGridMap grids of
              Inl e \<Rightarrow> (KeptLastGood e, (r, s'))
            | Inr byID \<Rightarrow>
                (case diffGridIDs (rg_current r) byID of (added, removed) \<Rightarrow>
                   (case Publish byID r of
                      (Inl e, r') \<Rightarrow> (KeptLastGood e, (r', s'))
                    | (Inr u, r') \<Rightarrow> (Refreshed (length byID) added removed, (r', s')))))))"

text \<open>
  \<^verbatim>\<open>Start\<close>: one refresh per tick until the context is cancelled.  Between ticks the rest of the system
  moves the loader's state on; \<open>ticks\<close> is the list of those moves.
\<close>

fun Start :: "('s, Grid list) act \<Rightarrow> ('s \<Rightarrow> 's) list \<Rightarrow> Registry \<times> 's \<Rightarrow> Registry \<times> 's" where
  "Start LoadGrids [] rs = rs"
| "Start LoadGrids (t # ticks) (r, s) =
     Start LoadGrids ticks (snd (refreshOnce LoadGrids (r, t s)))"

section \<open>The loader\<close>

definition selectGridsSQL :: "int \<Rightarrow> tables \<Rightarrow> (sql_error + grids_row list) \<times> tables" where
  "selectGridsSQL now T = (Inr (t_grids T), T)"

definition LoadGrids :: "(pg, Grid list) act" where
  "LoadGrids =
     andThen (onSql (sqlErrorf ''postgres: load grids query: '') (stmt selectGridsSQL)) (\<lambda>rows.
       ret (map (\<lambda>g. \<lparr>gr_GridID = g_grid_id g, gr_Lat = g_lat g, gr_Lon = g_lon g\<rparr>) rows))"

section \<open>Maps\<close>

lemma map_of_fold_update:
  "map_of (fold (\<lambda>(k, v). AList.update k v) kvs m) = (\<lambda>k. case map_of (rev kvs) k of None \<Rightarrow> map_of m k | Some v \<Rightarrow> Some v)"
  by (induction kvs arbitrary: m) (auto simp: update_conv fun_eq_iff map_add_def split: option.splits prod.splits)

lemma map_of_rev_distinct: "distinct (map fst kvs) \<Longrightarrow> map_of (rev kvs) = map_of kvs"
  by (subst map_of_inject_set) (simp_all add: rev_map [symmetric])

lemma newSnapshot_Lookup:
  "distinct (map fst grids) \<Longrightarrow> Snapshot_Lookup (newSnapshot grids) = map_of grids"
  by (auto simp: Snapshot_Lookup_def newSnapshot_def map_of_fold_update map_of_rev_distinct fun_eq_iff
      split: option.splits)

lemma gridMapLoop_Inr:
  assumes "gridMapLoop m gs = Inr out" "distinct (map fst m)"
  shows "distinct (map fst out) \<and> (\<forall>g \<in> set gs. gr_GridID g \<noteq> '''') \<and>
    map_of out = (\<lambda>k. case find (\<lambda>g. gr_GridID g = k) (rev gs) of Some g \<Rightarrow> Some g | None \<Rightarrow> map_of m k) \<and>
    length m \<le> length out"
  using assms
proof (induction gs arbitrary: m)
  case (Cons g gs)
  then have step: "gridMapLoop (AList.update (gr_GridID g) g m) gs = Inr out" "gr_GridID g \<noteq> ''''"
    by (auto split: if_splits)
  have "distinct (map fst (AList.update (gr_GridID g) g m))" using Cons.prems(2) by (rule distinct_update)
  note IH = Cons.IH [OF step(1) this]
  have "length m \<le> length (AList.update (gr_GridID g) g m)"
    by (induction m) auto
  with IH step(2) show ?case
    by (auto simp: find_append update_conv fun_eq_iff split: option.splits)
qed simp

section \<open>The interface to the loader\<close>

text \<open>
  What the refresher relies on: a load that succeeds returns the provisioned grids, each under its own
  identifier, and a load never changes what is provisioned.
\<close>

definition wf_grids :: "Grid list \<Rightarrow> bool" where
  "wf_grids gs \<longleftrightarrow> distinct (map gr_GridID gs)"

definition registry_ok :: "Registry \<Rightarrow> bool" where
  "registry_ok r \<longleftrightarrow>
     (case rg_current r of None \<Rightarrow> True
      | Some s \<Rightarrow> sn_grids s \<noteq> [] \<and> distinct (map fst (sn_grids s)) \<and>
          (\<forall>(k, g) \<in> set (sn_grids s). k = gr_GridID g \<and> k \<noteq> ''''))"

lemma gridMapLoop_wf:
  "gridMapLoop m gs = Inr out \<Longrightarrow> distinct (map fst m) \<Longrightarrow>
   (\<forall>(k, g) \<in> set m. k = gr_GridID g \<and> k \<noteq> '''') \<Longrightarrow>
   distinct (map fst out) \<and> (\<forall>(k, g) \<in> set out. k = gr_GridID g \<and> k \<noteq> '''')"
proof (induction gs arbitrary: m)
  case (Cons g gs)
  then have step: "gridMapLoop (AList.update (gr_GridID g) g m) gs = Inr out" "gr_GridID g \<noteq> ''''"
    by (auto split: if_splits)
  have "set (AList.update (gr_GridID g) g m) \<subseteq> insert (gr_GridID g, g) (set m)"
    by (induction m) auto
  then have "\<forall>(k, x) \<in> set (AList.update (gr_GridID g) g m). k = gr_GridID x \<and> k \<noteq> ''''"
    using Cons.prems(3) step(2) by auto
  with Cons.IH [OF step(1) distinct_update [OF Cons.prems(2)]] show ?case by blast
qed simp

lemma fold_update_id:
  "distinct (map fst (m @ kvs)) \<Longrightarrow> fold (\<lambda>(k, v). AList.update k v) kvs m = m @ kvs"
proof (induction kvs arbitrary: m)
  case (Cons kv kvs)
  have "AList.update (fst kv) (snd kv) m = m @ [kv]" if "fst kv \<notin> fst ` set m"
    using that by (induction m) auto
  with Cons.prems Cons.IH [of "m @ [kv]"] show ?case by (auto simp: case_prod_beta)
qed simp

lemma newSnapshot_id: "distinct (map fst grids) \<Longrightarrow> sn_grids (newSnapshot grids) = grids"
  using fold_update_id [of "[]" grids] by (simp add: newSnapshot_def)

lemma toGridMap_Inr:
  assumes "toGridMap gs = Inr byID"
  shows "gs \<noteq> []" "byID \<noteq> []" "distinct (map fst byID)"
    "\<forall>(k, g) \<in> set byID. k = gr_GridID g \<and> k \<noteq> ''''"
    "map_of byID = (\<lambda>k. find (\<lambda>g. gr_GridID g = k) (rev gs))"
proof -
  from assms have l: "gs \<noteq> []" "gridMapLoop [] gs = Inr byID"
    by (auto simp: toGridMap_def split: if_splits)
  show "gs \<noteq> []" "distinct (map fst byID)" "\<forall>(k, g) \<in> set byID. k = gr_GridID g \<and> k \<noteq> ''''"
    using l(1) gridMapLoop_wf [OF l(2)] by simp_all
  show m: "map_of byID = (\<lambda>k. find (\<lambda>g. gr_GridID g = k) (rev gs))"
    using conjunct1 [OF conjunct2 [OF conjunct2 [OF gridMapLoop_Inr [OF l(2)]]]]
    by (simp add: fun_eq_iff option.case_eq_if)
  have "map_of byID (gr_GridID (last gs)) \<noteq> None"
    using l(1) last_in_set [of gs] unfolding m by (auto simp: find_None_iff simp del: last_in_set)
  then show "byID \<noteq> []" by auto
qed

lemma find_wf:
  assumes "wf_grids gs"
  shows "find (\<lambda>g. gr_GridID g = k) (rev gs) = Some g \<longleftrightarrow> g \<in> set gs \<and> gr_GridID g = k"
proof
  assume "g \<in> set gs \<and> gr_GridID g = k"
  then show "find (\<lambda>g. gr_GridID g = k) (rev gs) = Some g"
    using assms find_distinct_key [of gr_GridID "rev gs" g]
    by (auto simp: wf_grids_def rev_map [symmetric])
qed (auto dest!: find_Some_in)

text \<open>One refresh publishes the loaded grids or keeps the snapshot.\<close>

lemma refreshOnce_cases:
  assumes "refreshOnce load (r, s) = (nt, (r', s'))"
  obtains (kept) e where "nt = KeptLastGood e" "r' = r" "snd (load s) = s'"
  | (published) gs byID added removed where "load s = (Inr gs, s')" "toGridMap gs = Inr byID"
      "nt = Refreshed (length byID) added removed" "r' = r\<lparr>rg_current := Some (newSnapshot byID)\<rparr>"
      "(added, removed) = diffGridIDs (rg_current r) byID"
proof (cases "load s")
  case (Pair res s1)
  show thesis
  proof (cases res)
    case (Inl e)
    with assms Pair show thesis by (intro kept [of e]) (simp_all add: refreshOnce_def)
  next
    case (Inr gs)
    show thesis
    proof (cases "toGridMap gs")
      case (Inl e)
      with assms Pair Inr show thesis by (intro kept [of e]) (simp_all add: refreshOnce_def)
    next
      case m: (Inr byID)
      obtain added removed where d: "diffGridIDs (rg_current r) byID = (added, removed)" by force
      with assms Pair Inr m toGridMap_Inr(2) [OF m] show thesis
        by (intro published [of gs byID added removed]) (simp_all add: refreshOnce_def Publish_def)
    qed
  qed
qed

lemma refreshOnce_registry_ok [invariants]:
  assumes "refreshOnce load (r, s) = (nt, (r', s'))" "registry_ok r"
  shows "registry_ok r'"
  using assms(1)
proof (cases rule: refreshOnce_cases)
  case (published gs byID added removed)
  with toGridMap_Inr [OF published(2)] show ?thesis by (simp add: registry_ok_def newSnapshot_id)
qed (use assms(2) in simp)

lemma refreshOnce_Ready:
  assumes "refreshOnce load (r, s) = (nt, (r', s'))" "Ready r"
  shows "Ready r'"
  using assms(1) by (cases rule: refreshOnce_cases) (use assms(2) in \<open>auto simp: Ready_def\<close>)

lemma Bootstrap_refresh:
  "Bootstrap load (r, s) =
     (case refreshOnce load (r, s) of
        (Refreshed n added removed, rs) \<Rightarrow> (Inr n, rs)
      | (KeptLastGood e, rs) \<Rightarrow> (Inl (Errorf_w (if isl (fst (load s)) then ''admission: initial grid load failed: ''
                                 else ''admission: initial grid data invalid: '') e), rs))"
proof (cases "load s")
  case (Pair res s1)
  show ?thesis
  proof (cases res)
    case (Inr gs)
    with Pair show ?thesis
      by (cases "toGridMap gs")
         (auto simp: Bootstrap_def refreshOnce_def Publish_def split: prod.splits dest: toGridMap_Inr(2))
  qed (simp add: Bootstrap_def refreshOnce_def Pair)
qed

locale grid_source =
  fixes load :: "('s, Grid list) act"
    and provisioned :: "'s \<Rightarrow> string \<Rightarrow> Grid option"
    and inv :: "'s \<Rightarrow> bool"
  assumes load_exact: "inv s \<Longrightarrow> load s = (Inr gs, s') \<Longrightarrow>
      wf_grids gs \<and> (\<forall>k g. provisioned s k = Some g \<longleftrightarrow> g \<in> set gs \<and> gr_GridID g = k)"
    and load_keeps: "load s = (res, s') \<Longrightarrow> provisioned s' = provisioned s \<and> inv s' = inv s"
begin

text \<open>A successful refresh makes the registry admit exactly the provisioned grids.\<close>

lemma refreshed_exact:
  assumes "inv s" "refreshOnce load (r, s) = (Refreshed n added removed, (r', s'))"
  shows "Registry_Lookup r' = provisioned s" "\<exists>k. provisioned s k \<noteq> None"
proof -
  from assms(2) obtain gs byID where l: "load s = (Inr gs, s')" and m: "toGridMap gs = Inr byID"
    and r': "rg_current r' = Some (newSnapshot byID)"
    by (cases rule: refreshOnce_cases) auto
  note wf = load_exact [OF assms(1) l]
  have eq: "map_of byID = provisioned s"
  proof
    fix k
    have "map_of byID k = Some g \<longleftrightarrow> provisioned s k = Some g" for g
      using find_wf [of gs k g] wf by (simp add: toGridMap_Inr(5) [OF m])
    then show "map_of byID k = provisioned s k" by (metis not_None_eq)
  qed
  then show "Registry_Lookup r' = provisioned s"
    using newSnapshot_Lookup [OF toGridMap_Inr(3) [OF m]]
    by (simp add: Registry_Lookup_def r' fun_eq_iff)
  have "byID \<noteq> []" by (rule toGridMap_Inr(2) [OF m])
  then show "\<exists>k. provisioned s k \<noteq> None"
    unfolding eq [symmetric] by (cases byID) auto
qed

lemma refresh_diff:
  assumes "inv s" "refreshOnce load (r, s) = (Refreshed n added removed, (r', s'))" "registry_ok r"
  shows "set added = {k. provisioned s k \<noteq> None \<and> Registry_Lookup r k = None}"
    "set removed = {k. provisioned s k = None \<and> Registry_Lookup r k \<noteq> None}"
proof -
  from assms(2) obtain gs byID where l: "load s = (Inr gs, s')" and m: "toGridMap gs = Inr byID"
    and r': "rg_current r' = Some (newSnapshot byID)"
    and d: "(added, removed) = diffGridIDs (rg_current r) byID"
    by (cases rule: refreshOnce_cases) auto
  have eq: "map_of byID = provisioned s"
    using refreshed_exact(1) [OF assms(1,2)] newSnapshot_Lookup [OF toGridMap_Inr(3) [OF m]]
    by (simp add: Registry_Lookup_def r' fun_eq_iff)
  have dom: "fst ` set kvs = {k. map_of kvs k \<noteq> None}" for kvs :: grid_map
    by (auto simp: map_of_eq_None_iff)
  show "set added = {k. provisioned s k \<noteq> None \<and> Registry_Lookup r k = None}"
    "set removed = {k. provisioned s k = None \<and> Registry_Lookup r k \<noteq> None}"
    using d by (auto simp: diffGridIDs_def eq dom Registry_Lookup_def Snapshot_Lookup_def
        split: option.splits)
qed

lemma kept_unchanged:
  "refreshOnce load (r, s) = (KeptLastGood e, (r', s')) \<Longrightarrow> r' = r"
  by (erule refreshOnce_cases) auto

text \<open>
  However often the registry is refreshed, it is the one there was or the provisioned grids of some
  moment at which a refresh ran: never a mixture, never empty, never unready again.
\<close>

lemma Start_snapshot:
  assumes "registry_ok r" "Ready r" "inv s" "\<forall>t \<in> set ticks. \<forall>q. inv q \<longrightarrow> inv (t q)"
    and "Start load ticks (r, s) = (r', s')"
  shows "registry_ok r' \<and> Ready r' \<and>
    (r' = r \<or> (\<exists>s0. inv s0 \<and> Registry_Lookup r' = provisioned s0 \<and> (\<exists>k. provisioned s0 k \<noteq> None)))"
  using assms
proof (induction ticks arbitrary: r s)
  case (Cons t ticks)
  obtain nt r1 s1 where one: "refreshOnce load (r, t s) = (nt, (r1, s1))" by (metis surj_pair)
  have rest: "Start load ticks (r1, s1) = (r', s')" using Cons.prems(5) one by simp
  have inv: "inv (t s)" using Cons.prems(3,4) by simp
  have "inv s1"
    using one inv by (cases rule: refreshOnce_cases) (metis load_keeps surjective_pairing snd_conv)+
  note IH = Cons.IH [OF refreshOnce_registry_ok [OF one Cons.prems(1)] refreshOnce_Ready [OF one Cons.prems(2)]
      this _ rest]
  have "r1 = r \<or> (\<exists>s0. inv s0 \<and> Registry_Lookup r1 = provisioned s0 \<and> (\<exists>k. provisioned s0 k \<noteq> None))"
    using one refreshed_exact [OF inv] kept_unchanged inv by (cases nt) metis+
  with IH Cons.prems(4) show ?case by auto
qed simp

end

definition grid_of_row :: "grids_row \<Rightarrow> Grid" where
  "grid_of_row g = \<lparr>gr_GridID = g_grid_id g, gr_Lat = g_lat g, gr_Lon = g_lon g\<rparr>"

definition provisioned_grids :: "pg \<Rightarrow> string \<Rightarrow> Grid option" where
  "provisioned_grids p k =
     map_option grid_of_row (find (\<lambda>g. g_grid_id g = k) (t_grids (pg_tables p)))"

lemma LoadGrids_Inr:
  assumes "LoadGrids p = (Inr gs, p')"
  shows "gs = map grid_of_row (t_grids (pg_tables p))"
  using assms by (auto simp: LoadGrids_def inversion grid_of_row_def selectGridsSQL_def fun_eq_iff dest!: stmt_InrD)

lemma LoadGrids_tables [frame]: "LoadGrids p = (res, p') \<Longrightarrow> pg_tables p' = pg_tables p"
  by (auto simp: LoadGrids_def andThen_def onSql_def selectGridsSQL_def split: prod.splits sum.splits
      dest!: stmt_read [rotated])

interpretation grids: grid_source LoadGrids provisioned_grids "\<lambda>p. tables_ok (pg_tables p)"
proof
  fix p gs p'
  assume ok: "tables_ok (pg_tables p)" and l: "LoadGrids p = (Inr gs, p')"
  have d: "distinct (map g_grid_id (t_grids (pg_tables p)))" using ok by (simp add: tables_ok_def)
  have "provisioned_grids p k = Some g \<longleftrightarrow> g \<in> set gs \<and> gr_GridID g = k" for k g
    unfolding LoadGrids_Inr [OF l] provisioned_grids_def
    using find_distinct_key [OF d]
    by (auto simp: grid_of_row_def dest!: find_Some_in)
  moreover have "wf_grids gs"
    using d by (simp add: LoadGrids_Inr [OF l] wf_grids_def grid_of_row_def comp_def)
  ultimately show "wf_grids gs \<and> (\<forall>k g. provisioned_grids p k = Some g \<longleftrightarrow> g \<in> set gs \<and> gr_GridID g = k)"
    by blast
next
  fix p res p'
  assume "LoadGrids p = (res, p')"
  then show "provisioned_grids p' = provisioned_grids p \<and> tables_ok (pg_tables p') = tables_ok (pg_tables p)"
    by (auto simp: provisioned_grids_def fun_eq_iff dest: LoadGrids_tables)
qed

section \<open>Properties\<close>

text \<open>
  C20. A successful start-up or refresh makes the registry admit exactly the grids of
  \<^verbatim>\<open>iot_data.grids\<close> (and there is at least one), and the identifiers it logs as added and removed are
  the difference to the previous snapshot.  A refresh that fails, for whatever reason, keeps the last
  known-good snapshot.
\<close>

theorem refresh_exact:
  assumes "tables_ok (pg_tables p)" "registry_ok r" "refreshOnce LoadGrids (r, p) = (nt, (r', p'))"
  shows "case nt of
      Refreshed n added removed \<Rightarrow> Registry_Lookup r' = provisioned_grids p \<and>
        (\<exists>k. provisioned_grids p k \<noteq> None) \<and>
        set added = {k. provisioned_grids p k \<noteq> None \<and> Registry_Lookup r k = None} \<and>
        set removed = {k. provisioned_grids p k = None \<and> Registry_Lookup r k \<noteq> None}
    | KeptLastGood e \<Rightarrow> r' = r"
  using assms grids.refreshed_exact [of p r] grids.refresh_diff [of p r] grids.kept_unchanged [of r p]
  by (cases nt) auto

text \<open>
  C21. Once bootstrapped the service stays ready: through any number of refreshes, with grids being added
  and removed and the database failing in between, the registry is never empty or half-updated but always
  the bootstrapped snapshot or the complete set of provisioned grids of some moment.
\<close>

theorem registry_stays_ready:
  assumes "tables_ok (pg_tables p)" "\<forall>t \<in> set ticks. \<forall>q. tables_ok (pg_tables q) \<longrightarrow> tables_ok (pg_tables (t q))"
    and "Bootstrap LoadGrids (NewRegistry, p) = (Inr n, (r, p1))"
    and "Start LoadGrids ticks (r, p1) = (r', p')"
  shows "Ready r' \<and> registry_ok r' \<and>
    (\<exists>q. tables_ok (pg_tables q) \<and> Registry_Lookup r' = provisioned_grids q \<and> (\<exists>k. provisioned_grids q k \<noteq> None))"
proof -
  obtain added removed where b: "refreshOnce LoadGrids (NewRegistry, p) = (Refreshed n added removed, (r, p1))"
    using assms(3) by (auto simp: Bootstrap_refresh split: prod.splits refresh_note.splits)
  have r: "registry_ok r"
    by (rule refreshOnce_registry_ok [OF b]) (simp add: registry_ok_def NewRegistry_def)
  have "Ready r" using b by (cases rule: refreshOnce_cases) (auto simp: Ready_def)
  moreover have "tables_ok (pg_tables p1)"
    using b assms(1) by (cases rule: refreshOnce_cases) (auto dest: LoadGrids_tables)
  ultimately show ?thesis
    using grids.Start_snapshot [OF r _ _ assms(2,4)] grids.refreshed_exact [OF assms(1) b] assms(1) by blast
qed

lemma sample_LoadGrids:
  "LoadGrids (quiet_pg sample_tables 0) =
     (Inr [\<lparr>gr_GridID = ''g1'', gr_Lat = Fin 25, gr_Lon = Fin 55\<rparr>], quiet_pg sample_tables 0)"
  by (simp add: LoadGrids_def andThen_def onSql_stmt_quiet selectGridsSQL_def quiet_pg_def sample_tables_def)

definition sample_registry :: Registry where
  "sample_registry = \<lparr>rg_current = Some \<lparr>sn_grids = [(''g1'', \<lparr>gr_GridID = ''g1'', gr_Lat = Fin 25, gr_Lon = Fin 55\<rparr>)]\<rparr>\<rparr>"

lemma sample_Bootstrap:
  "Bootstrap LoadGrids (NewRegistry, quiet_pg sample_tables 0) = (Inr 1, (sample_registry, quiet_pg sample_tables 0))"
  by (simp add: Bootstrap_def sample_LoadGrids toGridMap_def Publish_def newSnapshot_def NewRegistry_def
      sample_registry_def)

theorem refresh_exact_witness:
  "\<exists>nt r'. refreshOnce LoadGrids (sample_registry, quiet_pg sample_tables 0) = (nt, (r', quiet_pg sample_tables 0)) \<and>
     nt = Refreshed 1 [] [] \<and> Registry_Lookup r' = provisioned_grids (quiet_pg sample_tables 0)"
proof -
  have ok: "registry_ok sample_registry" by (simp add: registry_ok_def sample_registry_def)
  have one: "\<exists>r'. refreshOnce LoadGrids (sample_registry, quiet_pg sample_tables 0) =
      (Refreshed 1 [] [], (r', quiet_pg sample_tables 0))"
    by (simp add: refreshOnce_def sample_LoadGrids toGridMap_def Publish_def diffGridIDs_def
        Snapshot_Lookup_def sample_registry_def)
  then show ?thesis
    using refresh_exact [of "quiet_pg sample_tables 0" sample_registry] ok sample_tables_ok by fastforce
qed

theorem registry_stays_ready_witness:
  "\<exists>r' p'. Start LoadGrids [id] (sample_registry, quiet_pg sample_tables 0) = (r', p') \<and> Ready r' \<and> registry_ok r'"
proof -
  obtain r' p' where s: "Start LoadGrids [id] (sample_registry, quiet_pg sample_tables 0) = (r', p')" by force
  show ?thesis using registry_stays_ready [OF _ _ sample_Bootstrap s] s sample_tables_ok by simp
qed

end
