(* ===== verification/Handlers.thy ===== *)
theory Handlers
  imports FailureStore HouseRegistry Admission
begin

text \<open>
  \<^verbatim>\<open>internal/ingestion\<close>: \<^verbatim>\<open>options.go\<close>, \<^verbatim>\<open>router.go\<close>, \<^verbatim>\<open>meter_handler.go\<close>, \<^verbatim>\<open>heartbeat_handler.go\<close> and
  \<^verbatim>\<open>actuation_handler.go\<close>: what one Kafka record does to the two stores, and the wiring of handlers to
  topics.  Logging and metrics are not modelled.
\<close>

section \<open>Input limits and the cache policy\<close>

record InputLimits =
  il_MaxRecordBytes :: int
  il_EnforceHouseKey :: bool

text \<open>A nil slice has length zero and no bytes.\<close>

definition bytes_of :: "bytes option \<Rightarrow> bytes" where
  "bytes_of b = (case b of None \<Rightarrow> [] | Some x \<Rightarrow> x)"

definition checkSize :: "InputLimits \<Rightarrow> bytes option \<Rightarrow> go_error option" where
  "checkSize l v =
     (if il_MaxRecordBytes l > 0 \<and> int (length (bytes_of v)) > il_MaxRecordBytes l
      then Some (NewValidationError ''payload''
             (''record is '' @ show_nat (length (bytes_of v)) @ '' bytes, larger than the '' @
              show_int (il_MaxRecordBytes l) @ '' byte limit''))
      else None)"

definition checkKey :: "InputLimits \<Rightarrow> bytes option \<Rightarrow> string \<Rightarrow> string \<Rightarrow> go_error option" where
  "checkKey l key gridID houseID =
     (if \<not> il_EnforceHouseKey l \<or> length (bytes_of key) = 0 then None
      else let k = bytes_of key in
        if k = houseID then None
        else let parts = Split (CHR ''/'') k in
          if length parts = 4 \<and> parts ! 0 = ''gridx'' \<and> parts ! 1 = gridID \<and> parts ! 2 = houseID
          then None
          else Some (NewValidationError ''key''
                 ''Kafka record key does not match the payload grid_id/house_id''))"

datatype CachePolicy = CacheRequired | CacheAsyncRepair

definition absorbCacheError :: "CachePolicy \<Rightarrow> go_error option \<Rightarrow> go_error option" where
  "absorbCacheError policy err = (if err = None \<or> policy \<noteq> CacheAsyncRepair then err else None)"

section \<open>Handlers\<close>

record MeterRegisteredPayload =
  mrp_EventType :: string
  mrp_Timestamp :: string
  mrp_HouseID :: string
  mrp_MeterID :: string
  mrp_GridID :: string
  mrp_DeviceClass :: string
  mrp_RatedSolarKw :: float64

text \<open>
  What a handler reads of its surroundings: the standard library's parsers, the clock and the current
  grid snapshot.
\<close>

record handler_env =
  he_std :: go_std
  he_unmarshalRegistered :: "bytes \<Rightarrow> string + MeterRegisteredPayload"
  he_registry :: Registry
  he_now :: int

text \<open>A call returns an error (or nil) or panics.\<close>

datatype outcome = Returned "go_error option" | Panicked string

type_synonym handler = "handler_env \<Rightarrow> bytes option \<Rightarrow> bytes option \<Rightarrow> world \<Rightarrow> outcome \<times> world"

definition returning :: "(world, unit) act \<Rightarrow> world \<Rightarrow> outcome \<times> world" where
  "returning m w =
     (case m w of (Inl e, w') \<Rightarrow> (Returned (Some e), w') | (Inr _, w') \<Rightarrow> (Returned None, w'))"

definition guarding :: "string \<Rightarrow> go_error option \<Rightarrow> ('s, unit) act" where
  "guarding pre c = (case c of None \<Rightarrow> ret () | Some e \<Rightarrow> throw (Errorf_w pre e))"

definition absorbing :: "CachePolicy \<Rightarrow> string \<Rightarrow> ('s, 'a) act \<Rightarrow> ('s, unit) act" where
  "absorbing policy pre m s =
     (case m s of
        (Inr _, s') \<Rightarrow> (Inr (), s')
      | (Inl e, s') \<Rightarrow>
          (case absorbCacheError policy (Some (Errorf_w pre e)) of
             None \<Rightarrow> (Inr (), s') | Some e' \<Rightarrow> (Inl e', s')))"

record MeterHandler =
  mh_limits :: InputLimits
  mh_policy :: CachePolicy

definition MeterHandler_HandleRecord ::
    "MeterHandler \<Rightarrow> handler_env \<Rightarrow> bytes option \<Rightarrow> bytes option \<Rightarrow> (world, unit) act" where
  "MeterHandler_HandleRecord h env key v =
     andThen (guarding ''decode meter reading: '' (checkSize (mh_limits h) v)) (\<lambda>_.
     andThen (liftE (failWith (Errorf_w ''decode meter reading: '')
                (DecodeMeterReading (he_std env) (he_now env) (bytes_of v)))) (\<lambda>reading.
     andThen (guarding ''decode meter reading: ''
                (checkKey (mh_limits h) key (mr_GridID reading) (mr_HouseID reading))) (\<lambda>_.
     if Registry_Lookup (he_registry env) (mr_GridID reading) = None
     then throw (unknown_grid (mr_GridID reading))
     else andThen (onPg (wrapErr (Errorf_w (''persist meter reading '' @ mr_MeterID reading @ '' seq '' @
                      show_int (mr_Seq reading) @ '': '')) (InsertMeterReading reading))) (\<lambda>inserted.
       onRedis (absorbing (mh_policy h) (''update latest state for '' @ mr_MeterID reading @ '': '')
         (SetLatestIfNewer (ProjectionOf reading)))))))"

fun duplicateAssetLoop :: "nat \<Rightarrow> string list \<Rightarrow> FlexibleAsset list \<Rightarrow> go_error option" where
  "duplicateAssetLoop i seen [] = None"
| "duplicateAssetLoop i seen (a # as) =
     (if fa_AssetID a \<in> set seen
      then Some (NewValidationError (''flexible_assets['' @ show_nat i @ ''].asset_id'')
             ''duplicate asset_id in flexible_assets'')
      else duplicateAssetLoop (i + 1) (fa_AssetID a # seen) as)"

definition checkDuplicateAssetIDs :: "Heartbeat \<Rightarrow> go_error option" where
  "checkDuplicateAssetIDs hb = duplicateAssetLoop 0 [] (hb_FlexibleAssets hb)"

record HeartbeatHandler =
  hh_limits :: InputLimits
  hh_policy :: CachePolicy

definition HeartbeatHandler_HandleRecord ::
    "HeartbeatHandler \<Rightarrow> handler_env \<Rightarrow> bytes option \<Rightarrow> bytes option \<Rightarrow> (world, unit) act" where
  "HeartbeatHandler_HandleRecord h env key v =
     (let receivedAt = time_Truncate ns_microsecond (he_now env) in
     andThen (guarding ''decode heartbeat: '' (checkSize (hh_limits h) v)) (\<lambda>_.
     andThen (liftE (failWith (Errorf_w ''decode heartbeat: '')
                (DecodeHeartbeat (he_std env) (bytes_of v)))) (\<lambda>hb.
     andThen (guarding ''decode heartbeat: ''
                (checkKey (hh_limits h) key (hb_GridID hb) (hb_HouseID hb))) (\<lambda>_.
     if Registry_Lookup (he_registry env) (hb_GridID hb) = None
     then throw (unknown_grid (hb_GridID hb))
     else andThen (guarding (''heartbeat for '' @ hb_HouseID hb @ '': '') (checkDuplicateAssetIDs hb)) (\<lambda>_.
       andThen (onPg (wrapErr (Errorf_w (''persist heartbeat for '' @ hb_HouseID hb @ '': ''))
                  (ApplyHeartbeat hb receivedAt))) (\<lambda>_.
       onRedis (absorbing (hh_policy h) (''update heartbeat state for '' @ hb_HouseID hb @ '': '')
         (UpdateHeartbeat (hb_GridID hb) (hb_HouseID hb)
            \<lparr>hs_Status = hb_Status hb, hs_LastHeartbeatAt = receivedAt\<rparr>))))))))"

text \<open>
  The actuation handler's \<^verbatim>\<open>store\<close> field is an interface value; nil is \<open>None\<close>, and calling a method on
  it panics.
\<close>

type_synonym house_registrar =
  "string \<Rightarrow> string \<Rightarrow> string \<Rightarrow> DeviceClass \<Rightarrow> float64 option \<Rightarrow> (world, string) act"

record ActuationHandler =
  ah_store :: "house_registrar option"

definition NewActuationHandler :: ActuationHandler where
  "NewActuationHandler = \<lparr>ah_store = None\<rparr>"

definition ActuationHandler_HandleRecord :: "ActuationHandler \<Rightarrow> handler" where
  "ActuationHandler_HandleRecord h env key v w =
     (case he_unmarshalRegistered env (bytes_of v) of
        Inl t \<Rightarrow> (Returned (Some (Errorf_w ''decode meter registered payload: '' (errors_New t))), w)
      | Inr payload \<Rightarrow>
          (case ah_store h of
             None \<Rightarrow> (Panicked ''runtime error: invalid memory address or nil pointer dereference'', w)
           | Some register \<Rightarrow>
               (case register (mrp_HouseID payload) (mrp_GridID payload) (mrp_MeterID payload)
                       (mrp_DeviceClass payload) (Some (mrp_RatedSolarKw payload)) w of
                  (Inl e, w') \<Rightarrow>
                    (Returned (Some (Errorf_w (''failed to register house '' @
                        go_quote (mrp_HouseID payload) @ '' from simulation response: '') e)), w')
                | (Inr _, w') \<Rightarrow> (Returned None, w'))))"

section \<open>The router\<close>

type_synonym Router = "(string \<times> handler) list"

definition NewRouter :: Router where
  "NewRouter = []"

definition Register :: "string \<Rightarrow> handler \<Rightarrow> Router \<Rightarrow> Router" where
  "Register topic h r = AList.update topic h r"

definition no_handler :: "string \<Rightarrow> go_error" where
  "no_handler topic =
     sentinel_error ErrNoHandler (''ingestion: no handler registered for topic: '' @ go_quote topic)"

definition Route :: "Router \<Rightarrow> string \<Rightarrow> handler" where
  "Route r topic env key v w =
     (case map_of r topic of
        None \<Rightarrow> (Returned (Some (no_handler topic)), w)
      | Some h \<Rightarrow> h env key v w)"

text \<open>The wiring of \<^verbatim>\<open>internal/app/app.go\<close>, which refuses equal meter and heartbeat topics first.\<close>

record kafka_topics =
  kt_MeterTopic :: string
  kt_HeartbeatTopic :: string
  kt_ActuationResponseTopic :: string

definition wire_router :: "kafka_topics \<Rightarrow> InputLimits \<Rightarrow> CachePolicy \<Rightarrow> go_error + Router" where
  "wire_router t limits policy =
     (if kt_MeterTopic t = kt_HeartbeatTopic t
      then Inl (errors_New (''kafka: meter and heartbeat topics must differ, both are '' @
             go_quote (kt_MeterTopic t)))
      else Inr
        (Register (kt_ActuationResponseTopic t) (ActuationHandler_HandleRecord NewActuationHandler)
        (Register (kt_HeartbeatTopic t)
           (\<lambda>env key v. returning (HeartbeatHandler_HandleRecord
              \<lparr>hh_limits = limits, hh_policy = policy\<rparr> env key v))
        (Register (kt_MeterTopic t)
           (\<lambda>env key v. returning (MeterHandler_HandleRecord
              \<lparr>mh_limits = limits, mh_policy = policy\<rparr> env key v))
         NewRouter))))"

text \<open>The replay command wires the meter and heartbeat topics only, with the cache required.\<close>

definition replay_router :: "kafka_topics \<Rightarrow> InputLimits \<Rightarrow> Router" where
  "replay_router t limits =
     Register (kt_HeartbeatTopic t)
       (\<lambda>env key v. returning (HeartbeatHandler_HandleRecord
          \<lparr>hh_limits = limits, hh_policy = CacheRequired\<rparr> env key v))
     (Register (kt_MeterTopic t)
       (\<lambda>env key v. returning (MeterHandler_HandleRecord
          \<lparr>mh_limits = limits, mh_policy = CacheRequired\<rparr> env key v))
      NewRouter)"

text \<open>Both handlers of that router return, so the last case, a panic that would end the command, does not occur.\<close>

definition replay_record :: "kafka_topics \<Rightarrow> InputLimits \<Rightarrow> handler_env \<Rightarrow> replay_fn" where
  "replay_record t limits env row w =
     (case Route (replay_router t limits) (fr_Topic row) env (fr_Key row) (fr_RawPayload row) w of
        (Returned (Some e), w') \<Rightarrow> (('''', Some e), w')
      | (Returned None, w') \<Rightarrow> ((''replayed'', None), w')
      | (Panicked t, w') \<Rightarrow> (('''', None), w'))"

section \<open>Well-formed worlds are kept\<close>

definition exact_reading :: "MeterReading \<Rightarrow> bool" where
  "exact_reading r \<longleftrightarrow> exact_projection (ProjectionOf r)"

lemma guarding_Inr [inversion]: "guarding pre c s = (Inr u, s') \<longleftrightarrow> c = None \<and> s' = s"
  by (auto simp: guarding_def split: option.splits)

lemma guarding_Inl: "guarding pre c s = (Inl e, s') \<longleftrightarrow> (\<exists>x. c = Some x \<and> e = Errorf_w pre x) \<and> s' = s"
  by (auto simp: guarding_def split: option.splits)

lemma returning_None: "returning m w = (Returned None, w') \<longleftrightarrow> (\<exists>u. m w = (Inr u, w'))"
  by (auto simp: returning_def split: prod.splits sum.splits)

lemma returning_Some: "returning m w = (Returned (Some e), w') \<longleftrightarrow> m w = (Inl e, w')"
  by (auto simp: returning_def split: prod.splits sum.splits)

lemma returning_never_panics: "returning m w \<noteq> (Panicked t, w')"
  by (auto simp: returning_def split: prod.splits sum.splits)

text \<open>What a successful cache step tells: the write was acknowledged, or the policy forgave it.\<close>

lemma absorbing_Inr:
  assumes "absorbing policy pre m s = (Inr u, s')"
  obtains (acknowledged) x where "m s = (Inr x, s')"
  | (forgiven) e where "m s = (Inl e, s')" "policy = CacheAsyncRepair"
  using assms by (auto simp: absorbing_def absorbCacheError_def split: prod.splits sum.splits option.splits if_splits)

lemma absorbing_Inl:
  "absorbing policy pre m s = (Inl e, s') \<longleftrightarrow>
     (\<exists>x. m s = (Inl x, s') \<and> e = Errorf_w pre x \<and> policy = CacheRequired)"
  by (cases policy)
     (auto simp: absorbing_def absorbCacheError_def split: prod.splits sum.splits)

section \<open>Admission of a record\<close>

text \<open>
  Everything a handler decides before it writes: the reading or heartbeat it will persist, or the error
  it returns.
\<close>

definition admit_meter ::
    "MeterHandler \<Rightarrow> handler_env \<Rightarrow> bytes option \<Rightarrow> bytes option \<Rightarrow> go_error + MeterReading" where
  "admit_meter h env key v =
     (case checkSize (mh_limits h) v of
        Some e \<Rightarrow> Inl (Errorf_w ''decode meter reading: '' e)
      | None \<Rightarrow>
        (case DecodeMeterReading (he_std env) (he_now env) (bytes_of v) of
           Inl e \<Rightarrow> Inl (Errorf_w ''decode meter reading: '' e)
         | Inr r \<Rightarrow>
           (case checkKey (mh_limits h) key (mr_GridID r) (mr_HouseID r) of
              Some e \<Rightarrow> Inl (Errorf_w ''decode meter reading: '' e)
            | None \<Rightarrow>
              if Registry_Lookup (he_registry env) (mr_GridID r) = None then Inl (unknown_grid (mr_GridID r))
              else Inr r)))"

definition admit_heartbeat ::
    "HeartbeatHandler \<Rightarrow> handler_env \<Rightarrow> bytes option \<Rightarrow> bytes option \<Rightarrow> go_error + Heartbeat" where
  "admit_heartbeat h env key v =
     (case checkSize (hh_limits h) v of
        Some e \<Rightarrow> Inl (Errorf_w ''decode heartbeat: '' e)
      | None \<Rightarrow>
        (case DecodeHeartbeat (he_std env) (bytes_of v) of
           Inl e \<Rightarrow> Inl (Errorf_w ''decode heartbeat: '' e)
         | Inr hb \<Rightarrow>
           (case checkKey (hh_limits h) key (hb_GridID hb) (hb_HouseID hb) of
              Some e \<Rightarrow> Inl (Errorf_w ''decode heartbeat: '' e)
            | None \<Rightarrow>
              if Registry_Lookup (he_registry env) (hb_GridID hb) = None then Inl (unknown_grid (hb_GridID hb))
              else Inr hb)))"

text \<open>The decoder has refused duplicate assets already, so the second check never fires.\<close>

lemma duplicateAssetLoop_None:
  "duplicateAssetLoop i seen as = None \<longleftrightarrow>
     distinct (map fa_AssetID as) \<and> fa_AssetID ` set as \<inter> set seen = {}"
  by (induction as arbitrary: i seen) auto

lemma checkDuplicateAssetIDs_None: "checkDuplicateAssetIDs hb = None \<longleftrightarrow> distinct (map fa_AssetID (hb_FlexibleAssets hb))"
  by (simp add: checkDuplicateAssetIDs_def duplicateAssetLoop_None)

lemma DecodeHeartbeat_ok: "DecodeHeartbeat std raw = Inr hb \<Longrightarrow> heartbeat_ok hb"
  by (auto simp: DecodeHeartbeat_Inr intro: heartbeat_of_wire_ok)

lemma DecodeMeterReading_ok: "DecodeMeterReading std now raw = Inr r \<Longrightarrow> reading_ok r"
  by (auto simp: DecodeMeterReading_Inr intro: meter_of_wire_ok)

lemma MeterHandler_split:
  "MeterHandler_HandleRecord h env key v w =
     (case admit_meter h env key v of
        Inl e \<Rightarrow> (Inl e, w)
      | Inr r \<Rightarrow> andThen (onPg (wrapErr (Errorf_w (''persist meter reading '' @ mr_MeterID r @ '' seq '' @
                      show_int (mr_Seq r) @ '': '')) (InsertMeterReading r))) (\<lambda>inserted.
          onRedis (absorbing (mh_policy h) (''update latest state for '' @ mr_MeterID r @ '': '')
            (SetLatestIfNewer (ProjectionOf r)))) w)"
proof (cases "DecodeMeterReading (he_std env) (he_now env) (bytes_of v)")
  case (Inr r)
  then show ?thesis
    by (cases "Registry_Lookup (he_registry env) (mr_GridID r)")
       (simp_all add: MeterHandler_HandleRecord_def admit_meter_def andThen_def guarding_def
          split: option.split)
qed (simp add: MeterHandler_HandleRecord_def admit_meter_def andThen_def guarding_def split: option.split)

lemma HeartbeatHandler_split:
  "HeartbeatHandler_HandleRecord h env key v w =
     (case admit_heartbeat h env key v of
        Inl e \<Rightarrow> (Inl e, w)
      | Inr hb \<Rightarrow> andThen (onPg (wrapErr (Errorf_w (''persist heartbeat for '' @ hb_HouseID hb @ '': ''))
                  (ApplyHeartbeat hb (time_Truncate ns_microsecond (he_now env))))) (\<lambda>_.
          onRedis (absorbing (hh_policy h) (''update heartbeat state for '' @ hb_HouseID hb @ '': '')
            (UpdateHeartbeat (hb_GridID hb) (hb_HouseID hb)
               \<lparr>hs_Status = hb_Status hb,
                hs_LastHeartbeatAt = time_Truncate ns_microsecond (he_now env)\<rparr>))) w)"
proof (cases "DecodeHeartbeat (he_std env) (bytes_of v)")
  case (Inr hb)
  then have "checkDuplicateAssetIDs hb = None"
    using DecodeHeartbeat_ok by (simp add: checkDuplicateAssetIDs_None heartbeat_ok_def)
  with Inr show ?thesis
    by (cases "Registry_Lookup (he_registry env) (hb_GridID hb)")
       (simp_all add: HeartbeatHandler_HandleRecord_def admit_heartbeat_def andThen_def guarding_def Let_def
          split: option.split)
qed (simp add: HeartbeatHandler_HandleRecord_def admit_heartbeat_def andThen_def guarding_def Let_def
      split: option.split)

lemma errors_Is_unknown_grid [simp]: "errors_Is (unknown_grid g) s \<longleftrightarrow> s = ErrUnknownGrid"
  by (simp add: unknown_grid_def)

lemma check_errors:
  "checkSize l v = Some e \<Longrightarrow> errors_Is e ErrValidation"
  "checkKey l key g h = Some e \<Longrightarrow> errors_Is e ErrValidation"
  by (auto simp: checkSize_def checkKey_def Let_def split: if_splits)

lemma admit_meter_Inl: "admit_meter h env key v = Inl e \<Longrightarrow> errors_Is e ErrValidation \<or> errors_Is e ErrUnknownGrid"
  by (auto simp: admit_meter_def split: option.splits sum.splits if_splits
      dest: check_errors DecodeMeterReading_rejects)

lemma admit_heartbeat_Inl: "admit_heartbeat h env key v = Inl e \<Longrightarrow> errors_Is e ErrValidation \<or> errors_Is e ErrUnknownGrid"
  by (auto simp: admit_heartbeat_def split: option.splits sum.splits if_splits
      dest: check_errors DecodeHeartbeat_rejects)

lemma admit_meter_Inr:
  "admit_meter h env key v = Inr r \<Longrightarrow>
     DecodeMeterReading (he_std env) (he_now env) (bytes_of v) = Inr r \<and> reading_ok r \<and>
     Registry_Lookup (he_registry env) (mr_GridID r) \<noteq> None"
  by (auto simp: admit_meter_def split: option.splits sum.splits if_splits dest: DecodeMeterReading_ok)

lemma admit_heartbeat_Inr:
  "admit_heartbeat h env key v = Inr hb \<Longrightarrow>
     DecodeHeartbeat (he_std env) (bytes_of v) = Inr hb \<and> heartbeat_ok hb \<and>
     Registry_Lookup (he_registry env) (hb_GridID hb) \<noteq> None"
  by (auto simp: admit_heartbeat_def split: option.splits sum.splits if_splits dest: DecodeHeartbeat_ok)

section \<open>Runs of the handlers\<close>

text \<open>The database part and the cache part of a run, whatever its outcome.\<close>

lemma MeterHandler_run:
  assumes "MeterHandler_HandleRecord h env key v w = (res, w')"
  obtains (refused) e where "admit_meter h env key v = Inl e" "res = Inl e" "w' = w"
  | (failed) r e where "admit_meter h env key v = Inr r" "InsertMeterReading r (w_pg w) = (Inl e, w_pg w')"
      "w_redis w' = w_redis w" "isl res"
  | (stored) r b x where "admit_meter h env key v = Inr r" "InsertMeterReading r (w_pg w) = (Inr b, w_pg w')"
      "SetLatestIfNewer (ProjectionOf r) (w_redis w) = (x, w_redis w')"
      "isl res \<longleftrightarrow> isl x \<and> mh_policy h = CacheRequired"
proof (cases "admit_meter h env key v")
  case (Inl e)
  with assms show thesis by (intro refused) (auto simp: MeterHandler_split)
next
  case (Inr r)
  obtain y p1 where p: "InsertMeterReading r (w_pg w) = (y, p1)" by force
  obtain x c1 where c: "SetLatestIfNewer (ProjectionOf r) (w_redis w) = (x, c1)" by force
  show thesis
  proof (cases y)
    case i: (Inl e)
    with assms Inr p show thesis
      by (intro failed [of r e]) (auto simp: MeterHandler_split andThen_def onPg_def wrapErr_def)
  next
    case s: (Inr b)
    with assms Inr p c show thesis
      by (intro stored [of r b x])
         (cases "mh_policy h"; auto simp: MeterHandler_split andThen_def onPg_def wrapErr_def onRedis_def
            absorbing_def absorbCacheError_def split: sum.splits)+
  qed
qed

lemma HeartbeatHandler_run:
  fixes env :: handler_env
  defines "t \<equiv> time_Truncate ns_microsecond (he_now env)"
  assumes "HeartbeatHandler_HandleRecord h env key v w = (res, w')"
  obtains (refused) e where "admit_heartbeat h env key v = Inl e" "res = Inl e" "w' = w"
  | (failed) hb e where "admit_heartbeat h env key v = Inr hb"
      "ApplyHeartbeat hb t (w_pg w) = (Inl e, w_pg w')" "w_redis w' = w_redis w" "isl res"
  | (stored) hb x where "admit_heartbeat h env key v = Inr hb"
      "ApplyHeartbeat hb t (w_pg w) = (Inr (), w_pg w')"
      "UpdateHeartbeat (hb_GridID hb) (hb_HouseID hb)
         \<lparr>hs_Status = hb_Status hb, hs_LastHeartbeatAt = t\<rparr> (w_redis w) = (x, w_redis w')"
      "isl res \<longleftrightarrow> isl x \<and> hh_policy h = CacheRequired"
proof (cases "admit_heartbeat h env key v")
  case (Inl e)
  with assms show thesis by (intro refused) (auto simp: HeartbeatHandler_split)
next
  case (Inr hb)
  let ?st = "\<lparr>hs_Status = hb_Status hb, hs_LastHeartbeatAt = t\<rparr>"
  obtain y p1 where p: "ApplyHeartbeat hb t (w_pg w) = (y, p1)" by force
  obtain x c1 where c: "UpdateHeartbeat (hb_GridID hb) (hb_HouseID hb) ?st (w_redis w) = (x, c1)" by force
  show thesis
  proof (cases y)
    case i: (Inl e)
    with assms Inr p show thesis
      by (intro failed [of hb e]) (auto simp: HeartbeatHandler_split andThen_def onPg_def wrapErr_def)
  next
    case s: (Inr b)
    with assms Inr p c show thesis
      by (intro stored [of hb x])
         (cases "hh_policy h"; auto simp: HeartbeatHandler_split andThen_def onPg_def wrapErr_def onRedis_def
            absorbing_def absorbCacheError_def split: sum.splits)+
  qed
qed

text \<open>Handlers keep the stores well formed, and leave the failure table and the grids alone.\<close>

lemma InsertMeterReading_keeps:
  "(\<And>T x y. f (T\<lparr>t_meter_readings := x, t_storage_readings := y\<rparr>) = f T) \<Longrightarrow>
   InsertMeterReading r p = (res, q) \<Longrightarrow> f (pg_tables q) = f (pg_tables p)"
  by (erule InsertMeterReading_cases) (simp_all add: record_reading_def)

lemma MeterHandler_world_ok [invariants]:
  assumes "MeterHandler_HandleRecord h env key v w = (res, w')" "world_ok w"
    and "\<And>r. admit_meter h env key v = Inr r \<Longrightarrow> exact_reading r"
  shows "world_ok w'"
  using assms(1)
proof (cases rule: MeterHandler_run)
  case (failed r e)
  with assms(2) show ?thesis by (auto simp: world_ok_def dest: InsertMeterReading_tables_ok)
next
  case (stored r b x)
  with assms(2,3) latest.put_inv [OF _ _ stored(3)] show ?thesis
    by (auto simp: world_ok_def exact_reading_def dest: InsertMeterReading_tables_ok)
qed (use assms in simp)

lemma HeartbeatHandler_world_ok [invariants]:
  assumes "HeartbeatHandler_HandleRecord h env key v w = (res, w')" "world_ok w"
  shows "world_ok w'"
  using assms(1)
proof (cases rule: HeartbeatHandler_run)
  case (failed hb e)
  with assms(2) admit_heartbeat_Inr ApplyHeartbeat_tables_ok [OF _ _ failed(2)] show ?thesis
    by (simp add: world_ok_def)
next
  case (stored hb x)
  have "redis_ok (w_redis w')"
    using stored(3) assms(2) updateHeartbeatWithTTL_effect(1) [of "w_redis w" HeartbeatTTL]
    by (simp add: UpdateHeartbeat_def world_ok_def HeartbeatTTL_def)
  with assms(2) admit_heartbeat_Inr [OF stored(1)] ApplyHeartbeat_tables_ok [OF _ _ stored(2)] show ?thesis
    by (simp add: world_ok_def)
qed (use assms in simp)

lemma MeterHandler_frame:
  assumes "MeterHandler_HandleRecord h env key v w = (res, w')"
    and "\<And>T x y. f (T\<lparr>t_meter_readings := x, t_storage_readings := y\<rparr>) = f T"
  shows "f (pg_tables (w_pg w')) = f (pg_tables (w_pg w))"
  using assms(1) by (cases rule: MeterHandler_run) (auto dest: InsertMeterReading_keeps [OF assms(2)])

lemma HeartbeatHandler_frame:
  assumes "HeartbeatHandler_HandleRecord h env key v w = (res, w')" "other_tables f"
  shows "f (pg_tables (w_pg w')) = f (pg_tables (w_pg w))"
  using assms(1)
  by (cases rule: HeartbeatHandler_run) (auto dest: keepsD [OF ApplyHeartbeat_keeps [OF assms(2)]])

section \<open>What success tells\<close>

lemma honest_InsertMeterReading [honesty]: "honest (InsertMeterReading r)"
proof -
  have "honest (insertStorageAssets x as)" for x as
  proof (induction as)
    case (Cons a as)
    then show ?case unfolding insertStorageAssets.simps by (intro honesty)
  qed (simp only: insertStorageAssets.simps honesty)
  then show ?thesis
    unfolding InsertMeterReading_def verifyReplay_def Let_def by (intro honesty)
qed

lemma InsertMeterReading_success_same:
  assumes "reading_ok r" "tables_ok (pg_tables p)" "InsertMeterReading r p = (Inr b, q)"
    and "reading_recorded (normalize r) (pg_tables p) \<or> storage_at (normalize r) (pg_tables p) = []"
  shows "reading_recorded (normalize r) (pg_tables q) \<and> same_reading (normalize r) (pg_tables q)"
proof -
  let ?p = "p\<lparr>pg_faults := []\<rparr>" and ?r = "normalize r"
  have "InsertMeterReading r ?p = (Inr b, q\<lparr>pg_faults := []\<rparr>)"
    using honestD [OF honest_InsertMeterReading assms(3)] .
  with InsertMeterReading_quiet [of ?p r] assms(1,2) have
    "reading_recorded ?r (pg_tables p) \<and> same_reading ?r (pg_tables p) \<and> pg_tables q = pg_tables p \<or>
     \<not> reading_recorded ?r (pg_tables p) \<and> pg_tables q = record_reading ?r (pg_tables p)"
    by (cases p; cases q) (auto split: if_split_asm)
  with assms(4) record_reading_replay [of ?r "pg_tables p"] show ?thesis by auto
qed

lemma SetLatestIfNewer_quiet_answers:
  assumes "redis_ok c" "rd_quiet c" "reading_ok r" "exact_projection (ProjectionOf r)"
  shows "\<exists>b c'. SetLatestIfNewer (ProjectionOf r) c = (Inr b, c')"
proof -
  let ?p = "ProjectionOf r"
  obtain x db' where q: "set_latest_if_newer (latest_key ?p) (mp_EventTimeUnixMs ?p) (mp_Seq ?p) (Projected ?p)
      (rd_clock c) (rd_db c) = (x, db')" by force
  with latest_after_script(3) [OF assms(1,4) q] show ?thesis
    using assms(2) ProjectionOf_marshals [OF assms(3)]
    by (simp add: SetLatestIfNewer_def Let_def andThen_def onCmd_quiet latest_key_def)
qed

lemma MeterHandler_nil_row:
  assumes "MeterHandler_HandleRecord h env key v w = (Inr u, w')"
  obtains r b x where "admit_meter h env key v = Inr r"
    "DecodeMeterReading (he_std env) (he_now env) (bytes_of v) = Inr r"
    "meter_row_of (normalize r) \<in> set (t_meter_readings (pg_tables (w_pg w')))"
    "InsertMeterReading r (w_pg w) = (Inr b, w_pg w')"
    "SetLatestIfNewer (ProjectionOf r) (w_redis w) = (x, w_redis w')"
    "mh_policy h = CacheRequired \<Longrightarrow> \<not> isl x"
  using assms
proof (cases rule: MeterHandler_run)
  case (stored r b x)
  have "meter_row_of (normalize r) \<in> set (t_meter_readings (pg_tables (w_pg w')))"
    using admit_meter_Inr [OF stored(1)] stored(2) by (auto intro: stored_when_successful)
  with stored admit_meter_Inr [OF stored(1)] that show thesis by auto
qed simp_all

lemma handlers_keep_failures:
  "MeterHandler_HandleRecord mh env key v w = (res, w') \<Longrightarrow>
     t_failures (pg_tables (w_pg w')) = t_failures (pg_tables (w_pg w))"
  "HeartbeatHandler_HandleRecord hh env key v w = (res, w') \<Longrightarrow>
     t_failures (pg_tables (w_pg w')) = t_failures (pg_tables (w_pg w))"
  by (erule MeterHandler_frame, simp) (erule HeartbeatHandler_frame, simp add: other_tables_def)

lemma replay_leaves_failures: "leaves_failures (replay_record t limits env)"
proof -
  have "t_failures (pg_tables (w_pg w')) = t_failures (pg_tables (w_pg w))"
    if "Route (replay_router t limits) topic env key v w = (out, w')" for topic key v w out w'
    using that
    by (auto simp: Route_def replay_router_def Register_def NewRouter_def returning_def update_conv'
        split: option.splits if_splits prod.splits sum.splits dest!: handlers_keep_failures)
  then show ?thesis
    unfolding leaves_failures_def replay_record_def
    by (auto split: prod.splits outcome.splits option.splits)
qed

text \<open>A decoding environment: the payload ''m'' is the sample reading and ''h'' the sample heartbeat.\<close>

definition sample_meter_wire :: meterReadingWire where
  "sample_meter_wire =
     \<lparr>mw_SchemaVersion = ''1.0'', mw_MeterID = ''meter-g1-house1'', mw_HouseID = ''g1-house1'',
      mw_GridID = ''g1'', mw_DeviceClass = ''residential_prosumer'', mw_Timestamp = ''t'',
      mw_Seq = Some 7,
      mw_Readings = Some \<lparr>rw_SolarKw = Some (Fin 3), rw_ConsumptionKw = Some (Fin 1),
        rw_NetKw = Some (Fin 2), rw_StorageAssets =
          [\<lparr>sw_AssetID = ''b1'', sw_AssetType = ''bess'', sw_SocPct = Some (Fin 50),
            sw_PowerKw = Some (Fin (-1)), sw_CapacityKwh = Fin 10, sw_PluggedIn = None\<rparr>]\<rparr>,
      mw_Meta = Some \<lparr>mm_WeatherIrradianceWm2 = Some (Fin 700), mm_CloudCoverPct = None\<rparr>\<rparr>"

definition sample_heartbeat_wire :: heartbeatWire where
  "sample_heartbeat_wire =
     \<lparr>hw_SchemaVersion = ''1.0'', hw_GridID = ''g1'', hw_HouseID = ''g1-house1'',
      hw_MeterID = ''meter-g1-house1'', hw_Status = ''online'',
      hw_DeviceClass = ''residential_prosumer'', hw_RatedSolarKw = Some (Fin 5),
      hw_FlexibleAssets = [\<lparr>fw_AssetID = ''b1'', fw_AssetType = ''bess'', fw_CapacityKwh = Fin 10,
        fw_MaxChargeKw = Some (Fin 5), fw_MaxDischargeKw = Some (Fin 5), fw_V2GCapable = None\<rparr>]\<rparr>"

definition decoding_std :: go_std where
  "decoding_std =
     \<lparr>unmarshalMeter = (\<lambda>b. if b = ''m'' then Inr sample_meter_wire else Inl ''unexpected end of JSON input''),
      unmarshalHeartbeat = (\<lambda>b. if b = ''h'' then Inr sample_heartbeat_wire else Inl ''unexpected end of JSON input''),
      parseRFC3339 = (\<lambda>s. if s = ''t'' then Inr 1500 else Inl ''cannot parse'')\<rparr>"

definition sample_topics :: kafka_topics where
  "sample_topics = \<lparr>kt_MeterTopic = ''t'', kt_HeartbeatTopic = ''h'', kt_ActuationResponseTopic = ''a''\<rparr>"

definition sample_limits :: InputLimits where
  "sample_limits = \<lparr>il_MaxRecordBytes = 10, il_EnforceHouseKey = True\<rparr>"

definition sample_world :: world where
  "sample_world = \<lparr>w_pg = quiet_pg sample_tables 0, w_redis = empty_redis []\<rparr>"

definition sample_env :: handler_env where
  "sample_env =
     \<lparr>he_std = decoding_std, he_unmarshalRegistered = (\<lambda>_. Inl ''unexpected end of JSON input''),
      he_registry = sample_registry, he_now = 0\<rparr>"

abbreviation "sample_mh \<equiv> \<lparr>mh_limits = sample_limits, mh_policy = CacheRequired\<rparr>"
abbreviation "sample_hh \<equiv> \<lparr>hh_limits = sample_limits, hh_policy = CacheRequired\<rparr>"

lemma sample_decode_meter: "DecodeMeterReading decoding_std 0 ''m'' = Inr (sample_reading ''b1'' 7)"
  unfolding DecodeMeterReading_Inr
  by (intro exI [of _ sample_meter_wire])
     (simp add: decoding_std_def meter_wire_ok_def meter_of_wire_def sample_meter_wire_def
        readings_wire_ok_def meta_wire_ok_def storage_wire_ok_def storage_of_wire_def sample_identity
        sample_asset_ids asset_type_ok_def nonneg_opt_def percent_opt_def sample_reading_def
        sample_storage_def)

lemma sample_decode_heartbeat: "DecodeHeartbeat decoding_std ''h'' = Inr sample_heartbeat"
  unfolding DecodeHeartbeat_Inr
  by (intro exI [of _ sample_heartbeat_wire])
     (simp add: decoding_std_def heartbeat_wire_ok_def heartbeat_of_wire_def sample_heartbeat_wire_def
        flexible_wire_ok_def flexible_of_wire_def sample_identity sample_asset_ids asset_type_ok_def
        sample_heartbeat_def sample_asset_def)

lemma sample_lookup: "Registry_Lookup sample_registry ''g1'' \<noteq> None"
  by (simp add: Registry_Lookup_def Snapshot_Lookup_def sample_registry_def)

lemma sample_admit:
  "admit_meter sample_mh sample_env None (Some ''m'') = Inr (sample_reading ''b1'' 7)"
  "admit_heartbeat sample_hh sample_env None (Some ''h'') = Inr sample_heartbeat"
  using sample_lookup
  by (simp_all add: admit_meter_def admit_heartbeat_def checkSize_def checkKey_def sample_limits_def
      bytes_of_def sample_env_def sample_decode_meter sample_decode_heartbeat)
     (simp_all add: sample_reading_def sample_heartbeat_def)

lemma sample_world_ok: "world_ok sample_world"
  by (simp add: world_ok_def sample_world_def sample_tables_ok empty_redis_ok)

lemma sample_exact: "exact_reading (sample_reading ''b1'' 7)"
  by (simp add: exact_reading_def exact_projection_def ProjectionOf_def sample_reading_def UnixMilli_def
      lua_num_small)

lemma sample_insert:
  "InsertMeterReading (sample_reading ''b1'' 7) (quiet_pg sample_tables 0) =
     (Inr True, quiet_pg (record_reading (normalize (sample_reading ''b1'' 7)) sample_tables) 0)"
proof -
  let ?r = "sample_reading ''b1'' 7" and ?p = "quiet_pg sample_tables 0"
  have "\<not> reading_recorded (normalize ?r) sample_tables"
    "\<not> storage_clash (normalize ?r) (mr_StorageAssets (normalize ?r)) sample_tables"
    by (simp_all add: reading_recorded_def storage_clash_def sample_tables_def empty_tables_def)
  with InsertMeterReading_quiet [of ?p ?r] show ?thesis
    by (simp add: sample_tables_ok sample_reading_ok sample_asset_ids quiet_pg_def)
qed

lemma sample_meter_run:
  "\<exists>w'. MeterHandler_HandleRecord sample_mh sample_env None (Some ''m'') sample_world = (Inr (), w')"
proof -
  obtain b c where "SetLatestIfNewer (ProjectionOf (sample_reading ''b1'' 7)) (empty_redis []) = (Inr b, c)"
    using SetLatestIfNewer_quiet_answers [of "empty_redis []" "sample_reading ''b1'' 7"] sample_exact
      sample_reading_ok [OF sample_asset_ids(1)] empty_redis_ok
    by (auto simp: exact_reading_def empty_redis_def)
  with sample_insert show ?thesis
    by (simp add: MeterHandler_split sample_admit andThen_def onPg_def wrapErr_def onRedis_def absorbing_def
        sample_world_def)
qed

lemma HeartbeatTTL_minimum: "ns_second \<le> HeartbeatTTL"
  by (simp add: HeartbeatTTL_def)

lemma empty_redis_quiet: "rd_quiet (empty_redis [])"
  by (simp add: empty_redis_def)

lemma sample_heartbeat_run:
  "\<exists>w'. HeartbeatHandler_HandleRecord sample_hh sample_env None (Some ''h'') sample_world = (Inr (), w')"
proof -
  obtain q where "ApplyHeartbeat sample_heartbeat 0 (quiet_pg sample_tables 0) = (Inr (), q)"
    using ApplyHeartbeat_quiet [of "quiet_pg sample_tables 0" sample_heartbeat 0] sample_heartbeat_accepted
      sample_heartbeat_ok sample_tables_ok by auto
  moreover obtain c where "updateHeartbeatWithTTL ''g1'' ''g1-house1''
      \<lparr>hs_Status = ''online'', hs_LastHeartbeatAt = 0\<rparr> HeartbeatTTL (empty_redis []) = (Inr (), c)"
    using updateHeartbeatWithTTL_quiet [of "empty_redis []" HeartbeatTTL, OF empty_redis_ok]
    by (metis HeartbeatTTL_minimum empty_redis_quiet)
  moreover have "he_now sample_env = 0" by (simp add: sample_env_def)
  moreover have "hb_GridID sample_heartbeat = ''g1''" "hb_HouseID sample_heartbeat = ''g1-house1''"
    "hb_Status sample_heartbeat = ''online''" by (simp_all add: sample_heartbeat_def)
  ultimately show ?thesis
    by (simp add: HeartbeatHandler_split sample_admit andThen_def onPg_def wrapErr_def onRedis_def
        absorbing_def sample_world_def UpdateHeartbeat_def time_Truncate_def)
qed

text \<open>An unresolved failure of the sample reading.\<close>

definition sample_meter_failures :: tables where
  "sample_meter_failures =
     sample_tables\<lparr>t_failures :=
       [\<lparr>f_id = 1, f_kafka_topic = ''t'', f_kafka_partition = 0, f_kafka_offset = 7, f_kafka_key = None,
         f_raw_payload = ''m'', f_payload_sha256 = ''00'', f_failure_stage = ''timescale_write'',
         f_error_reason = ''down'', f_attempt_count = 3, f_first_failed_at = 1, f_last_failed_at = 1,
         f_resolution = ''unresolved'', f_resolved_at = None, f_resolved_by = None\<rparr>],
       t_failures_seq := 2\<rparr>"

lemma sample_replay:
  "\<exists>row w'. WithLockedFailure 1 ''op'' (replay_record sample_topics sample_limits sample_env)
      (sample_world\<lparr>w_pg := quiet_pg sample_meter_failures 9\<rparr>) = (Inr (row, ''replayed''), w') \<and>
    fr_Topic row = ''t'' \<and> fr_RawPayload row = Some ''m''"
proof -
  let ?w = "sample_world\<lparr>w_pg := quiet_pg sample_meter_failures 9\<rparr>"
  let ?f = "hd (t_failures sample_meter_failures)"
  have lock: "lockUnresolved 1 (quiet_pg sample_meter_failures 9) = (Inr (failure_row True ?f), quiet_pg sample_meter_failures 9)"
    by (simp add: lockUnresolved_def andThen_def Begin_def onSql_def stmt_def lockFailureSQL_def
        failure_row_def quiet_pg_def sample_meter_failures_def)
  have tok: "tables_ok sample_meter_failures"
    using sample_tables_ok(2) by (simp add: tables_ok_def sample_meter_failures_def sample_tables_def empty_tables_def)
  let ?r = "sample_reading ''b1'' 7"
  have "\<not> reading_recorded (normalize ?r) sample_meter_failures"
    "\<not> storage_clash (normalize ?r) (mr_StorageAssets (normalize ?r)) sample_meter_failures"
    by (simp_all add: reading_recorded_def storage_clash_def sample_meter_failures_def sample_tables_def empty_tables_def)
  then obtain q where ins: "InsertMeterReading ?r (quiet_pg sample_meter_failures 9) = (Inr True, q)" "pg_faults q = []"
    using InsertMeterReading_quiet [of "quiet_pg sample_meter_failures 9" ?r] tok
      sample_reading_ok [OF sample_asset_ids(1)] by auto
  obtain b c where "SetLatestIfNewer (ProjectionOf ?r) (empty_redis []) = (Inr b, c)"
    using SetLatestIfNewer_quiet_answers [of "empty_redis []" ?r] sample_exact
      sample_reading_ok [OF sample_asset_ids(1)] empty_redis_ok
    by (auto simp: exact_reading_def empty_redis_def)
  with ins have h: "MeterHandler_HandleRecord sample_mh sample_env None (Some ''m'') ?w =
      (Inr (), \<lparr>w_pg = q, w_redis = c\<rparr>)"
    by (simp add: MeterHandler_split sample_admit andThen_def onPg_def wrapErr_def onRedis_def absorbing_def
        sample_world_def)
  have "replay_record sample_topics sample_limits sample_env (failure_row True ?f) ?w =
      ((''replayed'', None), \<lparr>w_pg = q, w_redis = c\<rparr>)"
    using h by (simp add: replay_record_def Route_def replay_router_def Register_def NewRouter_def
        sample_topics_def failure_row_def sample_meter_failures_def returning_def)
  moreover have "text_ok ''op''" by (simp add: text_ok_ascii byte_def)
  ultimately show ?thesis using lock ins(2)
    by (simp add: WithLockedFailure_def andThen_def onPg_def TxRest_def closeLocked_def onSql_def
        stmt_def resolveFailureSQL_def sample_world_def)
       (simp add: failure_row_def sample_meter_failures_def)
qed

section \<open>Properties\<close>

text \<open>
  C14. A meter record is acknowledged only when it is durable.  Whatever faults occur, when the handler
  returns nil the payload decoded to a well-formed reading of a provisioned grid and its row is in the
  immutable history; and unless the cache policy tolerates a stale cache, the latest state of the house
  is at least as new as the reading.
\<close>

theorem MeterHandler_nil_is_durable:
  assumes "world_ok w" "MeterHandler_HandleRecord h env key v w = (Inr u, w')"
  shows "\<exists>r. DecodeMeterReading (he_std env) (he_now env) (bytes_of v) = Inr r \<and>
    Registry_Lookup (he_registry env) (mr_GridID r) \<noteq> None \<and>
    meter_row_of (normalize r) \<in> set (t_meter_readings (pg_tables (w_pg w'))) \<and>
    (mh_policy h = CacheRequired \<and> exact_reading r \<longrightarrow>
       not_newer version_of (Some (ProjectionOf r))
         (latest_at (MeterLatestKey (mr_GridID r) (mr_HouseID r)) (w_redis w')))"
proof -
  obtain r b x where r: "admit_meter h env key v = Inr r"
    "meter_row_of (normalize r) \<in> set (t_meter_readings (pg_tables (w_pg w')))"
    and c: "SetLatestIfNewer (ProjectionOf r) (w_redis w) = (x, w_redis w')"
      "mh_policy h = CacheRequired \<Longrightarrow> \<not> isl x"
    using MeterHandler_nil_row [OF assms(2)] by metis
  have "not_newer version_of (Some (ProjectionOf r)) (latest_at (latest_key (ProjectionOf r)) (w_redis w'))"
    if "mh_policy h = CacheRequired" "exact_reading r"
    using latest.put_same [OF _ _ c(1)] c(2) newest_at_least assms(1) that
    by (auto simp: world_ok_def exact_reading_def)
  with r admit_meter_Inr [OF r(1)] show ?thesis
    by (intro exI [of _ r]) (simp add: latest_key_def ProjectionOf_def)
qed

theorem MeterHandler_nil_is_durable_witness:
  "\<exists>w'. MeterHandler_HandleRecord sample_mh sample_env None (Some ''m'') sample_world = (Inr (), w') \<and>
     meter_row_of (normalize (sample_reading ''b1'' 7)) \<in> set (t_meter_readings (pg_tables (w_pg w'))) \<and>
     not_newer version_of (Some (ProjectionOf (sample_reading ''b1'' 7)))
       (latest_at (MeterLatestKey ''g1'' ''g1-house1'') (w_redis w'))"
proof -
  obtain w' where r: "MeterHandler_HandleRecord sample_mh sample_env None (Some ''m'') sample_world = (Inr (), w')"
    using sample_meter_run by blast
  have "mr_GridID (sample_reading ''b1'' 7) = ''g1''" "mr_HouseID (sample_reading ''b1'' 7) = ''g1-house1''"
    by (simp_all add: sample_reading_def)
  with MeterHandler_nil_is_durable [OF sample_world_ok r] r sample_exact show ?thesis
    by (simp add: sample_env_def bytes_of_def sample_decode_meter)
qed



text \<open>
  C16. A record that is too large, malformed, keyed for another house or of an unprovisioned grid is
  refused with a permanent error and changes neither store; whatever passes these checks is well formed.
\<close>

theorem refused_record_changes_nothing:
  "(case admit_meter mh env key v of
      Inl e \<Rightarrow> MeterHandler_HandleRecord mh env key v w = (Inl e, w) \<and>
        (errors_Is e ErrValidation \<or> errors_Is e ErrUnknownGrid)
    | Inr r \<Rightarrow> reading_ok r \<and> checkSize (mh_limits mh) v = None \<and>
        checkKey (mh_limits mh) key (mr_GridID r) (mr_HouseID r) = None) \<and>
   (case admit_heartbeat hh env key v of
      Inl e \<Rightarrow> HeartbeatHandler_HandleRecord hh env key v w = (Inl e, w) \<and>
        (errors_Is e ErrValidation \<or> errors_Is e ErrUnknownGrid)
    | Inr hb \<Rightarrow> heartbeat_ok hb \<and> checkSize (hh_limits hh) v = None \<and>
        checkKey (hh_limits hh) key (hb_GridID hb) (hb_HouseID hb) = None)"
proof (intro conjI)
  show "case admit_meter mh env key v of
      Inl e \<Rightarrow> MeterHandler_HandleRecord mh env key v w = (Inl e, w) \<and>
        (errors_Is e ErrValidation \<or> errors_Is e ErrUnknownGrid)
    | Inr r \<Rightarrow> reading_ok r \<and> checkSize (mh_limits mh) v = None \<and>
        checkKey (mh_limits mh) key (mr_GridID r) (mr_HouseID r) = None"
    using admit_meter_Inl [of mh env key v] admit_meter_Inr [of mh env key v]
    by (cases "admit_meter mh env key v")
       (auto simp: MeterHandler_split admit_meter_def split: option.splits sum.splits if_splits)
  show "case admit_heartbeat hh env key v of
      Inl e \<Rightarrow> HeartbeatHandler_HandleRecord hh env key v w = (Inl e, w) \<and>
        (errors_Is e ErrValidation \<or> errors_Is e ErrUnknownGrid)
    | Inr hb \<Rightarrow> heartbeat_ok hb \<and> checkSize (hh_limits hh) v = None \<and>
        checkKey (hh_limits hh) key (hb_GridID hb) (hb_HouseID hb) = None"
    using admit_heartbeat_Inl [of hh env key v] admit_heartbeat_Inr [of hh env key v]
    by (cases "admit_heartbeat hh env key v")
       (auto simp: HeartbeatHandler_split admit_heartbeat_def split: option.splits sum.splits if_splits)
qed





text \<open>
  The actuation handler has no store: as constructed, it panics on every record it can decode, and
  never registers a house.
\<close>

theorem actuation_records_panic:
  "case he_unmarshalRegistered env (bytes_of v) of
     Inr payload \<Rightarrow> (\<exists>t. ActuationHandler_HandleRecord NewActuationHandler env key v w = (Panicked t, w))
   | Inl t \<Rightarrow> (\<exists>e. ActuationHandler_HandleRecord NewActuationHandler env key v w = (Returned (Some e), w) \<and>
       \<not> errors_Is e ErrValidation)"
  by (simp add: ActuationHandler_HandleRecord_def NewActuationHandler_def split: sum.split)

text \<open>
  Routing.  With three different topics each record reaches its own handler, and an unknown topic is
  an error, never dropped.  The wiring refuses equal meter and heartbeat topics; it does not refuse an
  actuation topic that equals the meter topic, which then takes the meter records.
\<close>

theorem wire_router_routes:
  assumes "wire_router t limits policy = Inr router"
  shows "(kt_ActuationResponseTopic t \<noteq> kt_MeterTopic t \<longrightarrow>
      Route router (kt_MeterTopic t) env key v w =
        returning (MeterHandler_HandleRecord \<lparr>mh_limits = limits, mh_policy = policy\<rparr> env key v) w) \<and>
    (kt_ActuationResponseTopic t \<noteq> kt_HeartbeatTopic t \<longrightarrow>
      Route router (kt_HeartbeatTopic t) env key v w =
        returning (HeartbeatHandler_HandleRecord \<lparr>hh_limits = limits, hh_policy = policy\<rparr> env key v) w) \<and>
    Route router (kt_ActuationResponseTopic t) env key v w =
      ActuationHandler_HandleRecord NewActuationHandler env key v w \<and>
    (\<forall>topic. topic \<notin> {kt_MeterTopic t, kt_HeartbeatTopic t, kt_ActuationResponseTopic t} \<longrightarrow>
      Route router topic env key v w = (Returned (Some (no_handler topic)), w))"
  using assms
  by (auto simp: wire_router_def Route_def Register_def NewRouter_def update_conv' split: if_splits)

theorem wire_router_routes_witness:
  "\<exists>router. wire_router (sample_topics\<lparr>kt_ActuationResponseTopic := ''t''\<rparr>) sample_limits CacheRequired = Inr router \<and>
     Route router ''t'' sample_env None None sample_world =
       ActuationHandler_HandleRecord NewActuationHandler sample_env None None sample_world"
proof -
  let ?t = "sample_topics\<lparr>kt_ActuationResponseTopic := ''t''\<rparr>"
  obtain router where r: "wire_router ?t sample_limits CacheRequired = Inr router"
    by (simp add: wire_router_def sample_topics_def)
  from wire_router_routes [OF r] r show ?thesis by (auto simp: sample_topics_def)
qed

end
