(* ===== verification/Retry.thy ===== *)
theory Retry
  imports Handlers
begin

text \<open>
  \<^verbatim>\<open>internal/ingestion/retry.go\<close>: the retry budget of one record, which errors are permanent, and the
  stage a failure is filed under.  The loop itself is \<^verbatim>\<open>backoff.Retry\<close> of a third-party package; it is a
  parameter, with its documented behaviour as the hypothesis \<open>backoff_contract\<close>.
\<close>

section \<open>The policy\<close>

definition defaultRetryMaxTries :: int where "defaultRetryMaxTries = 3"
definition maxRetryTries :: int where "maxRetryTries = 10"
definition defaultRetryInitialInterval :: int where "defaultRetryInitialInterval = 100 * ns_millisecond"
definition defaultRetryMaxInterval :: int where "defaultRetryMaxInterval = 2 * ns_second"

lemmas retry_defaults = defaultRetryMaxTries_def maxRetryTries_def defaultRetryInitialInterval_def
  defaultRetryMaxInterval_def

record RetryPolicy =
  rp_MaxTries :: int
  rp_InitialInterval :: int
  rp_MaxInterval :: int

definition DefaultRetryPolicy :: RetryPolicy where
  "DefaultRetryPolicy =
     \<lparr>rp_MaxTries = defaultRetryMaxTries, rp_InitialInterval = defaultRetryInitialInterval,
      rp_MaxInterval = defaultRetryMaxInterval\<rparr>"

definition RetryPolicy_withDefaults :: "RetryPolicy \<Rightarrow> RetryPolicy" where
  "RetryPolicy_withDefaults p0 =
     (let p1 = (if rp_MaxTries p0 \<le> 0 then p0\<lparr>rp_MaxTries := defaultRetryMaxTries\<rparr> else p0);
          p2 = (if rp_MaxTries p1 > maxRetryTries then p1\<lparr>rp_MaxTries := maxRetryTries\<rparr> else p1);
          p3 = (if rp_InitialInterval p2 \<le> 0
                then p2\<lparr>rp_InitialInterval := defaultRetryInitialInterval\<rparr> else p2);
          p4 = (if rp_MaxInterval p3 \<le> 0
                then p3\<lparr>rp_MaxInterval := defaultRetryMaxInterval\<rparr> else p3)
      in if rp_MaxInterval p4 < rp_InitialInterval p4
         then p4\<lparr>rp_MaxInterval := rp_InitialInterval p4\<rparr> else p4)"

record ExponentialBackOff =
  eb_InitialInterval :: int
  eb_MaxInterval :: int
  eb_Multiplier :: rat
  eb_RandomizationFactor :: rat

definition backoff :: "RetryPolicy \<Rightarrow> ExponentialBackOff" where
  "backoff p0 =
     (let p = RetryPolicy_withDefaults p0 in
      \<lparr>eb_InitialInterval = rp_InitialInterval p, eb_MaxInterval = rp_MaxInterval p,
       eb_Multiplier = 2, eb_RandomizationFactor = 0\<rparr>)"

section \<open>Classification of errors\<close>

definition isPermanent :: "go_error option \<Rightarrow> bool" where
  "isPermanent err =
     (case err of
        None \<Rightarrow> False
      | Some e \<Rightarrow> errors_Is e ErrValidation \<or> errors_Is e ErrIntegrityConflict \<or>
          errors_Is e ErrGridNotProvisioned \<or> errors_Is e ErrHouseIdentity \<or>
          errors_Is e ErrUnknownGrid \<or> errors_Is e ErrHandlerPanic \<or> errors_Is e ErrNoHandler)"

definition isRedisStage :: "go_error \<Rightarrow> bool" where
  "isRedisStage e \<longleftrightarrow>
     Contains (err_text e) ''redis:'' \<or> Contains (err_text e) ''update latest state'' \<or>
     Contains (err_text e) ''update heartbeat state''"

definition failureStage :: "go_error \<Rightarrow> string" where
  "failureStage e =
     (if errors_Is e ErrHandlerPanic then StageHandlerPanic
      else if errors_Is e ErrValidation then StageDecode
      else if errors_Is e ErrUnknownGrid \<or> errors_Is e ErrGridNotProvisioned \<or>
              errors_Is e ErrHouseIdentity then StageGridValidation
      else if errors_Is e ErrIntegrityConflict then StageTimescaleWrite
      else if isRedisStage e then StageRedisWrite
      else StageTimescaleWrite)"

section \<open>The retry loop\<close>

datatype attempt = Succeeded | PermanentErr go_error | TransientErr go_error

text \<open>
  \<^verbatim>\<open>backoff.Retry\<close> is given the number of tries, the back-off and the operation; the operation works on
  the closure's attempt counter and on the state.
\<close>

type_synonym 's operation = "nat \<times> 's \<Rightarrow> attempt \<times> (nat \<times> 's)"
type_synonym 's retrier =
  "nat \<Rightarrow> ExponentialBackOff \<Rightarrow> 's operation \<Rightarrow> nat \<times> 's \<Rightarrow> go_error option \<times> (nat \<times> 's)"

definition classified :: "('s \<Rightarrow> go_error option \<times> 's) \<Rightarrow> 's operation" where
  "classified op ns =
     (case ns of (attempts, s) \<Rightarrow>
        (case op s of
           (None, s') \<Rightarrow> (Succeeded, (attempts + 1, s'))
         | (Some e, s') \<Rightarrow>
             (if isPermanent (Some e) then PermanentErr e else TransientErr e, (attempts + 1, s'))))"

definition retryHandle ::
    "'s retrier \<Rightarrow> RetryPolicy \<Rightarrow> ('s \<Rightarrow> go_error option \<times> 's) \<Rightarrow> 's \<Rightarrow> (nat \<times> go_error option) \<times> 's" where
  "retryHandle Retry policy0 op s =
     (let policy = RetryPolicy_withDefaults policy0 in
      case Retry (nat (rp_MaxTries policy)) (backoff policy) (classified op) (0, s) of
        (err, (attempts, s')) \<Rightarrow> ((attempts, err), s'))"

text \<open>\<open>tried op k s\<close>: the outcome of the \<open>k\<close>-th attempt, all earlier ones having failed transiently.\<close>

fun tried :: "'s operation \<Rightarrow> nat \<Rightarrow> nat \<times> 's \<Rightarrow> (attempt \<times> (nat \<times> 's)) option" where
  "tried op 0 s = None"
| "tried op (Suc k) s =
     (case op s of (r, s') \<Rightarrow>
        if k = 0 then Some (r, s')
        else (case r of TransientErr _ \<Rightarrow> tried op k s' | _ \<Rightarrow> None))"

text \<open>
  The documented behaviour: the operation runs at least once and at most the given number of times;
  another attempt follows only a transient error; the result is nil after a success, the error itself
  after a permanent one, and after a transient one that error or, when the context was cancelled, the
  context's error.
\<close>

definition context_error :: "go_error \<Rightarrow> bool" where
  "context_error e \<longleftrightarrow> errors_Is e ContextCanceled \<or> errors_Is e ContextDeadlineExceeded"

definition retry_result :: "bool \<Rightarrow> attempt \<Rightarrow> go_error option \<Rightarrow> bool" where
  "retry_result cancelled r err \<longleftrightarrow>
     (case r of
        Succeeded \<Rightarrow> err = None
      | PermanentErr e \<Rightarrow> err = Some e
      | TransientErr e \<Rightarrow> err = Some e \<or> (cancelled \<and> (\<exists>c. err = Some c \<and> context_error c)))"

definition backoff_contract :: "bool \<Rightarrow> 's retrier \<Rightarrow> bool" where
  "backoff_contract cancelled Retry \<longleftrightarrow>
     (\<forall>max b op s err s'. 0 < max \<longrightarrow> Retry max b op s = (err, s') \<longrightarrow>
        (\<exists>k r. 1 \<le> k \<and> k \<le> max \<and> tried op k s = Some (r, s') \<and>
           retry_result cancelled r err))"

text \<open>A loop with that behaviour, which never waits.\<close>

fun retry_now :: "nat \<Rightarrow> ExponentialBackOff \<Rightarrow> 's operation \<Rightarrow> nat \<times> 's \<Rightarrow> go_error option \<times> (nat \<times> 's)" where
  "retry_now 0 b op s = (None, s)"
| "retry_now (Suc k) b op s =
     (case op s of
        (Succeeded, s') \<Rightarrow> (None, s')
      | (PermanentErr e, s') \<Rightarrow> (Some e, s')
      | (TransientErr e, s') \<Rightarrow> if k = 0 then (Some e, s') else retry_now k b op s')"

lemma retry_now_contract: "backoff_contract c retry_now"
proof -
  have "\<exists>k r. 1 \<le> k \<and> k \<le> max \<and> tried op k s = Some (r, s') \<and>
      retry_result c r err"
    if "0 < max" "retry_now max b op s = (err, s')" for max b err s' and op :: "'s operation" and s
    using that
  proof (induction max b op s rule: retry_now.induct)
    case (2 k b op s)
    obtain r s1 where op: "op s = (r, s1)" by (metis surj_pair)
    show ?case
    proof (cases "k = 0 \<or> (\<forall>e. r \<noteq> TransientErr e)")
      case True
      with 2 op show ?thesis by (intro exI [of _ 1] exI [of _ r]) (auto simp: retry_result_def split: attempt.splits)
    next
      case False
      then obtain e where e: "r = TransientErr e" "k \<noteq> 0" by auto
      with 2(2-) op 2(1) [OF op [symmetric] e(1)] obtain j q where
          "1 \<le> j" "j \<le> k" "tried op j s1 = Some (q, s')"
          "retry_result c q err"
        by auto
      with op e show ?thesis by (intro exI [of _ "Suc j"] exI [of _ q]) auto
    qed
  qed simp
  then show ?thesis unfolding backoff_contract_def by blast
qed

section \<open>What the loop does\<close>

lemma withDefaults_bounds:
  "1 \<le> rp_MaxTries (RetryPolicy_withDefaults p)" "rp_MaxTries (RetryPolicy_withDefaults p) \<le> 10"
  "0 < rp_InitialInterval (RetryPolicy_withDefaults p)"
  "rp_InitialInterval (RetryPolicy_withDefaults p) \<le> rp_MaxInterval (RetryPolicy_withDefaults p)"
  by (simp_all add: RetryPolicy_withDefaults_def Let_def retry_defaults)

lemma classified_apply:
  "op s = (e, s') \<Longrightarrow> classified op (n, s) =
     (case e of None \<Rightarrow> Succeeded | Some x \<Rightarrow> if isPermanent e then PermanentErr x else TransientErr x, (n + 1, s'))"
  by (cases e) (simp_all add: classified_def)

lemma tried_Suc:
  assumes "tried (classified op) (Suc k) (n, s) = Some (r, q)" "op s = (e, s1)" "k \<noteq> 0"
  shows "tried (classified op) k (n + 1, s1) = Some (r, q)"
  using assms(1,3) by (simp add: classified_apply [of op s, OF assms(2)] split: option.splits if_splits)

text \<open>The attempt counter counts the attempts.\<close>

lemma tried_counts:
  "tried (classified op) k (n, s) = Some (r, (m, s')) \<Longrightarrow> m = n + k"
proof (induction k arbitrary: n s)
  case (Suc k)
  obtain e s1 where op: "op s = (e, s1)" by force
  show ?case
  proof (cases "k = 0")
    case False
    have "tried (classified op) k (n + 1, s1) = Some (r, (m, s'))"
      using tried_Suc [of op k n s r "(m, s')" e s1] op False Suc.prems by simp
    then show ?thesis using Suc.IH by fastforce
  next
    case True
    with Suc.prems show ?thesis by (simp add: classified_apply [of op s, OF op])
  qed
qed simp

text \<open>A property the operation keeps is kept by all attempts; the last attempt ran in such a state.\<close>

lemma tried_last:
  assumes "tried (classified op) k (n, s) = Some (r, (m, s'))" "P s"
    and "\<forall>s e s'. P s \<longrightarrow> op s = (e, s') \<longrightarrow> P s'"
  shows "\<exists>s0 e. P s0 \<and> op s0 = (e, s') \<and>
    r = (case e of None \<Rightarrow> Succeeded | Some x \<Rightarrow> if isPermanent e then PermanentErr x else TransientErr x)"
  using assms(1,2)
proof (induction k arbitrary: n s)
  case (Suc k)
  obtain e s1 where op: "op s = (e, s1)" by force
  show ?case
  proof (cases "k = 0")
    case False
    have "tried (classified op) k (n + 1, s1) = Some (r, (m, s'))"
      using tried_Suc [of op k n s r "(m, s')" e s1] op False Suc.prems by simp
    then show ?thesis using Suc.IH Suc.prems(2) assms(3) op by blast
  next
    case True
    with Suc.prems op show ?thesis
      by (intro exI [of _ s] exI [of _ e]) (auto simp: classified_apply [of op s, OF op])
  qed
qed simp

lemma retryHandle_runs:
  assumes "backoff_contract cancelled Retry" "retryHandle Retry policy op s = ((attempts, err), s')"
  obtains r where "1 \<le> attempts" "int attempts \<le> rp_MaxTries (RetryPolicy_withDefaults policy)"
    "tried (classified op) attempts (0, s) = Some (r, (attempts, s'))"
    "retry_result cancelled r err"
proof -
  let ?max = "nat (rp_MaxTries (RetryPolicy_withDefaults policy))"
  have pos: "0 < ?max" using withDefaults_bounds(1) [of policy] by simp
  have run: "Retry ?max (backoff (RetryPolicy_withDefaults policy)) (classified op) (0, s) = (err, (attempts, s'))"
    using assms(2) by (auto simp: retryHandle_def Let_def split: prod.splits)
  from assms(1) [unfolded backoff_contract_def, rule_format, OF pos run] obtain k r where
      k: "1 \<le> k" "k \<le> ?max" "tried (classified op) k (0, s) = Some (r, (attempts, s'))"
    and r: "retry_result cancelled r err"
    by blast
  have "attempts = k" using tried_counts [OF k(3)] by simp
  with k r that show thesis by (simp add: le_nat_iff)
qed

text \<open>What is kept by one attempt is kept by all, and nil means an attempt returned nil.\<close>

lemma retryHandle_keeps:
  assumes "backoff_contract cancelled Retry" "retryHandle Retry policy op s = ((attempts, err), s')" "P s"
    and "\<forall>s e s'. P s \<longrightarrow> op s = (e, s') \<longrightarrow> P s'"
  shows "P s'" "err = None \<Longrightarrow> \<exists>s0. P s0 \<and> op s0 = (None, s')"
    "err = Some e \<Longrightarrow> (\<exists>s0. P s0 \<and> op s0 = (Some e, s')) \<or> cancelled \<and> context_error e"
proof -
  obtain r where t: "tried (classified op) attempts (0, s) = Some (r, (attempts, s'))"
    and r: "retry_result cancelled r err"
    using retryHandle_runs [OF assms(1,2)] by metis
  from tried_last [OF t, of P, OF assms(3,4)] obtain s0 x where x: "P s0" "op s0 = (x, s')"
    "r = (case x of None \<Rightarrow> Succeeded | Some y \<Rightarrow> if isPermanent x then PermanentErr y else TransientErr y)"
    by blast
  show "P s'" using assms(4) x by blast
  show "err = None \<Longrightarrow> \<exists>s0. P s0 \<and> op s0 = (None, s')"
    using r x by (auto simp: retry_result_def split: option.splits if_splits)
  show "err = Some e \<Longrightarrow> (\<exists>s0. P s0 \<and> op s0 = (Some e, s')) \<or> cancelled \<and> context_error e"
    using r x by (auto simp: retry_result_def split: option.splits if_splits)
qed

section \<open>Properties\<close>

text \<open>
  C22. The retry policy is safe whatever is configured: between one and ten attempts, positive waits, the
  maximum wait not below the first; applying the defaults twice changes nothing, and a policy within the
  bounds is used as it is.
\<close>

theorem RetryPolicy_bounded:
  "1 \<le> rp_MaxTries (RetryPolicy_withDefaults p) \<and> rp_MaxTries (RetryPolicy_withDefaults p) \<le> maxRetryTries \<and>
   0 < eb_InitialInterval (backoff p) \<and> eb_InitialInterval (backoff p) \<le> eb_MaxInterval (backoff p) \<and>
   RetryPolicy_withDefaults (RetryPolicy_withDefaults p) = RetryPolicy_withDefaults p \<and>
   (1 \<le> rp_MaxTries p \<and> rp_MaxTries p \<le> maxRetryTries \<and> 0 < rp_InitialInterval p \<and>
    rp_InitialInterval p \<le> rp_MaxInterval p \<longrightarrow> RetryPolicy_withDefaults p = p)"
  by (simp add: RetryPolicy_withDefaults_def backoff_def Let_def retry_defaults)

theorem RetryPolicy_bounded_witness: "RetryPolicy_withDefaults DefaultRetryPolicy = DefaultRetryPolicy"
  using RetryPolicy_bounded [of DefaultRetryPolicy] by (simp add: DefaultRetryPolicy_def retry_defaults)

text \<open>
  C23. One record is tried at least once and at most ten times, and the reported number of attempts is
  the number that ran.  The result is nil exactly when the last attempt returned nil; every attempt but
  the last failed with an error that is not permanent; a permanent error is returned as it is.
\<close>

theorem retryHandle_attempts:
  assumes "backoff_contract cancelled Retry" "retryHandle Retry policy op s = ((attempts, err), s')"
  shows "1 \<le> attempts \<and> attempts \<le> 10 \<and>
    (\<exists>r. tried (classified op) attempts (0, s) = Some (r, (attempts, s')) \<and>
       (err = None \<longleftrightarrow> r = Succeeded) \<and> (\<forall>e. r = PermanentErr e \<longrightarrow> err = Some e) \<and>
       (\<not> cancelled \<longrightarrow> (\<forall>e. r = TransientErr e \<longrightarrow> err = Some e)))"
proof -
  obtain r where r: "1 \<le> attempts" "int attempts \<le> rp_MaxTries (RetryPolicy_withDefaults policy)"
    "tried (classified op) attempts (0, s) = Some (r, (attempts, s'))"
    "retry_result cancelled r err"
    using retryHandle_runs [OF assms] by metis
  moreover have "attempts \<le> 10" using r(2) withDefaults_bounds(2) [of policy] by linarith
  ultimately show ?thesis by (intro conjI exI [of _ r]) (auto simp: retry_result_def split: attempt.splits)
qed

theorem retryHandle_attempts_witness:
  "\<exists>attempts err s'. retryHandle retry_now DefaultRetryPolicy (\<lambda>s. (Some (errors_New ''down''), s + 1)) (0 :: nat) =
     ((attempts, err), s') \<and> attempts = 3 \<and> s' = 3 \<and> 1 \<le> attempts \<and> attempts \<le> 10"
proof -
  have r: "retryHandle retry_now DefaultRetryPolicy (\<lambda>s. (Some (errors_New ''down''), s + 1)) (0 :: nat) =
      ((3, Some (errors_New ''down'')), 3)"
    by (simp add: retryHandle_def RetryPolicy_withDefaults_def DefaultRetryPolicy_def retry_defaults
        numeral_3_eq_3 classified_def isPermanent_def)
  from retryHandle_attempts [OF retry_now_contract [of False] r] r show ?thesis by blast
qed

text \<open>
  Every failure is filed under a stage the schema accepts; an error that is retried is never filed as
  a decode, admission or panic failure; and a cache error of either handler is filed under
  \<^verbatim>\<open>redis_write\<close> unless it is a permanent one.
\<close>

theorem failureStage_classifies:
  "failureStage e \<in> stages \<and>
   (\<not> isPermanent (Some e) \<longrightarrow> failureStage e \<in> {StageRedisWrite, StageTimescaleWrite}) \<and>
   (\<not> isPermanent (Some (Errorf_w (''update latest state for '' @ m @ '': '') e)) \<longrightarrow>
      failureStage (Errorf_w (''update latest state for '' @ m @ '': '') e) = StageRedisWrite) \<and>
   (\<not> isPermanent (Some (Errorf_w (''update heartbeat state for '' @ m @ '': '') e)) \<longrightarrow>
      failureStage (Errorf_w (''update heartbeat state for '' @ m @ '': '') e) = StageRedisWrite)"
proof -
  have "isRedisStage (Errorf_w (''update latest state for '' @ m @ '': '') e)"
    "isRedisStage (Errorf_w (''update heartbeat state for '' @ m @ '': '') e)"
    unfolding isRedisStage_def err_text_Errorf_w
    by (intro disjI2 disjI1 Contains_prefix; simp add: HasPrefix_def)+
  then show ?thesis
    by (auto simp: failureStage_def isPermanent_def stages_def stage_defs)
qed

theorem failureStage_classifies_witness:
  "failureStage (errors_New ''down'') \<in> {StageRedisWrite, StageTimescaleWrite}"
  using failureStage_classifies [of "errors_New ''down''" "''''"] by (simp add: isPermanent_def)

end
