(* ===== verification/Settings.thy ===== *)
theory Settings
  imports GoStd Retry
begin

text \<open>
  \<^verbatim>\<open>internal/config\<close>: the settings read from the environment, with every malformed value an error, and their
  validation.  \<open>getenv\<close> is \<^verbatim>\<open>os.Getenv\<close> once the optional \<^verbatim>\<open>.env\<close> file is loaded; an unset variable is the empty
  string.
\<close>

section \<open>The settings\<close>

record ServiceConfig =
  sc_Name :: string
  sc_Environment :: string
  sc_LogLevel :: string
  sc_ShutdownTimeout :: int

record KafkaConfig =
  kc_Brokers :: "string list"
  kc_ConsumerGroup :: string
  kc_MeterTopic :: string
  kc_HeartbeatTopic :: string
  kc_ActuationResponseTopic :: string
  kc_TLS :: bool
  kc_SASLUser :: string
  kc_SASLPass :: string
  kc_SASLMech :: string
  kc_SessionTime :: int
  kc_Heartbeat :: int
  kc_FetchMaxBytes :: int
  kc_MaxPartitionBytes :: int

record PostgresConfig =
  pc_URL :: string
  pc_MaxConns :: int
  pc_MinConns :: int
  pc_ConnectTimeout :: int
  pc_StatementTimeout :: int
  pc_MaxConnLifetime :: int
  pc_ExpectedMigration :: int

record RedisConfig =
  rc_Address :: string
  rc_Username :: string
  rc_Password :: string
  rc_DB :: int
  rc_TLS :: bool
  rc_TLSSkipVerif :: bool
  rc_DialTimeout :: int
  rc_ReadTimeout :: int
  rc_WriteTimeout :: int
  rc_PoolSize :: int
  rc_MinIdleConns :: int
  rc_MaxRetries :: int
  rc_AckPolicy :: string

record RetryConfig =
  ry_MaxTries :: int
  ry_InitialInterval :: int
  ry_MaxInterval :: int

record InputConfig =
  ic_MaxRecordBytes :: int
  ic_EnforceHouseKey :: bool
  ic_MaxConcurrentHandlers :: int

record TracingConfig =
  tc_Endpoint :: string
  tc_Insecure :: bool

record AppConfig =
  ac_Service :: ServiceConfig
  ac_Kafka :: KafkaConfig
  ac_Postgres :: PostgresConfig
  ac_Redis :: RedisConfig
  ac_GRPC_Address :: string
  ac_Health_Address :: string
  ac_RefreshInterval :: int
  ac_Retry :: RetryConfig
  ac_Input :: InputConfig
  ac_Metrics_Address :: string
  ac_Tracing :: TracingConfig
  ac_BaseUrl :: string

definition RedisAckRequired :: string where "RedisAckRequired = ''required''"
definition RedisAckAsyncRepair :: string where "RedisAckAsyncRepair = ''async-repair''"

definition IsAsyncRepair :: "string \<Rightarrow> bool" where
  "IsAsyncRepair p \<longleftrightarrow> p = RedisAckAsyncRepair"

definition IsProduction :: "unicode \<Rightarrow> ServiceConfig \<Rightarrow> bool" where
  "IsProduction u s \<longleftrightarrow> ToLower u (sc_Environment s) \<in> {''production'', ''prod''}"

section \<open>Reading the environment\<close>

type_synonym getenv = "string \<Rightarrow> string"

definition env_or :: "getenv \<Rightarrow> string \<Rightarrow> string \<Rightarrow> string" where
  "env_or getenv key fallback = (if getenv key \<noteq> '''' then getenv key else fallback)"

definition splitList :: "string \<Rightarrow> string list" where
  "splitList v = filter (\<lambda>p. p \<noteq> '''') (map TrimSpace (Split (CHR '','') v))"

text \<open>
  The typed readers append to the errors read so far.  \<open>typed\<close> is their common shape: the fallback for an unset
  variable, and for a malformed one the fallback together with an error.
\<close>

definition typed ::
    "(string \<Rightarrow> 'a option) \<Rightarrow> string \<Rightarrow> getenv \<Rightarrow> string \<Rightarrow> 'a \<Rightarrow> go_error list \<Rightarrow> 'a \<times> go_error list" where
  "typed parse what getenv key fallback errs =
     (let v = getenv key in
      if v = '''' then (fallback, errs)
      else case parse v of
        Some x \<Rightarrow> (x, errs)
      | None \<Rightarrow> (fallback, errs @ [errors_New (key @ '': '' @ go_quote v @ what)]))"

definition reader_integer :: "getenv \<Rightarrow> string \<Rightarrow> int \<Rightarrow> go_error list \<Rightarrow> int \<times> go_error list" where
  "reader_integer = typed (ParseInt 64) '' is not an integer''"

definition reader_int32 :: "getenv \<Rightarrow> string \<Rightarrow> int \<Rightarrow> go_error list \<Rightarrow> int \<times> go_error list" where
  "reader_int32 = typed (ParseInt 32) '' is not a 32-bit integer''"

definition reader_int64 :: "getenv \<Rightarrow> string \<Rightarrow> int \<Rightarrow> go_error list \<Rightarrow> int \<times> go_error list" where
  "reader_int64 = typed (ParseInt 64) '' is not an integer''"

definition reader_duration :: "getenv \<Rightarrow> string \<Rightarrow> int \<Rightarrow> go_error list \<Rightarrow> int \<times> go_error list" where
  "reader_duration = typed ParseDuration ('' is not a duration (e.g. '' @ go_quote ''2s'' @ '')'')"

definition reader_boolean :: "getenv \<Rightarrow> string \<Rightarrow> bool \<Rightarrow> go_error list \<Rightarrow> bool \<times> go_error list" where
  "reader_boolean = typed ParseBool '' is not a boolean''"

section \<open>Validation\<close>

text \<open>A product of durations is taken modulo \<open>2 ^ 64\<close>, as an \<^verbatim>\<open>int64\<close>.\<close>

definition wrap64 :: "int \<Rightarrow> int" where
  "wrap64 x = (x + 2 ^ 63) mod 2 ^ 64 - 2 ^ 63"

definition complain :: "bool \<Rightarrow> string \<Rightarrow> go_error list" where
  "complain bad text = (if bad then [errors_New text] else [])"

definition production_checks :: "unicode \<Rightarrow> AppConfig \<Rightarrow> go_error list" where
  "production_checks u c =
     complain (rc_AckPolicy (ac_Redis c) = '''') ''REDIS_ACK_POLICY must be set explicitly in production'' @
     complain (\<not> kc_TLS (ac_Kafka c) \<and> kc_SASLMech (ac_Kafka c) = '''')
       ''production requires KAFKA_TLS=true or SASL authentication'' @
     complain (\<not> rc_TLS (ac_Redis c)) ''production requires REDIS_TLS=true'' @
     complain (rc_TLSSkipVerif (ac_Redis c)) ''REDIS_TLS_INSECURE_SKIP_VERIFY is development-only'' @
     complain (Contains (ToLower u (pc_URL (ac_Postgres c))) ''sslmode=disable'')
       ''production requires TLS to PostgreSQL (sslmode must not be disable)''"

definition settings_checks :: "unicode \<Rightarrow> AppConfig \<Rightarrow> go_error list" where
  "settings_checks u c =
     (let k = ac_Kafka c; p = ac_Postgres c; r = ac_Redis c; y = ac_Retry c; i = ac_Input c in
      complain (kc_Brokers k = []) ''at least one Kafka broker is required'' @
      complain (pc_URL p = '''') ''POSTGRES_URL is required'' @
      complain (ry_MaxTries y < 1 \<or> ry_MaxTries y > 10) ''INGESTION_RETRY_MAX_TRIES must be between 1 and 10'' @
      complain (ry_InitialInterval y \<le> 0) ''INGESTION_RETRY_INITIAL_INTERVAL must be greater than 0'' @
      complain (ry_MaxInterval y < ry_InitialInterval y)
        ''INGESTION_RETRY_MAX_INTERVAL must be at least INGESTION_RETRY_INITIAL_INTERVAL'' @
      complain (ic_MaxRecordBytes i < 0) ''INGESTION_MAX_RECORD_BYTES must not be negative'' @
      complain (ic_MaxConcurrentHandlers i < 0) ''INGESTION_MAX_CONCURRENT_HANDLERS must not be negative'' @
      complain (rc_AckPolicy r \<notin> {'''', RedisAckRequired, RedisAckAsyncRepair})
        (''REDIS_ACK_POLICY must be '' @ go_quote RedisAckRequired @ '' or '' @ go_quote RedisAckAsyncRepair @
         '', got '' @ go_quote (rc_AckPolicy r)) @
      complain (rc_PoolSize r < 0 \<or> rc_MinIdleConns r < 0 \<or> rc_MaxRetries r < 0)
        ''REDIS_POOL_SIZE, REDIS_MIN_IDLE_CONNS and REDIS_MAX_RETRIES must not be negative'' @
      complain (rc_PoolSize r > 0 \<and> rc_MinIdleConns r > rc_PoolSize r)
        ''REDIS_MIN_IDLE_CONNS must not exceed REDIS_POOL_SIZE'' @
      complain (pc_MaxConns p < 0 \<or> pc_MinConns p < 0)
        ''POSTGRES_MAX_CONNS and POSTGRES_MIN_CONNS must not be negative'' @
      complain (pc_MaxConns p > 0 \<and> pc_MinConns p > pc_MaxConns p)
        ''POSTGRES_MIN_CONNS must not exceed POSTGRES_MAX_CONNS'' @
      complain (kc_SASLMech k \<notin> {'''', ''PLAIN'', ''SCRAM-SHA-256'', ''SCRAM-SHA-512''})
        (''KAFKA_SASL_MECHANISM must be PLAIN, SCRAM-SHA-256 or SCRAM-SHA-512, got '' @ go_quote (kc_SASLMech k)) @
      complain ((kc_SASLMech k = '''') \<noteq> (kc_SASLUser k = ''''))
        ''KAFKA_SASL_MECHANISM and KAFKA_SASL_USER must be set together'' @
      complain (kc_SessionTime k > 0 \<and> kc_Heartbeat k > 0 \<and> wrap64 (kc_Heartbeat k * 3) > kc_SessionTime k)
        ''KAFKA_HEARTBEAT_INTERVAL must be at most a third of KAFKA_SESSION_TIMEOUT'' @
      complain (sc_ShutdownTimeout (ac_Service c) < 0) ''SHUTDOWN_TIMEOUT must not be negative'' @
      (if IsProduction u (ac_Service c) then production_checks u c else []))"

definition Validate :: "unicode \<Rightarrow> AppConfig \<Rightarrow> go_error option" where
  "Validate u c =
     (let errs = settings_checks u c in
      if TrimSpace (ac_BaseUrl c) = '''' then Some (errors_New ''DEWA_MOCK_APP_URL is required'')
      else errors_Join errs)"

section \<open>Loading\<close>

text \<open>The struct literal of \<^verbatim>\<open>Load\<close>, whose readers run in order, with the errors they leave behind.\<close>

definition readConfig :: "unicode \<Rightarrow> getenv \<Rightarrow> AppConfig \<times> go_error list" where
  "readConfig u g =
     (let (shutdownTimeout, e) = reader_duration g ''SHUTDOWN_TIMEOUT'' (30 * ns_second) [];
          (kafkaTLS, e) = reader_boolean g ''KAFKA_TLS'' False e;
          (sessionTime, e) = reader_duration g ''KAFKA_SESSION_TIMEOUT'' (45 * ns_second) e;
          (heartbeat, e) = reader_duration g ''KAFKA_HEARTBEAT_INTERVAL'' (3 * ns_second) e;
          (fetchMaxBytes, e) = reader_int32 g ''KAFKA_FETCH_MAX_BYTES'' 0 e;
          (maxPartitionBytes, e) = reader_int32 g ''KAFKA_MAX_PARTITION_FETCH_BYTES'' 0 e;
          (maxConns, e) = reader_int32 g ''POSTGRES_MAX_CONNS'' 10 e;
          (minConns, e) = reader_int32 g ''POSTGRES_MIN_CONNS'' 1 e;
          (connectTimeout, e) = reader_duration g ''POSTGRES_CONNECT_TIMEOUT'' (10 * ns_second) e;
          (statementTimeout, e) = reader_duration g ''POSTGRES_STATEMENT_TIMEOUT'' (15 * ns_second) e;
          (maxConnLifetime, e) = reader_duration g ''POSTGRES_MAX_CONN_LIFETIME'' ns_hour e;
          (expectedMigration, e) = reader_int64 g ''POSTGRES_EXPECTED_MIGRATION'' 0 e;
          (db, e) = reader_integer g ''REDIS_DB'' 0 e;
          (redisTLS, e) = reader_boolean g ''REDIS_TLS'' False e;
          (skipVerify, e) = reader_boolean g ''REDIS_TLS_INSECURE_SKIP_VERIFY'' False e;
          (dialTimeout, e) = reader_duration g ''REDIS_DIAL_TIMEOUT'' (5 * ns_second) e;
          (readTimeout, e) = reader_duration g ''REDIS_READ_TIMEOUT'' (2 * ns_second) e;
          (writeTimeout, e) = reader_duration g ''REDIS_WRITE_TIMEOUT'' (2 * ns_second) e;
          (poolSize, e) = reader_integer g ''REDIS_POOL_SIZE'' 20 e;
          (minIdleConns, e) = reader_integer g ''REDIS_MIN_IDLE_CONNS'' 2 e;
          (maxRetries, e) = reader_integer g ''REDIS_MAX_RETRIES'' 2 e;
          (refreshInterval, e) = reader_duration g ''ADMISSION_REFRESH_INTERVAL'' (120 * ns_second) e;
          (maxTries, e) = reader_integer g ''INGESTION_RETRY_MAX_TRIES'' 3 e;
          (initialInterval, e) = reader_duration g ''INGESTION_RETRY_INITIAL_INTERVAL'' (100 * ns_millisecond) e;
          (maxInterval, e) = reader_duration g ''INGESTION_RETRY_MAX_INTERVAL'' (2 * ns_second) e;
          (maxRecordBytes, e) = reader_integer g ''INGESTION_MAX_RECORD_BYTES'' (64 * 1024) e;
          (enforceHouseKey, e) = reader_boolean g ''INGESTION_ENFORCE_HOUSE_KEY'' False e;
          (maxConcurrentHandlers, e) = reader_integer g ''INGESTION_MAX_CONCURRENT_HANDLERS'' 16 e;
          (insecure, e) = reader_boolean g ''OTEL_EXPORTER_OTLP_INSECURE'' True e in
      (\<lparr>ac_Service =
               \<lparr>sc_Name = env_or g ''SERVICE_NAME'' ''iot-ingestion-dispatch'',
                sc_Environment = env_or g ''SERVICE_ENV'' ''development'',
                sc_LogLevel = env_or g ''LOG_LEVEL'' ''info'', sc_ShutdownTimeout = shutdownTimeout\<rparr>,
             ac_Kafka =
               \<lparr>kc_Brokers = splitList (env_or g ''KAFKA_BROKER'' ''localhost:9092''),
                kc_ConsumerGroup = env_or g ''KAFKA_CONSUMER_GROUP'' ''iot-ingestion'',
                kc_MeterTopic = env_or g ''KAFKA_METER_TOPIC'' ''iot.meter-readings'',
                kc_HeartbeatTopic = env_or g ''KAFKA_HEARTBEAT_TOPIC'' ''iot.heartbeats'',
                kc_ActuationResponseTopic = env_or g ''KAFKA_ACTUATION_RESPONSE_TOPIC'' ''iot.actuation.response'',
                kc_TLS = kafkaTLS, kc_SASLUser = g ''KAFKA_SASL_USER'', kc_SASLPass = g ''KAFKA_SASL_PASSWORD'',
                kc_SASLMech = ToUpper u (g ''KAFKA_SASL_MECHANISM''), kc_SessionTime = sessionTime,
                kc_Heartbeat = heartbeat, kc_FetchMaxBytes = fetchMaxBytes, kc_MaxPartitionBytes = maxPartitionBytes\<rparr>,
             ac_Postgres =
               \<lparr>pc_URL = g ''POSTGRES_URL'', pc_MaxConns = maxConns, pc_MinConns = minConns,
                pc_ConnectTimeout = connectTimeout, pc_StatementTimeout = statementTimeout,
                pc_MaxConnLifetime = maxConnLifetime, pc_ExpectedMigration = expectedMigration\<rparr>,
             ac_Redis =
               \<lparr>rc_Address = env_or g ''REDIS_ADDRESS'' ''localhost:6379'', rc_Username = g ''REDIS_USERNAME'',
                rc_Password = g ''REDIS_PASSWORD'', rc_DB = db, rc_TLS = redisTLS, rc_TLSSkipVerif = skipVerify,
                rc_DialTimeout = dialTimeout, rc_ReadTimeout = readTimeout, rc_WriteTimeout = writeTimeout,
                rc_PoolSize = poolSize, rc_MinIdleConns = minIdleConns, rc_MaxRetries = maxRetries,
                rc_AckPolicy = env_or g ''REDIS_ACK_POLICY'' RedisAckRequired\<rparr>,
             ac_GRPC_Address = env_or g ''GRPC_ADDRESS'' '':50051'',
             ac_Health_Address = env_or g ''HEALTH_ADDRESS'' '':8080'',
             ac_RefreshInterval = refreshInterval,
             ac_Retry = \<lparr>ry_MaxTries = maxTries, ry_InitialInterval = initialInterval, ry_MaxInterval = maxInterval\<rparr>,
             ac_Input = \<lparr>ic_MaxRecordBytes = maxRecordBytes, ic_EnforceHouseKey = enforceHouseKey,
                         ic_MaxConcurrentHandlers = maxConcurrentHandlers\<rparr>,
             ac_Metrics_Address = env_or g ''METRICS_ADDRESS'' '':9090'',
             ac_Tracing = \<lparr>tc_Endpoint = g ''OTEL_EXPORTER_OTLP_ENDPOINT'', tc_Insecure = insecure\<rparr>,
             ac_BaseUrl = g ''DEWA_MOCK_APP_URL''\<rparr>, e))"

definition Load :: "unicode \<Rightarrow> getenv \<Rightarrow> go_error + AppConfig" where
  "Load u g =
     (case readConfig u g of (config, errs) \<Rightarrow>
        checkE (errors_Join errs) (checkE (Validate u config) (Inr config)))"


section \<open>What loading guarantees\<close>

definition setting :: "(string \<Rightarrow> 'a option) \<Rightarrow> getenv \<Rightarrow> string \<Rightarrow> 'a \<Rightarrow> 'a" where
  "setting parse g k d = (if g k = '''' then d else case parse (g k) of Some x \<Rightarrow> x | None \<Rightarrow> d)"

definition unparsable :: "(string \<Rightarrow> 'a option) \<Rightarrow> getenv \<Rightarrow> string \<Rightarrow> bool" where
  "unparsable parse g k \<longleftrightarrow> g k \<noteq> '''' \<and> parse (g k) = None"

definition setting_errors :: "(string \<Rightarrow> 'a option) \<Rightarrow> string \<Rightarrow> getenv \<Rightarrow> string \<Rightarrow> go_error list" where
  "setting_errors parse what g k =
     (if unparsable parse g k then [errors_New (k @ '': '' @ go_quote (g k) @ what)] else [])"

lemma typed_split: "typed parse what g k d errs = (setting parse g k d, errs @ setting_errors parse what g k)"
  by (auto simp: typed_def setting_def setting_errors_def unparsable_def Let_def split: option.splits)

lemma setting_errors_Nil: "setting_errors parse what g k = [] \<longleftrightarrow> \<not> unparsable parse g k"
  by (simp add: setting_errors_def)

lemmas readers = reader_integer_def reader_int32_def reader_int64_def reader_duration_def reader_boolean_def

text \<open>The errors of all readers in order, and the settings when there are none.\<close>

definition duration_settings :: "string list" where
  "duration_settings =
     [''SHUTDOWN_TIMEOUT'', ''KAFKA_SESSION_TIMEOUT'', ''KAFKA_HEARTBEAT_INTERVAL'', ''POSTGRES_CONNECT_TIMEOUT'',
      ''POSTGRES_STATEMENT_TIMEOUT'', ''POSTGRES_MAX_CONN_LIFETIME'', ''REDIS_DIAL_TIMEOUT'', ''REDIS_READ_TIMEOUT'',
      ''REDIS_WRITE_TIMEOUT'', ''ADMISSION_REFRESH_INTERVAL'', ''INGESTION_RETRY_INITIAL_INTERVAL'',
      ''INGESTION_RETRY_MAX_INTERVAL'']"

definition integer_settings :: "string list" where
  "integer_settings =
     [''POSTGRES_EXPECTED_MIGRATION'', ''REDIS_DB'', ''REDIS_POOL_SIZE'', ''REDIS_MIN_IDLE_CONNS'', ''REDIS_MAX_RETRIES'',
      ''INGESTION_RETRY_MAX_TRIES'', ''INGESTION_MAX_RECORD_BYTES'', ''INGESTION_MAX_CONCURRENT_HANDLERS'']"

definition int32_settings :: "string list" where
  "int32_settings =
     [''KAFKA_FETCH_MAX_BYTES'', ''KAFKA_MAX_PARTITION_FETCH_BYTES'', ''POSTGRES_MAX_CONNS'', ''POSTGRES_MIN_CONNS'']"

definition boolean_settings :: "string list" where
  "boolean_settings =
     [''KAFKA_TLS'', ''REDIS_TLS'', ''REDIS_TLS_INSECURE_SKIP_VERIFY'', ''INGESTION_ENFORCE_HOUSE_KEY'',
      ''OTEL_EXPORTER_OTLP_INSECURE'']"

text \<open>Every variable that is set has a value of its type.\<close>

definition settings_parse :: "getenv \<Rightarrow> bool" where
  "settings_parse g \<longleftrightarrow>
     list_all (\<lambda>k. \<not> unparsable ParseDuration g k) duration_settings \<and>
     list_all (\<lambda>k. \<not> unparsable (ParseInt 64) g k) integer_settings \<and>
     list_all (\<lambda>k. \<not> unparsable (ParseInt 32) g k) int32_settings \<and>
     list_all (\<lambda>k. \<not> unparsable ParseBool g k) boolean_settings"

definition reader_errors :: "getenv \<Rightarrow> go_error list" where
  "reader_errors g =
     (let d = setting_errors ParseDuration ('' is not a duration (e.g. '' @ go_quote ''2s'' @ '')'') g;
          i = setting_errors (ParseInt 64) '' is not an integer'' g;
          j = setting_errors (ParseInt 32) '' is not a 32-bit integer'' g;
          b = setting_errors ParseBool '' is not a boolean'' g in
      d ''SHUTDOWN_TIMEOUT'' @ b ''KAFKA_TLS'' @ d ''KAFKA_SESSION_TIMEOUT'' @ d ''KAFKA_HEARTBEAT_INTERVAL'' @
      j ''KAFKA_FETCH_MAX_BYTES'' @ j ''KAFKA_MAX_PARTITION_FETCH_BYTES'' @ j ''POSTGRES_MAX_CONNS'' @
      j ''POSTGRES_MIN_CONNS'' @ d ''POSTGRES_CONNECT_TIMEOUT'' @ d ''POSTGRES_STATEMENT_TIMEOUT'' @
      d ''POSTGRES_MAX_CONN_LIFETIME'' @ i ''POSTGRES_EXPECTED_MIGRATION'' @ i ''REDIS_DB'' @ b ''REDIS_TLS'' @
      b ''REDIS_TLS_INSECURE_SKIP_VERIFY'' @ d ''REDIS_DIAL_TIMEOUT'' @ d ''REDIS_READ_TIMEOUT'' @
      d ''REDIS_WRITE_TIMEOUT'' @ i ''REDIS_POOL_SIZE'' @ i ''REDIS_MIN_IDLE_CONNS'' @ i ''REDIS_MAX_RETRIES'' @
      d ''ADMISSION_REFRESH_INTERVAL'' @ i ''INGESTION_RETRY_MAX_TRIES'' @ d ''INGESTION_RETRY_INITIAL_INTERVAL'' @
      d ''INGESTION_RETRY_MAX_INTERVAL'' @ i ''INGESTION_MAX_RECORD_BYTES'' @ b ''INGESTION_ENFORCE_HOUSE_KEY'' @
      i ''INGESTION_MAX_CONCURRENT_HANDLERS'' @ b ''OTEL_EXPORTER_OTLP_INSECURE'')"

lemma reader_errors_Nil: "reader_errors g = [] \<longleftrightarrow> settings_parse g"
  unfolding reader_errors_def Let_def settings_parse_def duration_settings_def integer_settings_def int32_settings_def
    boolean_settings_def list.pred_inject(2) append_is_Nil_conv setting_errors_Nil simp_thms
  by (rule iffI; elim conjE; intro conjI; (assumption | rule list.pred_inject(1)))

text \<open>Loading is the readers, then the validation of what they read.\<close>

lemma readConfig_errors: "snd (readConfig u g) = reader_errors g"
  unfolding readConfig_def readers typed_split Let_def prod.case snd_conv reader_errors_def
  by (simp only: append.simps append_assoc)

lemma readConfig_fields:
  "ac_Retry (fst (readConfig u g)) =
     \<lparr>ry_MaxTries = setting (ParseInt 64) g ''INGESTION_RETRY_MAX_TRIES'' 3,
      ry_InitialInterval = setting ParseDuration g ''INGESTION_RETRY_INITIAL_INTERVAL'' (100 * ns_millisecond),
      ry_MaxInterval = setting ParseDuration g ''INGESTION_RETRY_MAX_INTERVAL'' (2 * ns_second)\<rparr>"
  "kc_FetchMaxBytes (ac_Kafka (fst (readConfig u g))) = setting (ParseInt 32) g ''KAFKA_FETCH_MAX_BYTES'' 0"
  "kc_MaxPartitionBytes (ac_Kafka (fst (readConfig u g))) = setting (ParseInt 32) g ''KAFKA_MAX_PARTITION_FETCH_BYTES'' 0"
  "kc_SessionTime (ac_Kafka (fst (readConfig u g))) = setting ParseDuration g ''KAFKA_SESSION_TIMEOUT'' (45 * ns_second)"
  "kc_Heartbeat (ac_Kafka (fst (readConfig u g))) = setting ParseDuration g ''KAFKA_HEARTBEAT_INTERVAL'' (3 * ns_second)"
  "pc_MaxConns (ac_Postgres (fst (readConfig u g))) = setting (ParseInt 32) g ''POSTGRES_MAX_CONNS'' 10"
  "pc_MinConns (ac_Postgres (fst (readConfig u g))) = setting (ParseInt 32) g ''POSTGRES_MIN_CONNS'' 1"
  "rc_PoolSize (ac_Redis (fst (readConfig u g))) = setting (ParseInt 64) g ''REDIS_POOL_SIZE'' 20"
  "rc_AckPolicy (ac_Redis (fst (readConfig u g))) = env_or g ''REDIS_ACK_POLICY'' RedisAckRequired"
  "ac_BaseUrl (fst (readConfig u g)) = g ''DEWA_MOCK_APP_URL''"
  unfolding readConfig_def readers typed_split Let_def prod.case fst_conv by simp_all

lemma Load_Inr: "Load u g = Inr c \<longleftrightarrow> reader_errors g = [] \<and> c = fst (readConfig u g) \<and> Validate u c = None"
  by (cases "readConfig u g") (auto simp: Load_def checkE_Inr_iff readConfig_errors [of u g, symmetric])

lemma Load_Inl: "errors_Join (reader_errors g) = Some e \<Longrightarrow> Load u g = Inl e"
  by (cases "readConfig u g") (simp add: Load_def readConfig_errors [of u g, symmetric])

definition policy_of :: "RetryConfig \<Rightarrow> RetryPolicy" where
  "policy_of r = \<lparr>rp_MaxTries = ry_MaxTries r, rp_InitialInterval = ry_InitialInterval r, rp_MaxInterval = ry_MaxInterval r\<rparr>"

text \<open>What a validated configuration promises the rest of the service.\<close>

definition safe_settings :: "unicode \<Rightarrow> AppConfig \<Rightarrow> bool" where
  "safe_settings u c \<longleftrightarrow>
     kc_Brokers (ac_Kafka c) \<noteq> [] \<and> pc_URL (ac_Postgres c) \<noteq> '''' \<and> TrimSpace (ac_BaseUrl c) \<noteq> '''' \<and>
     1 \<le> ry_MaxTries (ac_Retry c) \<and> ry_MaxTries (ac_Retry c) \<le> 10 \<and>
     0 < ry_InitialInterval (ac_Retry c) \<and> ry_InitialInterval (ac_Retry c) \<le> ry_MaxInterval (ac_Retry c) \<and>
     0 \<le> ic_MaxRecordBytes (ac_Input c) \<and> 0 \<le> ic_MaxConcurrentHandlers (ac_Input c) \<and>
     0 \<le> pc_MinConns (ac_Postgres c) \<and>
     rc_AckPolicy (ac_Redis c) \<in> {'''', RedisAckRequired, RedisAckAsyncRepair} \<and>
     (kc_SASLMech (ac_Kafka c) = '''' \<longleftrightarrow> kc_SASLUser (ac_Kafka c) = '''') \<and>
     (IsProduction u (ac_Service c) \<longrightarrow>
        (kc_TLS (ac_Kafka c) \<or> kc_SASLUser (ac_Kafka c) \<noteq> '''') \<and> rc_TLS (ac_Redis c) \<and>
        \<not> rc_TLSSkipVerif (ac_Redis c) \<and> \<not> Contains (ToLower u (pc_URL (ac_Postgres c))) ''sslmode=disable'')"

lemma complain_Nil [simp]: "complain bad text = [] \<longleftrightarrow> \<not> bad"
  by (simp add: complain_def)

lemma Validate_safe: "Validate u c = None \<Longrightarrow> safe_settings u c"
  unfolding Validate_def settings_checks_def production_checks_def safe_settings_def Let_def
  by (simp only: errors_Join_None append_is_Nil_conv complain_Nil split: if_splits) auto

lemma safe_policy:
  "safe_settings u c \<Longrightarrow> RetryPolicy_withDefaults (policy_of (ac_Retry c)) = policy_of (ac_Retry c)"
  by (simp add: safe_settings_def RetryPolicy_withDefaults_def policy_of_def Let_def maxRetryTries_def)

text \<open>
  C34. A configuration is loaded only when every typed variable that is set parses; it then meets the bounds the
  rest of the service relies on (the retry policy is used as configured), and in production transport
  security to Redis and to Kafka or its authentication.  Otherwise nothing is loaded and the error names
  every malformed variable at once, never a default in its place.
\<close>

theorem Load_correct:
  "(Load u g = Inr c \<longrightarrow>
      settings_parse g \<and> safe_settings u c \<and>
      RetryPolicy_withDefaults (policy_of (ac_Retry c)) = policy_of (ac_Retry c)) \<and>
   (\<not> settings_parse g \<longrightarrow>
      (\<exists>e. Load u g = Inl e \<and> (\<forall>x \<in> set (reader_errors g). Contains (err_text e) (err_text x))))"
proof (intro conjI impI)
  assume "Load u g = Inr c"
  then have "settings_parse g" "Validate u c = None" unfolding Load_Inr reader_errors_Nil by blast+
  then show "settings_parse g" "safe_settings u c"
    "RetryPolicy_withDefaults (policy_of (ac_Retry c)) = policy_of (ac_Retry c)"
    using Validate_safe safe_policy by blast+
next
  assume "\<not> settings_parse g"
  then obtain e where e: "errors_Join (reader_errors g) = Some e"
    by (cases "errors_Join (reader_errors g)") (auto simp: reader_errors_Nil)
  from Load_Inl [OF this] errors_Join_Contains [OF this]
  show "\<exists>e. Load u g = Inl e \<and> (\<forall>x \<in> set (reader_errors g). Contains (err_text e) (err_text x))" by blast
qed

definition sample_env :: getenv where
  "sample_env k =
     (if k = ''POSTGRES_URL'' then ''postgres://db'' else if k = ''DEWA_MOCK_APP_URL'' then ''http://dewa''
      else if k = ''SERVICE_ENV'' then ''Prod'' else if k = ''KAFKA_TLS'' then ''true''
      else if k = ''REDIS_TLS'' then ''1'' else if k = ''ADMISSION_REFRESH_INTERVAL'' then ''1m30s'' else [])"

definition no_unicode :: unicode where
  "no_unicode = \<lparr>uc_upper = id, uc_lower = id\<rparr>"

lemma sample_env_loads:
  "\<not> isl (Load no_unicode sample_env) \<and> isl (Load no_unicode (sample_env(''REDIS_DB'' := ''x'')))"
  by code_simp

lemma setting_range:
  assumes "\<And>s v. parse s = Some v \<Longrightarrow> P v" "P d"
  shows "P (setting parse g k d)"
  using assms by (simp add: setting_def split: option.splits)

definition fits :: "nat \<Rightarrow> int \<Rightarrow> bool" where
  "fits bits v \<longleftrightarrow> - (2 ^ (bits - 1)) \<le> v \<and> v < 2 ^ (bits - 1)"

lemma parsed_fits: "ParseInt bits s = Some v \<Longrightarrow> fits bits v" "ParseDuration s = Some v \<Longrightarrow> fits 64 v"
  using ParseInt_range [of bits s v] ParseDuration_range [of s v] by (simp_all add: fits_def)

lemma setting_fits:
  "fits bits d \<Longrightarrow> fits bits (setting (ParseInt bits) g k d)"
  "fits 64 d \<Longrightarrow> fits 64 (setting ParseDuration g k d)"
  using parsed_fits by (blast intro: setting_range)+


theorem Load_correct_witness:
  "(\<exists>c. Load no_unicode sample_env = Inr c \<and> safe_settings no_unicode c) \<and>
   (\<exists>e. Load no_unicode (sample_env(''REDIS_DB'' := ''x'')) = Inl e \<and>
      Contains (err_text e) (''REDIS_DB: '' @ go_quote ''x'' @ '' is not an integer''))"
proof
  obtain c where "Load no_unicode sample_env = Inr c"
    using sample_env_loads by (cases "Load no_unicode sample_env") auto
  with Load_correct [of no_unicode sample_env c] show "\<exists>c. Load no_unicode sample_env = Inr c \<and> safe_settings no_unicode c"
    by blast
  let ?g = "sample_env(''REDIS_DB'' := ''x'')"
  have "unparsable (ParseInt 64) ?g ''REDIS_DB''" by code_simp
  then have "\<not> settings_parse ?g"
    and "errors_New (''REDIS_DB: '' @ go_quote ''x'' @ '' is not an integer'') \<in> set (reader_errors ?g)"
    by (simp_all add: settings_parse_def integer_settings_def reader_errors_def Let_def setting_errors_def)
  with Load_correct [of no_unicode ?g] show "\<exists>e. Load no_unicode ?g = Inl e \<and>
      Contains (err_text e) (''REDIS_DB: '' @ go_quote ''x'' @ '' is not an integer'')"
    by (fastforce simp: errors_New_def)
qed


text \<open>
  The bound on the heartbeat interval is computed in 64 bits: an interval of 99 years passes as at most a third
  of a 45 second session timeout.
\<close>

theorem heartbeat_bound_wraps:
  "settings_checks u c = [] \<Longrightarrow> 0 < kc_SessionTime (ac_Kafka c) \<Longrightarrow>
   settings_checks u (c\<lparr>ac_Kafka := (ac_Kafka c)\<lparr>kc_Heartbeat := 3124200000000000000\<rparr>\<rparr>) = []"
  unfolding settings_checks_def production_checks_def Let_def wrap64_def
  by (simp only: append_is_Nil_conv complain_Nil) (auto simp: complain_def split: if_splits)

text \<open>A missing DEWA address hides every other complaint.\<close>

lemma missing_url_hides_errors:
  "TrimSpace (ac_BaseUrl c) = [] \<Longrightarrow> Validate u c = Some (errors_New ''DEWA_MOCK_APP_URL is required'')"
  by (simp add: Validate_def Let_def)

end
