(* ===== verification/Sha256.thy ===== *)
theory Sha256
  imports Utf8 "HOL-Library.Word"
begin

text \<open>
  \<^verbatim>\<open>crypto/sha256\<close> and \<^verbatim>\<open>encoding/hex\<close> as far as \<^verbatim>\<open>internal/ingestion/failure_recorder.go\<close> uses them:
  the digest that identifies the payload of a failed record.
\<close>

unbundle bit_operations_syntax

section \<open>The hash\<close>

type_synonym word32 = "32 word"

definition sha_K :: "word32 list" where
  "sha_K =
    [0x428A2F98, 0x71374491, 0xB5C0FBCF, 0xE9B5DBA5, 0x3956C25B, 0x59F111F1, 0x923F82A4, 0xAB1C5ED5,
     0xD807AA98, 0x12835B01, 0x243185BE, 0x550C7DC3, 0x72BE5D74, 0x80DEB1FE, 0x9BDC06A7, 0xC19BF174,
     0xE49B69C1, 0xEFBE4786, 0x0FC19DC6, 0x240CA1CC, 0x2DE92C6F, 0x4A7484AA, 0x5CB0A9DC, 0x76F988DA,
     0x983E5152, 0xA831C66D, 0xB00327C8, 0xBF597FC7, 0xC6E00BF3, 0xD5A79147, 0x06CA6351, 0x14292967,
     0x27B70A85, 0x2E1B2138, 0x4D2C6DFC, 0x53380D13, 0x650A7354, 0x766A0ABB, 0x81C2C92E, 0x92722C85,
     0xA2BFE8A1, 0xA81A664B, 0xC24B8B70, 0xC76C51A3, 0xD192E819, 0xD6990624, 0xF40E3585, 0x106AA070,
     0x19A4C116, 0x1E376C08, 0x2748774C, 0x34B0BCB5, 0x391C0CB3, 0x4ED8AA4A, 0x5B9CCA4F, 0x682E6FF3,
     0x748F82EE, 0x78A5636F, 0x84C87814, 0x8CC70208, 0x90BEFFFA, 0xA4506CEB, 0xBEF9A3F7, 0xC67178F2]"

definition sha_H0 :: "word32 list" where
  "sha_H0 =
    [0x6A09E667, 0xBB67AE85, 0x3C6EF372, 0xA54FF53A, 0x510E527F, 0x9B05688C, 0x1F83D9AB, 0x5BE0CD19]"

definition Ch :: "word32 \<Rightarrow> word32 \<Rightarrow> word32 \<Rightarrow> word32" where
  "Ch x y z = (x AND y) XOR (NOT x AND z)"

definition Maj :: "word32 \<Rightarrow> word32 \<Rightarrow> word32 \<Rightarrow> word32" where
  "Maj x y z = (x AND y) XOR (x AND z) XOR (y AND z)"

definition Sigma0 :: "word32 \<Rightarrow> word32" where
  "Sigma0 x = word_rotr 2 x XOR word_rotr 13 x XOR word_rotr 22 x"

definition Sigma1 :: "word32 \<Rightarrow> word32" where
  "Sigma1 x = word_rotr 6 x XOR word_rotr 11 x XOR word_rotr 25 x"

definition sigma0 :: "word32 \<Rightarrow> word32" where
  "sigma0 x = word_rotr 7 x XOR word_rotr 18 x XOR drop_bit 3 x"

definition sigma1 :: "word32 \<Rightarrow> word32" where
  "sigma1 x = word_rotr 17 x XOR word_rotr 19 x XOR drop_bit 10 x"

text \<open>Padding: a one bit, zeros, and the length in bits as 64 bits, to a multiple of 64 bytes.\<close>

definition byte_at :: "nat \<Rightarrow> nat \<Rightarrow> char" where
  "byte_at n i = char_of (n div 256 ^ i mod 256)"

definition sha_pad :: "bytes \<Rightarrow> bytes" where
  "sha_pad m =
     (let l = length m; z = (119 - l mod 64) mod 64 in
      m @ [CHR 0x80] @ replicate z (CHR 0x00) @ map (byte_at (8 * l)) (rev [0..<8]))"

fun words_of :: "bytes \<Rightarrow> word32 list" where
  "words_of (a # b # c # d # m) =
     of_nat (byte a * 16777216 + byte b * 65536 + byte c * 256 + byte d) # words_of m"
| "words_of _ = []"

fun sha_extend :: "nat \<Rightarrow> word32 list \<Rightarrow> word32 list" where
  "sha_extend 0 ws = ws"
| "sha_extend (Suc k) ws =
     (let t = length ws in
      sha_extend k (ws @ [sigma1 (ws ! (t - 2)) + ws ! (t - 7) + sigma0 (ws ! (t - 15)) + ws ! (t - 16)]))"

definition sha_round :: "word32 \<times> word32 \<Rightarrow> word32 list \<Rightarrow> word32 list" where
  "sha_round kw s =
     (case s of
        [a, b, c, d, e, f, g, h] \<Rightarrow>
          (let t1 = h + Sigma1 e + Ch e f g + fst kw + snd kw; t2 = Sigma0 a + Maj a b c in
           [t1 + t2, a, b, c, d + t1, e, f, g])
      | _ \<Rightarrow> s)"

definition sha_block :: "bytes \<Rightarrow> word32 list \<Rightarrow> word32 list" where
  "sha_block b hs =
     map2 (+) hs (fold sha_round (zip sha_K (sha_extend 48 (words_of b))) hs)"

function sha_blocks :: "bytes \<Rightarrow> word32 list \<Rightarrow> word32 list" where
  "sha_blocks m hs = (if m = [] then hs else sha_blocks (drop 64 m) (sha_block (take 64 m) hs))"
  by pat_completeness auto
termination by (relation "measure (\<lambda>(m, hs). length m)") auto

declare sha_blocks.simps [simp del]

definition Sum256 :: "bytes \<Rightarrow> bytes" where
  "Sum256 m =
     concat (map (\<lambda>w. map (byte_at (unat w)) (rev [0..<4])) (sha_blocks (sha_pad m) sha_H0))"

definition hex_EncodeToString :: "bytes \<Rightarrow> string" where
  "hex_EncodeToString bs = concat (map (\<lambda>c. [hex_digit (byte c div 16), hex_digit (byte c mod 16)]) bs)"

definition payloadSHA256 :: "bytes \<Rightarrow> string" where
  "payloadSHA256 raw = hex_EncodeToString (Sum256 raw)"

section \<open>The digest is storable\<close>

lemma length_sha_round: "length s = 8 \<Longrightarrow> length (sha_round kw s) = 8"
  by (auto simp: sha_round_def Let_def split: list.splits)

lemma length_sha_block:
  assumes "length hs = 8"
  shows "length (sha_block b hs) = 8"
proof -
  have "length (fold sha_round kws s) = 8" if "length s = 8" for kws s
    using that by (induction kws arbitrary: s) (simp_all add: length_sha_round)
  with assms show ?thesis by (simp add: sha_block_def)
qed

lemma length_sha_blocks: "length hs = 8 \<Longrightarrow> length (sha_blocks m hs) = 8"
proof (induction m hs rule: sha_blocks.induct)
  case (1 m hs)
  then show ?case by (subst sha_blocks.simps) (simp add: length_sha_block)
qed

lemma length_Sum256: "length (Sum256 m) = 32"
proof -
  have "length (concat (map (\<lambda>w. map (byte_at (unat w)) (rev [0..<4])) ws)) = 4 * length ws" for ws :: "word32 list"
    by (induction ws) simp_all
  moreover have "length (sha_blocks (sha_pad m) sha_H0) = 8"
    by (rule length_sha_blocks) (simp add: sha_H0_def)
  ultimately show ?thesis by (simp add: Sum256_def)
qed

lemma hex_digit_ascii: "n < 16 \<Longrightarrow> 0 < byte (hex_digit n) \<and> byte (hex_digit n) < 128"
  by (auto simp: hex_digit_def byte_def)

lemma payloadSHA256_ok: "text_ok (payloadSHA256 raw)" "length (payloadSHA256 raw) = 64"
proof -
  have "byte c < 256" for c :: char
    unfolding byte_def by (cases c) (simp add: of_char_def horner_sum_simps split: bool.split)
  then have "byte c div 16 < 16" for c :: char
    by (simp add: less_mult_imp_div_less)
  then show "text_ok (payloadSHA256 raw)"
    by (intro text_ok_ascii)
       (auto simp: payloadSHA256_def hex_EncodeToString_def list_all_iff hex_digit_ascii)
  have "length (hex_EncodeToString bs) = 2 * length bs" for bs
    by (induction bs) (simp_all add: hex_EncodeToString_def)
  then show "length (payloadSHA256 raw) = 64" by (simp add: payloadSHA256_def length_Sum256)
qed

end
