(* ===== verification/ErrorKinds.thy ===== *)
theory ErrorKinds
  imports Handlers
begin

text \<open>
  Which sentinels the stores and handlers can put on the unwrap chain of an error.  The worker decides by
  \<^verbatim>\<open>errors.Is\<close>; its own sentinels must not come from below.
\<close>

definition spares :: "sentinel \<Rightarrow> ('s, 'a) act \<Rightarrow> bool" where
  "spares x m \<longleftrightarrow> (\<forall>s e s'. m s = (Inl e, s') \<longrightarrow> \<not> errors_Is e x)"

named_theorems sparing \<open>combinators and methods that do not raise a sentinel\<close>

lemma sparesD: "spares x m \<Longrightarrow> m s = (Inl e, s') \<Longrightarrow> \<not> errors_Is e x"
  unfolding spares_def by blast

text \<open>The sentinels of the ingestion package, which only the router and the worker raise.\<close>

definition ingestion_sentinel :: "sentinel \<Rightarrow> bool" where
  "ingestion_sentinel x \<longleftrightarrow>
     x \<in> {ErrHandlerPanic, ErrWorkerPanic, ErrNoHandler, errWorkerStopped, errRecordInterrupted}"

lemma ingestion_sentinel_neq:
  "ingestion_sentinel x \<Longrightarrow> x \<noteq> ContextCanceled \<and> x \<noteq> ContextDeadlineExceeded \<and> x \<noteq> ErrValidation \<and>
     x \<noteq> ErrIntegrityConflict \<and> x \<noteq> ErrHouseIdentity \<and> x \<noteq> ErrUnknownGrid \<and> x \<noteq> RedisErrNotFound"
  by (auto simp: ingestion_sentinel_def)

lemma spares_ret [sparing]: "spares x (ret v)"
  by (simp add: spares_def)

lemma spares_throw [sparing]: "\<not> errors_Is e x \<Longrightarrow> spares x (throw e)"
  by (simp add: spares_def)

lemma spares_andThen [sparing]: "spares x m \<Longrightarrow> (\<And>v. spares x (k v)) \<Longrightarrow> spares x (andThen m k)"
  unfolding spares_def andThen_Inl_iff by blast

lemma spares_if [sparing]: "spares x m \<Longrightarrow> spares x n \<Longrightarrow> spares x (if b then m else n)"
  by simp

lemma spares_option [sparing]:
  "spares x m \<Longrightarrow> (\<And>v. spares x (k v)) \<Longrightarrow> spares x (case o' of None \<Rightarrow> m | Some v \<Rightarrow> k v)"
  by (cases o') auto

lemma spares_liftE [sparing]: "(\<And>e. r = Inl e \<Longrightarrow> \<not> errors_Is e x) \<Longrightarrow> spares x (liftE r)"
  by (simp add: spares_def)

lemma spares_wrapErr [sparing]: "spares x m \<Longrightarrow> spares x (wrapErr (Errorf_w pre) m)"
  unfolding spares_def wrapErr_Inl_iff by (metis errors_Is_Errorf_w)

lemma spares_onSql [sparing]: "(\<And>e. \<not> errors_Is (g e) x) \<Longrightarrow> spares x (onSql g m)"
  by (auto simp: spares_def onSql_Inl_iff)

lemma spares_sqlErrorf [sparing]: "ingestion_sentinel x \<Longrightarrow> \<not> errors_Is (sqlErrorf pre e) x"
  using sqlErrorf_not_permanent ingestion_sentinel_neq by blast

lemma spares_infra: "ingestion_sentinel x \<Longrightarrow> \<not> errors_Is (infra_error i) x"
  by (auto dest: ingestion_sentinel_neq)

lemma spares_BeginFunc [sparing]:
  assumes "ingestion_sentinel x" "spares x m"
  shows "spares x (BeginFunc m)"
  unfolding spares_def
proof (intro allI impI)
  fix p e q
  assume "BeginFunc m p = (Inl e, q)"
  then have "(\<exists>i. e = infra_error i) \<or> (\<exists>p1 q1. m p1 = (Inl e, q1))"
    by (auto simp: BeginFunc_def split: prod.splits fault.splits sum.splits)
  with sparesD [OF assms(2)] spares_infra [OF assms(1)] show "\<not> errors_Is e x" by blast
qed

lemma spares_onCmd [sparing]:
  assumes "ingestion_sentinel x"
  shows "spares x (onCmd pre q)"
proof -
  have "\<not> errors_Is (redis_go_error r) x" for r
    using spares_infra [OF assms] by (cases r) auto
  then show ?thesis by (auto simp: spares_def onCmd_def failWith_Inl_iff split: prod.splits)
qed

lemma spares_onPg [sparing]: "spares x m \<Longrightarrow> spares x (onPg m)"
  unfolding spares_def onPg_iff by blast

lemma spares_onRedis [sparing]: "spares x m \<Longrightarrow> spares x (onRedis m)"
  unfolding spares_def onRedis_iff by blast

lemma spares_absorbing [sparing]: "spares x m \<Longrightarrow> spares x (absorbing policy pre m)"
  unfolding spares_def absorbing_Inl by (metis errors_Is_Errorf_w)

section \<open>The stores\<close>

lemma spares_InsertMeterReading [sparing]:
  assumes "ingestion_sentinel x"
  shows "spares x (InsertMeterReading r)"
proof -
  note x = ingestion_sentinel_neq [OF assms]
  have e: "\<not> errors_Is (storage_error r a y) x" for r a y
    using x spares_sqlErrorf [OF assms] by (auto simp: storage_error_def split: sql_error.split)
  have "spares x (insertStorageAssets r as)" for r as
    by (induction as) (simp_all only: insertStorageAssets.simps, (intro sparing e; assumption?)+)
  moreover have "\<not> errors_Is (replay_conflict r) x" for r
    using x by (simp add: replay_conflict_def)
  ultimately show ?thesis
    unfolding InsertMeterReading_def verifyReplay_def Let_def by (intro sparing assms)
qed

lemma spares_applyHouse: 
  assumes "ingestion_sentinel x"
  shows "spares x (applyHouse hb seen)"
proof -
  note x = ingestion_sentinel_neq [OF assms]
  have "spares x (explainHouseMismatch hb)"
    using x spares_sqlErrorf [OF assms]
    by (auto simp: spares_def explainHouseMismatch_def house_identity_error_def Let_def
        split: prod.splits sum.splits sql_error.splits option.splits if_splits)
  then show ?thesis
    using spares_sqlErrorf [OF assms]
    by (auto simp: spares_def applyHouse_def split: prod.splits sum.splits sql_error.splits)
qed

lemma spares_applyKnownAsset:
  "ingestion_sentinel x \<Longrightarrow> spares x (applyKnownAsset src house stored a seen)"
  unfolding applyKnownAsset_def
  by (cases "compareAsset (sa_houseID stored) (sa_asset stored) a house")
     (auto simp: asset_conflict_error_def intro!: sparing dest: ingestion_sentinel_neq)

lemma spares_ApplyHeartbeat [sparing]:
  assumes "ingestion_sentinel x"
  shows "spares x (ApplyHeartbeat hb t)"
proof -
  have l: "spares x (loadAssets q ids)" for q ids
    unfolding loadAssets_def by (intro sparing assms)
  have n: "spares x (observeNewAsset house a seen)" for house a seen
    unfolding observeNewAsset_def by (intro sparing assms l spares_applyKnownAsset) simp
  have "spares x (applyAssetList house seen reg disc as)" for house seen reg disc as
    by (induction as)
       (simp_all only: applyAssetList.simps, (intro sparing spares_applyKnownAsset n assms; assumption?)+)
  then show ?thesis
    unfolding ApplyHeartbeat_def applyAssets_def Let_def
    by (intro sparing assms spares_applyHouse l)
qed

lemma spares_cache [sparing]:
  assumes "ingestion_sentinel x"
  shows "spares x (SetLatestIfNewer p)" "spares x (UpdateHeartbeat g h st)"
proof -
  have "\<not> errors_Is e x" if "failWith (Errorf_w pre) (json_Marshal p) = Inl e" for pre e
    using that by (auto simp: json_Marshal_def failWith_Inl_iff split: if_splits)
  then show "spares x (SetLatestIfNewer p)"
    unfolding SetLatestIfNewer_def Let_def by (intro sparing assms)
  show "spares x (UpdateHeartbeat g h st)"
    unfolding UpdateHeartbeat_def updateHeartbeatWithTTL_def by (intro sparing assms)
qed

lemma spares_RecordFailure [sparing]: "ingestion_sentinel x \<Longrightarrow> spares x (RecordFailure rec)"
  unfolding RecordFailure_def Let_def by (intro sparing)

section \<open>The handlers\<close>

lemma spares_guarding [sparing]: "(\<And>e. c = Some e \<Longrightarrow> \<not> errors_Is e x) \<Longrightarrow> spares x (guarding pre c)"
  by (auto simp: spares_def guarding_Inl)

lemma check_errors_only:
  "checkSize l v = Some e \<Longrightarrow> is_validation e"
  "checkKey l key g h = Some e \<Longrightarrow> is_validation e"
  by (auto simp: checkSize_def checkKey_def Let_def split: if_splits)

lemma duplicateAssetLoop_only: "duplicateAssetLoop i seen as = Some e \<Longrightarrow> is_validation e"
  by (induction as arbitrary: i seen) (auto split: if_splits)

lemma spares_handlers:
  assumes "ingestion_sentinel x"
  shows "spares x (MeterHandler_HandleRecord mh env key v)" "spares x (HeartbeatHandler_HandleRecord hh env key v)"
proof -
  have v: "\<not> errors_Is e x" if "is_validation e" for e
    using that ingestion_sentinel_neq [OF assms] by simp
  have g: "\<not> errors_Is (unknown_grid g) x" for g
    using ingestion_sentinel_neq [OF assms] by simp
  have d: "\<not> errors_Is e x" if "failWith (Errorf_w pre) (DecodeMeterReading std now raw) = Inl e" for pre std now raw e
    using that v by (auto simp: failWith_Inl_iff dest!: DecodeMeterReading_rejects_only)
  have h: "\<not> errors_Is e x" if "failWith (Errorf_w pre) (DecodeHeartbeat std raw) = Inl e" for pre std raw e
    using that v by (auto simp: failWith_Inl_iff dest!: DecodeHeartbeat_rejects_only)
  have c: "\<not> errors_Is e x" if "checkDuplicateAssetIDs hb = Some e" for hb e
    using that v by (auto simp: checkDuplicateAssetIDs_def dest!: duplicateAssetLoop_only)
  have s: "\<not> errors_Is e x" if "checkSize l val = Some e" for l val e
    using that v check_errors_only by blast
  have k: "\<not> errors_Is e x" if "checkKey l key gr ho = Some e" for l gr ho e
    using that v check_errors_only by blast
  show "spares x (MeterHandler_HandleRecord mh env key v)"
    unfolding MeterHandler_HandleRecord_def by (intro sparing assms g) (erule s d k)+
  show "spares x (HeartbeatHandler_HandleRecord hh env key v)"
    unfolding HeartbeatHandler_HandleRecord_def Let_def by (intro sparing assms g) (erule s h k c)+
qed

end
