(* ===== verification/RecordWork.thy ===== *)
theory RecordWork
  imports Retry Sha256 ErrorKinds
begin

text \<open>
  What a partition worker does with one record (\<^verbatim>\<open>route\<close>, \<^verbatim>\<open>handleRecord\<close> and \<^verbatim>\<open>recordFailure\<close> of
  \<^verbatim>\<open>internal/ingestion/worker.go\<close>, and \<^verbatim>\<open>failure_recorder.go\<close>): the handler under the retry budget with
  panics contained, then the durable failure record.  Other partitions write to the same stores
  meanwhile; their interference is explicit.
\<close>

section \<open>One record\<close>

record krecord =
  k_Topic :: string
  k_Partition :: int
  k_Offset :: int
  k_Key :: "bytes option"
  k_Value :: "bytes option"

text \<open>\<^verbatim>\<open>HandlerPanicError\<close>: its text, and \<^verbatim>\<open>ErrHandlerPanic\<close> under it.\<close>

definition HandlerPanicError :: "krecord \<Rightarrow> string \<Rightarrow> go_error" where
  "HandlerPanicError rec v =
     sentinel_error ErrHandlerPanic
       (''handler panic at '' @ k_Topic rec @ ''/'' @ show_int (k_Partition rec) @ '' offset '' @
        show_int (k_Offset rec) @ '': '' @ panicText v)"

definition newIngestionFailure :: "krecord \<Rightarrow> go_error \<Rightarrow> nat \<Rightarrow> IngestionFailure" where
  "newIngestionFailure rec handlerErr attempts =
     \<lparr>if_Topic = k_Topic rec, if_Partition = k_Partition rec, if_Offset = k_Offset rec,
      if_Key = k_Key rec, if_RawPayload = k_Value rec,
      if_PayloadSHA256 = payloadSHA256 (bytes_of (k_Value rec)),
      if_Stage = failureStage handlerErr, if_Reason = err_text handlerErr,
      if_Attempts = int attempts\<rparr>"

text \<open>
  The dependencies of a worker that matter to a record.  The recorder is an interface value: nil is
  \<open>None\<close>, and a call may return or panic.
\<close>

type_synonym recorder = "IngestionFailure \<Rightarrow> world \<Rightarrow> outcome \<times> world"

record workerDeps =
  wd_router :: Router
  wd_recorder :: "recorder option"
  wd_retry :: RetryPolicy
  wd_std :: go_std
  wd_unmarshalRegistered :: "bytes \<Rightarrow> string + MeterRegisteredPayload"

text \<open>
  The surroundings of one attempt: what the rest of the system did to the stores since the last one, the
  grid snapshot then published, and the clock.
\<close>

record moment =
  mo_moves :: "world \<Rightarrow> world"
  mo_registry :: Registry
  mo_now :: int

definition env_at :: "workerDeps \<Rightarrow> moment \<Rightarrow> handler_env" where
  "env_at deps mo =
     \<lparr>he_std = wd_std deps, he_unmarshalRegistered = wd_unmarshalRegistered deps,
      he_registry = mo_registry mo, he_now = mo_now mo\<rparr>"

definition route :: "workerDeps \<Rightarrow> moment \<Rightarrow> krecord \<Rightarrow> world \<Rightarrow> go_error option \<times> world" where
  "route deps mo rec w =
     (case Route (wd_router deps) (k_Topic rec) (env_at deps mo) (k_Key rec) (k_Value rec) w of
        (Returned err, w') \<Rightarrow> (err, w')
      | (Panicked v, w') \<Rightarrow> (Some (HandlerPanicError rec v), w'))"

definition Errorf_ww :: "string \<Rightarrow> go_error \<Rightarrow> string \<Rightarrow> go_error \<Rightarrow> go_error" where
  "Errorf_ww pre e mid e' =
     \<lparr>err_text = pre @ err_text e @ mid @ err_text e', err_chain = err_chain e @ err_chain e'\<rparr>"

definition recordFailure ::
    "workerDeps \<Rightarrow> krecord \<Rightarrow> go_error \<Rightarrow> nat \<Rightarrow> world \<Rightarrow> outcome \<times> world" where
  "recordFailure deps rec handlerErr attempts w =
     (case wd_recorder deps of
        None \<Rightarrow>
          (Returned (Some (Errorf_w ''failure recorder is not configured; handler error: '' handlerErr)), w)
      | Some record_failure \<Rightarrow>
          (let failure = newIngestionFailure rec handlerErr attempts in
           case record_failure failure w of
             (Returned None, w') \<Rightarrow> (Returned None, w')
           | (Returned (Some e), w') \<Rightarrow>
               (Returned (Some (Errorf_ww (''record failure at stage '' @ if_Stage failure @ '': '') e
                  ''; handler error: '' handlerErr)), w')
           | (Panicked v, w') \<Rightarrow> (Panicked v, w')))"

definition record_interrupted :: go_error where
  "record_interrupted = sentinel_error errRecordInterrupted ''ingestion: record handling interrupted''"

text \<open>
  \<^verbatim>\<open>handleRecord\<close>.  The retry loop runs on the number of attempts made so far and the stores;
  \<open>stopped\<close> is whether the retry context is done when the loop returns.
\<close>

definition attempt_at :: "workerDeps \<Rightarrow> (nat \<Rightarrow> moment) \<Rightarrow> krecord \<Rightarrow> nat \<times> world \<Rightarrow>
    go_error option \<times> (nat \<times> world)" where
  "attempt_at deps mo rec s =
     (case s of (i, w) \<Rightarrow>
        (case route deps (mo i) rec (mo_moves (mo i) w) of (err, w') \<Rightarrow> (err, (i + 1, w'))))"

definition handleRecord ::
    "(nat \<times> world) retrier \<Rightarrow> workerDeps \<Rightarrow> (nat \<Rightarrow> moment) \<Rightarrow> bool \<Rightarrow> krecord \<Rightarrow> world \<Rightarrow>
     outcome \<times> world" where
  "handleRecord Retry deps mo stopped rec w =
     (case retryHandle Retry (wd_retry deps) (attempt_at deps mo rec) (0, w) of
        ((attempts, None), (i, w')) \<Rightarrow> (Returned None, w')
      | ((attempts, Some err), (i, w')) \<Rightarrow>
          if stopped then (Returned (Some record_interrupted), w')
          else if errors_Is err ErrNoHandler then (Returned (Some err), w')
          else recordFailure deps rec err attempts (mo_moves (mo i) w'))"

section \<open>What everybody promises about the stores\<close>

text \<open>
  The guarantee of every writer of the service, and so what a worker may rely on of the others: the
  tables stay well formed, readings, failures and houses are never removed (within the retention period
  of the telemetry), and a house's liveness does not go backwards.
\<close>

definition grows :: "world \<Rightarrow> world \<Rightarrow> bool" where
  "grows w w' \<longleftrightarrow>
     (let T = pg_tables (w_pg w); U = pg_tables (w_pg w') in
      (tables_ok T \<longrightarrow> tables_ok U) \<and>
      set (t_meter_readings T) \<subseteq> set (t_meter_readings U) \<and>
      failure_key ` set (t_failures T) \<subseteq> failure_key ` set (t_failures U) \<and>
      (\<forall>h \<in> set (t_houses T). \<exists>h' \<in> set (t_houses U).
         h_house_id h' = h_house_id h \<and> h_grid_id h' = h_grid_id h \<and> h_meter_id h' = h_meter_id h \<and>
         h_last_heartbeat_at h \<le> h_last_heartbeat_at h'))"

lemma grows_same: "pg_tables (w_pg w') = pg_tables (w_pg w) \<Longrightarrow> grows w w'"
  by (auto simp: grows_def Let_def)

lemma grows_refl [simp]: "grows w w"
  by (rule grows_same) simp

lemma grows_trans:
  assumes "grows u v" "grows v w"
  shows "grows u w"
proof -
  have "\<exists>h' \<in> set (t_houses (pg_tables (w_pg w))). h_house_id h' = h_house_id h \<and>
      h_grid_id h' = h_grid_id h \<and> h_meter_id h' = h_meter_id h \<and>
      h_last_heartbeat_at h \<le> h_last_heartbeat_at h'" if "h \<in> set (t_houses (pg_tables (w_pg u)))" for h
  proof -
    from assms(1) that obtain h1 where "h1 \<in> set (t_houses (pg_tables (w_pg v)))"
      "h_house_id h1 = h_house_id h" "h_grid_id h1 = h_grid_id h" "h_meter_id h1 = h_meter_id h"
      "h_last_heartbeat_at h \<le> h_last_heartbeat_at h1"
      by (auto simp: grows_def Let_def)
    with assms(2) show ?thesis unfolding grows_def Let_def by (metis order_trans)
  qed
  with assms show ?thesis unfolding grows_def Let_def by (meson subset_trans)
qed

lemma grows_ok: "grows w w' \<Longrightarrow> tables_ok (pg_tables (w_pg w)) \<Longrightarrow> tables_ok (pg_tables (w_pg w'))"
  by (simp add: grows_def Let_def)

lemma InsertMeterReading_grows:
  assumes "InsertMeterReading r (w_pg w) = (res, w_pg w')"
  shows "grows w w'"
  using assms
proof (cases rule: InsertMeterReading_cases)
  case recorded
  then have t: "pg_tables (w_pg w') = record_reading (normalize r) (pg_tables (w_pg w))" by simp
  have "tables_ok (pg_tables (w_pg w))  \<Longrightarrow> tables_ok (pg_tables (w_pg w'))"
    using InsertMeterReading_tables_ok [OF assms] .
  with t show ?thesis by (auto simp: grows_def Let_def record_reading_def)
qed (rule grows_same)

lemma liveness_only_grows:
  assumes "liveness_only house (pg_tables (w_pg w)) (pg_tables (w_pg w'))" "tables_ok (pg_tables (w_pg w'))"
  shows "grows w w'"
proof -
  have "\<exists>h' \<in> set (t_houses (pg_tables (w_pg w'))). house_touched house h h'"
    if "h \<in> set (t_houses (pg_tables (w_pg w)))" for h
    using assms(1) that list_all2_nthD by (fastforce simp: liveness_only_def list_all2_conv_all_nth in_set_conv_nth)
  moreover have "h_house_id h' = h_house_id h \<and> h_grid_id h' = h_grid_id h \<and> h_meter_id h' = h_meter_id h \<and>
      h_last_heartbeat_at h \<le> h_last_heartbeat_at h'" if "house_touched house h h'" for h h'
    using that by (cases h; cases h') (auto simp: house_touched_def)
  ultimately have "\<forall>h \<in> set (t_houses (pg_tables (w_pg w))). \<exists>h' \<in> set (t_houses (pg_tables (w_pg w'))).
      h_house_id h' = h_house_id h \<and> h_grid_id h' = h_grid_id h \<and> h_meter_id h' = h_meter_id h \<and>
      h_last_heartbeat_at h \<le> h_last_heartbeat_at h'" by blast
  with assms show ?thesis by (simp add: grows_def Let_def liveness_only_def)
qed

lemma ApplyHeartbeat_grows:
  assumes "heartbeat_ok hb" "tables_ok (pg_tables (w_pg w))" "ApplyHeartbeat hb t (w_pg w) = (res, w_pg w')"
  shows "grows w w'"
  using assms
proof (cases rule: ApplyHeartbeat_cases)
  case applied
  have "liveness_only (hb_HouseID hb) (pg_tables (w_pg w)) (pg_tables (w_pg w'))"
    using heartbeat_effect_liveness [OF assms(1,2) applied(1)] applied(2) by simp
  then show ?thesis using ApplyHeartbeat_tables_ok [OF assms] by (rule liveness_only_grows)
qed (rule grows_same)

lemma RecordFailure_grows:
  assumes "RecordFailure rec (w_pg w) = (res, w_pg w')"
  shows "grows w w'"
proof -
  let ?T = "pg_tables (w_pg w)" and ?U = "pg_tables (w_pg w')"
  have e: "failures_extend ?T ?U" using RecordFailure_extends [OF assms] .
  then have s: "?U\<lparr>t_failures := [], t_failures_seq := 0\<rparr> = ?T\<lparr>t_failures := [], t_failures_seq := 0\<rparr>"
    by (simp add: failures_extend_def)
  have "t_meter_readings ?U = t_meter_readings ?T" "t_houses ?U = t_houses ?T"
    using arg_cong [OF s, of t_meter_readings] arg_cong [OF s, of t_houses] by simp_all
  moreover have "failure_key ` set (t_failures ?T) \<subseteq> failure_key ` set (t_failures ?U)"
    using has_failure_extend [OF e] by blast
  ultimately show ?thesis using RecordFailure_tables_ok [OF assms] by (auto simp: grows_def Let_def)
qed

lemma RegisterHouse_grows:
  assumes "RegisterHouse h (w_pg w) = (res, w_pg w')" "tables_ok (pg_tables (w_pg w'))"
  shows "grows w w'"
  using RegisterHouse_extends [OF assms(1)] assms(2)
  by (fastforce simp: grows_def Let_def houses_extend_def)


text \<open>The handlers, and the router the service is wired with.\<close>

lemma MeterHandler_grows:
  assumes "MeterHandler_HandleRecord h env key v w = (res, w')"
  shows "grows w w'"
  using assms by (cases rule: MeterHandler_run) (auto intro: InsertMeterReading_grows)

lemma HeartbeatHandler_grows:
  assumes "HeartbeatHandler_HandleRecord h env key v w = (res, w')" "tables_ok (pg_tables (w_pg w))"
  shows "grows w w'"
  using assms(1)
proof (cases rule: HeartbeatHandler_run)
  case (failed hb e)
  with admit_heartbeat_Inr [OF failed(1)] assms(2) show ?thesis by (auto intro: ApplyHeartbeat_grows)
next
  case (stored hb x)
  with admit_heartbeat_Inr [OF stored(1)] assms(2) show ?thesis by (auto intro: ApplyHeartbeat_grows)
qed simp

lemma returning_out:
  assumes "returning m w = (out, w')"
  obtains res where "m w = (res, w')" "out = Returned (case res of Inl e \<Rightarrow> Some e | Inr _ \<Rightarrow> None)"
  using assms by (cases "m w"; cases "fst (m w)") (auto simp: returning_def)

lemma wired_cases:
  assumes "wire_router t limits policy = Inr router" "Route router topic env key v w = (out, w')"
  obtains (actuation) "topic = kt_ActuationResponseTopic t" "w' = w" "out \<noteq> Returned None"
      "\<And>e x. out = Returned (Some e) \<Longrightarrow> \<not> errors_Is e x"
  | (meter) res where "topic = kt_MeterTopic t" "out = Returned (case res of Inl e \<Rightarrow> Some e | Inr _ \<Rightarrow> None)"
      "MeterHandler_HandleRecord \<lparr>mh_limits = limits, mh_policy = policy\<rparr> env key v w = (res, w')"
  | (heartbeat) res where "topic = kt_HeartbeatTopic t" "out = Returned (case res of Inl e \<Rightarrow> Some e | Inr _ \<Rightarrow> None)"
      "HeartbeatHandler_HandleRecord \<lparr>hh_limits = limits, hh_policy = policy\<rparr> env key v w = (res, w')"
  | (unknown) "out = Returned (Some (no_handler topic))" "w' = w"
proof -
  have r: "router = Register (kt_ActuationResponseTopic t) (ActuationHandler_HandleRecord NewActuationHandler)
        (Register (kt_HeartbeatTopic t)
           (\<lambda>env key v. returning (HeartbeatHandler_HandleRecord \<lparr>hh_limits = limits, hh_policy = policy\<rparr> env key v))
        (Register (kt_MeterTopic t)
           (\<lambda>env key v. returning (MeterHandler_HandleRecord \<lparr>mh_limits = limits, mh_policy = policy\<rparr> env key v))
         NewRouter))"
    using assms(1) by (simp add: wire_router_def split: if_splits)
  consider (a) "topic = kt_ActuationResponseTopic t"
    | (h) "topic \<noteq> kt_ActuationResponseTopic t" "topic = kt_HeartbeatTopic t"
    | (m) "topic \<noteq> kt_ActuationResponseTopic t" "topic \<noteq> kt_HeartbeatTopic t" "topic = kt_MeterTopic t"
    | (u) "topic \<notin> {kt_ActuationResponseTopic t, kt_HeartbeatTopic t, kt_MeterTopic t}" by blast
  then show thesis
  proof cases
    case a
    with assms(2) r have "ActuationHandler_HandleRecord NewActuationHandler env key v w = (out, w')"
      by (simp add: Route_def Register_def update_conv')
    with a show thesis
      by (intro actuation) (auto simp: ActuationHandler_HandleRecord_def NewActuationHandler_def split: sum.splits)
  next
    case h
    with assms(2) r have "returning (HeartbeatHandler_HandleRecord \<lparr>hh_limits = limits, hh_policy = policy\<rparr> env key v) w = (out, w')"
      by (simp add: Route_def Register_def update_conv')
    with h heartbeat show thesis by (elim returning_out) blast
  next
    case m
    with assms(2) r have "returning (MeterHandler_HandleRecord \<lparr>mh_limits = limits, mh_policy = policy\<rparr> env key v) w = (out, w')"
      by (simp add: Route_def Register_def update_conv')
    with m meter show thesis by (elim returning_out) blast
  next
    case u
    with r have "map_of router topic = None"
      by (simp add: Register_def NewRouter_def update_conv' del: update.simps)
    with assms(2) show thesis by (intro unknown) (simp_all add: Route_def)
  qed
qed

text \<open>
  A record is settled when its effect is durable: its reading is in the history, its house is on record
  with the reported identity, or a failure is on record for its coordinates.
\<close>

definition failure_on_record :: "krecord \<Rightarrow> world \<Rightarrow> bool" where
  "failure_on_record rec w \<longleftrightarrow>
     (\<exists>stage. (k_Topic rec, k_Partition rec, k_Offset rec, stage) \<in> failure_key ` set (t_failures (pg_tables (w_pg w))))"

definition reading_on_record :: "go_std \<Rightarrow> krecord \<Rightarrow> world \<Rightarrow> bool" where
  "reading_on_record std rec w \<longleftrightarrow>
     (\<exists>now r. DecodeMeterReading std now (bytes_of (k_Value rec)) = Inr r \<and>
        meter_row_of (normalize r) \<in> set (t_meter_readings (pg_tables (w_pg w))))"

definition heartbeat_on_record :: "go_std \<Rightarrow> krecord \<Rightarrow> world \<Rightarrow> bool" where
  "heartbeat_on_record std rec w \<longleftrightarrow>
     (\<exists>hb. DecodeHeartbeat std (bytes_of (k_Value rec)) = Inr hb \<and>
        (\<exists>h \<in> set (t_houses (pg_tables (w_pg w))).
           house_matches (hb_HouseID hb) (hb_GridID hb) (hb_MeterID hb) h))"

definition settled :: "kafka_topics \<Rightarrow> go_std \<Rightarrow> krecord \<Rightarrow> world \<Rightarrow> bool" where
  "settled t std rec w \<longleftrightarrow>
     failure_on_record rec w \<or>
     k_Topic rec = kt_MeterTopic t \<and> reading_on_record std rec w \<or>
     k_Topic rec = kt_HeartbeatTopic t \<and> heartbeat_on_record std rec w"

lemma on_record_grows:
  assumes "grows w w'"
  shows "failure_on_record rec w \<Longrightarrow> failure_on_record rec w'"
    "reading_on_record std rec w \<Longrightarrow> reading_on_record std rec w'"
    "heartbeat_on_record std rec w \<Longrightarrow> heartbeat_on_record std rec w'"
    "settled t std rec w \<Longrightarrow> settled t std rec w'"
proof -
  have s: "set (t_meter_readings (pg_tables (w_pg w))) \<subseteq> set (t_meter_readings (pg_tables (w_pg w')))"
    "failure_key ` set (t_failures (pg_tables (w_pg w))) \<subseteq> failure_key ` set (t_failures (pg_tables (w_pg w')))"
    using assms by (simp_all add: grows_def Let_def)
  have h: "\<exists>h' \<in> set (t_houses (pg_tables (w_pg w'))). house_matches a b c h'"
    if "h \<in> set (t_houses (pg_tables (w_pg w)))" "house_matches a b c h" for h a b c
    using assms that by (fastforce simp: grows_def Let_def house_matches_def)
  show f: "failure_on_record rec w \<Longrightarrow> failure_on_record rec w'"
    using s(2) unfolding failure_on_record_def by blast
  show r: "reading_on_record std rec w \<Longrightarrow> reading_on_record std rec w'"
    using s(1) unfolding reading_on_record_def by blast
  show b: "heartbeat_on_record std rec w \<Longrightarrow> heartbeat_on_record std rec w'"
    using h unfolding heartbeat_on_record_def by blast
  show "settled t std rec w \<Longrightarrow> settled t std rec w'"
    using f r b unfolding settled_def by blast
qed

lemma route_grows:
  assumes "wire_router t limits policy = Inr (wd_router deps)" "route deps mo rec w = (err, w')"
    and "tables_ok (pg_tables (w_pg w))"
  shows "grows w w'"
proof -
  obtain out where o: "Route (wd_router deps) (k_Topic rec) (env_at deps mo) (k_Key rec) (k_Value rec) w = (out, w')"
    using assms(2) by (auto simp: route_def split: prod.splits outcome.splits)
  show ?thesis using assms(1) o
    by (cases rule: wired_cases) (auto intro: MeterHandler_grows HeartbeatHandler_grows assms(3))
qed

text \<open>A nil from the router means the record's effect is in the tables.\<close>

lemma route_nil:
  assumes "wire_router t limits policy = Inr (wd_router deps)" "route deps mo rec w = (None, w')"
    and "tables_ok (pg_tables (w_pg w))"
  shows "settled t (wd_std deps) rec w'"
proof -
  have o: "Route (wd_router deps) (k_Topic rec) (env_at deps mo) (k_Key rec) (k_Value rec) w = (Returned None, w')"
    using assms(2) by (auto simp: route_def split: prod.splits outcome.splits)
  show ?thesis using assms(1) o
  proof (cases rule: wired_cases)
    case (meter res)
    then obtain u where "MeterHandler_HandleRecord \<lparr>mh_limits = limits, mh_policy = policy\<rparr>
        (env_at deps mo) (k_Key rec) (k_Value rec) w = (Inr u, w')" by (cases res) auto
    with meter(1) show ?thesis
      by (elim MeterHandler_nil_row) (auto simp: settled_def reading_on_record_def env_at_def)
  next
    case (heartbeat res)
    then obtain u where u: "HeartbeatHandler_HandleRecord \<lparr>hh_limits = limits, hh_policy = policy\<rparr>
        (env_at deps mo) (k_Key rec) (k_Value rec) w = (Inr u, w')" by (cases res) auto
    then show ?thesis
    proof (cases rule: HeartbeatHandler_run)
      case (stored hb x)
      with heartbeat_success [OF _ assms(3) stored(2)] admit_heartbeat_Inr [OF stored(1)] heartbeat(1)
      show ?thesis by (auto simp: settled_def heartbeat_on_record_def env_at_def)
    qed simp_all
  qed auto
qed

section \<open>Settling one record\<close>

text \<open>The recorder the service is wired with.\<close>

definition pg_recorder :: recorder where
  "pg_recorder failure w = returning (onPg (RecordFailure failure)) w"

lemma pg_recorder_run:
  assumes "pg_recorder failure w = (out, w')"
  obtains res where "RecordFailure failure (w_pg w) = (res, w_pg w')"
    "out = Returned (case res of Inl e \<Rightarrow> Some e | Inr _ \<Rightarrow> None)"
proof -
  obtain res q where q: "RecordFailure failure (w_pg w) = (res, q)" by force
  with assms have "w' = w\<lparr>w_pg := q\<rparr>" "out = Returned (case res of Inl e \<Rightarrow> Some e | Inr _ \<Rightarrow> None)"
    by (auto simp: pg_recorder_def returning_def onPg_def split: sum.splits)
  with q that show thesis by simp
qed

lemma recordFailure_nil:
  assumes "wd_recorder deps = Some pg_recorder" "recordFailure deps rec e n w = (Returned None, w')"
  shows "failure_on_record rec w'"
proof -
  have "pg_recorder (newIngestionFailure rec e n) w = (Returned None, w')"
    using assms by (auto simp: recordFailure_def Let_def split: prod.splits outcome.splits option.splits)
  then obtain u where "RecordFailure (newIngestionFailure rec e n) (w_pg w) = (Inr u, w_pg w')"
    by (auto elim!: pg_recorder_run split: sum.splits)
  then have "has_failure (failure_coord (newIngestionFailure rec e n)) (w_pg w')"
    by (rule failures.logged)
  then show ?thesis
    by (auto simp: failure_on_record_def has_failure_def failure_coord_def newIngestionFailure_def)
qed

lemma recordFailure_grows:
  assumes "wd_recorder deps = Some pg_recorder" "recordFailure deps rec e n w = (out, w')"
  shows "grows w w'"
proof -
  obtain out' where "pg_recorder (newIngestionFailure rec e n) w = (out', w')"
    using assms by (auto simp: recordFailure_def Let_def split: prod.splits outcome.splits option.splits)
  then show ?thesis by (auto elim!: pg_recorder_run intro: RecordFailure_grows)
qed

text \<open>The service's own sentinel for an interruption does not come from a handler or the recorder.\<close>

lemma route_spares:
  assumes "wire_router t limits policy = Inr (wd_router deps)" "route deps mo rec w = (Some e, w')"
  shows "\<not> errors_Is e errRecordInterrupted"
proof -
  have x: "ingestion_sentinel errRecordInterrupted" by (simp add: ingestion_sentinel_def)
  obtain out where o: "Route (wd_router deps) (k_Topic rec) (env_at deps mo) (k_Key rec) (k_Value rec) w = (out, w')"
    and e: "case out of Returned err \<Rightarrow> err = Some e | Panicked v \<Rightarrow> e = HandlerPanicError rec v"
    using assms(2) by (auto simp: route_def split: prod.splits outcome.splits)
  show ?thesis
  proof (cases out)
    case (Panicked v)
    with e show ?thesis by (simp add: HandlerPanicError_def)
  next
    case (Returned err)
    show ?thesis using assms(1) o
    proof (cases rule: wired_cases)
      case actuation
      with Returned e show ?thesis by simp
    next
      case (meter res)
      with Returned e have "res = Inl e" by (cases res) auto
      with meter(3) sparesD [OF spares_handlers(1) [OF x]] show ?thesis by blast
    next
      case (heartbeat res)
      with Returned e have "res = Inl e" by (cases res) auto
      with heartbeat(3) sparesD [OF spares_handlers(2) [OF x]] show ?thesis by blast
    next
      case unknown
      with Returned e show ?thesis by (auto simp: no_handler_def)
    qed
  qed
qed

lemma attempt_at_Pair:
  "attempt_at deps mo rec (i, w) = (err, (j, w')) \<longleftrightarrow>
     j = i + 1 \<and> route deps (mo i) rec (mo_moves (mo i) w) = (err, w')"
  by (auto simp: attempt_at_def split: prod.splits)

lemma recordFailure_spares:
  assumes "wd_recorder deps = Some pg_recorder" "recordFailure deps rec e n w = (out, w')"
  shows "out \<noteq> Panicked v"
    "out = Returned (Some x) \<Longrightarrow> \<not> errors_Is e errRecordInterrupted \<Longrightarrow> \<not> errors_Is x errRecordInterrupted"
proof -
  let ?f = "newIngestionFailure rec e n"
  have s: "ingestion_sentinel errRecordInterrupted" by (simp add: ingestion_sentinel_def)
  obtain out' where o: "pg_recorder ?f w = (out', w')"
    and out: "out = (case out' of Returned (Some y) \<Rightarrow>
        Returned (Some (Errorf_ww (''record failure at stage '' @ if_Stage ?f @ '': '') y ''; handler error: '' e))
      | _ \<Rightarrow> out')"
    using assms by (auto simp: recordFailure_def Let_def split: prod.splits outcome.splits option.splits)
  from o obtain res where r: "RecordFailure ?f (w_pg w) = (res, w_pg w')"
    "out' = Returned (case res of Inl e \<Rightarrow> Some e | Inr _ \<Rightarrow> None)" by (rule pg_recorder_run)
  then show "out \<noteq> Panicked v" using out by (auto split: sum.splits)
  assume x: "out = Returned (Some x)" "\<not> errors_Is e errRecordInterrupted"
  with out r(2) obtain y where y: "res = Inl y"
    "x = Errorf_ww (''record failure at stage '' @ if_Stage ?f @ '': '') y ''; handler error: '' e"
    by (cases res) auto
  have "\<not> errors_Is y errRecordInterrupted"
    using sparesD [OF spares_RecordFailure [OF s]] r(1) y(1) by blast
  with x(2) y(2) show "\<not> errors_Is x errRecordInterrupted" by (auto simp: Errorf_ww_def errors_Is_def)
qed

text \<open>The rest of the system keeps its promise at every moment.\<close>

definition fair_moments :: "(nat \<Rightarrow> moment) \<Rightarrow> bool" where
  "fair_moments mo \<longleftrightarrow> (\<forall>i w. grows w (mo_moves (mo i) w))"

text \<open>
  The states of the attempts: the tables are well formed and have grown since the record was taken.
\<close>

definition since :: "world \<Rightarrow> nat \<times> world \<Rightarrow> bool" where
  "since w0 s \<longleftrightarrow> grows w0 (snd s) \<and> tables_ok (pg_tables (w_pg (snd s)))"

lemma attempt_since:
  assumes "wire_router t limits policy = Inr (wd_router deps)" "fair_moments mo" "since w0 s"
    and "attempt_at deps mo rec s = (err, s')"
  shows "since w0 s'" "err = None \<Longrightarrow> settled t (wd_std deps) rec (snd s')"
    "err = Some e \<Longrightarrow> \<not> errors_Is e errRecordInterrupted"
proof -
  obtain i w j w' where s: "s = (i, w)" "s' = (j, w')" by (cases s; cases s') auto
  let ?v = "mo_moves (mo i) w"
  have r: "route deps (mo i) rec ?v = (err, w')" using assms(4) s by (simp add: attempt_at_Pair)
  have v: "grows w ?v" using assms(2) by (simp add: fair_moments_def)
  have ok: "tables_ok (pg_tables (w_pg ?v))" using grows_ok [OF v] assms(3) s by (simp add: since_def)
  have g: "grows ?v w'" using route_grows [OF assms(1) r ok] .
  show "since w0 s'"
    using assms(3) s grows_ok [OF g ok] grows_trans grows_trans [OF v g] by (auto simp: since_def)
  show "err = None \<Longrightarrow> settled t (wd_std deps) rec (snd s')"
    using route_nil [OF assms(1) _ ok] r s by simp
  show "err = Some e \<Longrightarrow> \<not> errors_Is e errRecordInterrupted"
    using route_spares [OF assms(1)] r by blast
qed

lemma handleRecord_run:
  assumes "backoff_contract stopped Retry" "wire_router t limits policy = Inr (wd_router deps)"
    and "wd_recorder deps = Some pg_recorder" "fair_moments mo" "tables_ok (pg_tables (w_pg w))"
    and "handleRecord Retry deps mo stopped rec w = (out, w')"
  shows "grows w w' \<and> out \<noteq> Panicked v \<and> (out = Returned None \<longrightarrow> settled t (wd_std deps) rec w') \<and>
    (\<forall>e. out = Returned (Some e) \<longrightarrow> errors_Is e errRecordInterrupted \<longrightarrow> stopped)"
proof -
  obtain attempts err i w1 where rh: "retryHandle Retry (wd_retry deps) (attempt_at deps mo rec) (0, w) = ((attempts, err), (i, w1))"
    by (metis surj_pair)
  have s0: "since w (0, w)" using assms(5) by (simp add: since_def)
  have step: "\<forall>s e s'. since w s \<longrightarrow> attempt_at deps mo rec s = (e, s') \<longrightarrow> since w s'"
    using attempt_since(1) [OF assms(2,4)] by blast
  note run = retryHandle_keeps [OF assms(1) rh s0 step]
  have g1: "grows w w1" using run(1) by (simp add: since_def)
  have g2: "grows w1 (mo_moves (mo i) w1)" using assms(4) by (simp add: fair_moments_def)
  show ?thesis
  proof (cases err)
    case None
    with assms(6) rh have o: "out = Returned None" "w' = w1" by (simp_all add: handleRecord_def)
    from run(2) [OF None] have "settled t (wd_std deps) rec w1"
      using attempt_since(2) [OF assms(2,4)] by force
    with o g1 show ?thesis by simp
  next
    case (Some e)
    show ?thesis
    proof (cases stopped)
      case True
      with assms(6) rh Some have "out = Returned (Some record_interrupted)" "w' = w1"
        by (simp_all add: handleRecord_def)
      with True g1 show ?thesis by simp
    next
      case False
      with run(3) [OF Some] have e: "\<not> errors_Is e errRecordInterrupted"
        using attempt_since(3) [OF assms(2,4)] by blast
      show ?thesis
      proof (cases "errors_Is e ErrNoHandler")
        case True
        with assms(6) rh Some False have "out = Returned (Some e)" "w' = w1"
          by (simp_all add: handleRecord_def)
        with e g1 show ?thesis by simp
      next
        case norm: False
        with assms(6) rh Some False have
          f: "recordFailure deps rec e attempts (mo_moves (mo i) w1) = (out, w')"
          by (simp add: handleRecord_def)
        have "out = Returned None \<Longrightarrow> settled t (wd_std deps) rec w'"
          using recordFailure_nil [OF assms(3)] f by (simp add: settled_def)
        with recordFailure_spares [OF assms(3) f] e g1 g2 recordFailure_grows [OF assms(3) f]
        show ?thesis by (metis grows_trans)
      qed
    qed
  qed
qed

section \<open>The worker's view\<close>

text \<open>
  \<open>handles\<close>: handling a record, with any surroundings that keep the promise.  \<open>Retry c\<close> is the retry
  loop under a context that is cancelled (\<open>c\<close>) or not.
\<close>

definition handles ::
    "(bool \<Rightarrow> (nat \<times> world) retrier) \<Rightarrow> workerDeps \<Rightarrow> bool \<Rightarrow> krecord \<Rightarrow> world \<Rightarrow> outcome \<Rightarrow> world \<Rightarrow> bool" where
  "handles Retry deps stopped rec w out w' \<longleftrightarrow>
     (\<exists>mo. fair_moments mo \<and> handleRecord (Retry stopped) deps mo stopped rec w = (out, w'))"

text \<open>What a partition worker relies on.\<close>

locale record_sink =
  fixes handle :: "bool \<Rightarrow> 'r \<Rightarrow> 'w \<Rightarrow> outcome \<Rightarrow> 'w \<Rightarrow> bool"
    and moves :: "'w \<Rightarrow> 'w \<Rightarrow> bool"
    and good :: "'w \<Rightarrow> bool"
    and durable :: "'r \<Rightarrow> 'w \<Rightarrow> bool"
  assumes handle_total: "\<exists>out w'. handle stopped r w out w'"
    and handle_moves: "good w \<Longrightarrow> handle stopped r w out w' \<Longrightarrow> moves w w'"
    and handle_nil: "good w \<Longrightarrow> handle stopped r w (Returned None) w' \<Longrightarrow> durable r w'"
    and handle_interrupted: "good w \<Longrightarrow> handle stopped r w (Returned (Some e)) w' \<Longrightarrow>
      errors_Is e errRecordInterrupted \<Longrightarrow> stopped"
    and moves_good: "moves w w' \<Longrightarrow> good w \<Longrightarrow> good w'"
    and moves_durable: "moves w w' \<Longrightarrow> durable r w \<Longrightarrow> durable r w'"

text \<open>The wired service, and that it is such a sink.\<close>

definition service_deps :: "Router \<Rightarrow> RetryPolicy \<Rightarrow> go_std \<Rightarrow> (bytes \<Rightarrow> string + MeterRegisteredPayload) \<Rightarrow> workerDeps" where
  "service_deps router retry std unmarshal =
     \<lparr>wd_router = router, wd_recorder = Some pg_recorder, wd_retry = retry, wd_std = std,
      wd_unmarshalRegistered = unmarshal\<rparr>"

locale wired_service =
  fixes Retry :: "bool \<Rightarrow> (nat \<times> world) retrier"
    and topics :: kafka_topics and limits :: InputLimits and policy :: CachePolicy
    and router :: Router and retry :: RetryPolicy and std :: go_std
    and unmarshal :: "bytes \<Rightarrow> string + MeterRegisteredPayload"
  assumes contract: "\<forall>c. backoff_contract c (Retry c)"
    and wired: "wire_router topics limits policy = Inr router"
begin

lemma handles_run:
  assumes "handles Retry (service_deps router retry std unmarshal) stopped rec w out w'"
    and "tables_ok (pg_tables (w_pg w))"
  shows "grows w w'" "out = Returned None \<Longrightarrow> settled topics std rec w'" "out \<noteq> Panicked v"
    "out = Returned (Some e) \<Longrightarrow> errors_Is e errRecordInterrupted \<Longrightarrow> stopped"
proof -
  let ?d = "service_deps router retry std unmarshal"
  from assms(1) obtain mo where m: "fair_moments mo" "handleRecord (Retry stopped) ?d mo stopped rec w = (out, w')"
    by (auto simp: handles_def)
  have d: "wire_router topics limits policy = Inr (wd_router ?d)" "wd_recorder ?d = Some pg_recorder" "wd_std ?d = std"
    using wired by (simp_all add: service_deps_def)
  note run = handleRecord_run [OF contract [rule_format] d(1,2) m(1) assms(2) m(2)]
  show "grows w w'" "out = Returned None \<Longrightarrow> settled topics std rec w'" "out \<noteq> Panicked v"
    "out = Returned (Some e) \<Longrightarrow> errors_Is e errRecordInterrupted \<Longrightarrow> stopped"
    using run d(3) by auto
qed

end

sublocale wired_service \<subseteq> record_sink "handles Retry (service_deps router retry std unmarshal)" grows
  "\<lambda>w. tables_ok (pg_tables (w_pg w))" "settled topics std"
proof
  fix stopped rec w
  let ?mo = "\<lambda>_. \<lparr>mo_moves = id, mo_registry = NewRegistry, mo_now = 0\<rparr>"
  have "fair_moments ?mo" by (simp add: fair_moments_def)
  then show "\<exists>out w'. handles Retry (service_deps router retry std unmarshal) stopped rec w out w'"
    unfolding handles_def by (metis surj_pair)
qed (auto intro: grows_ok on_record_grows(4) handles_run(1) handles_run(2) [OF _ _ refl]
      handles_run(4) [OF _ _ refl])

definition sample_router :: Router where
  "sample_router = (case wire_router sample_topics sample_limits CacheRequired of Inr r \<Rightarrow> r)"

lemma sample_wired: "wire_router sample_topics sample_limits CacheRequired = Inr sample_router"
  by (simp add: sample_router_def wire_router_def sample_topics_def)

interpretation sample_service: wired_service "\<lambda>_. retry_now" sample_topics sample_limits CacheRequired
  sample_router DefaultRetryPolicy decoding_std "\<lambda>_. Inl ''unexpected end of JSON input''"
  by unfold_locales (simp_all add: retry_now_contract sample_wired)

section \<open>Properties\<close>

text \<open>
  C27. Handling one record never loses it.  Whatever the handlers, the stores, the retry loop and the other
  writers do, \<^verbatim>\<open>handleRecord\<close> does not panic and only adds to the durable tables; when it returns nil the
  record's reading or house is on record, or a failure with its coordinates is; and it reports an
  interruption only when a stop was requested.
\<close>

theorem handleRecord_settles:
  assumes "\<forall>c. backoff_contract c (Retry c)" "wire_router topics limits policy = Inr router"
    and "handles Retry (service_deps router retry std unmarshal) stopped rec w out w'"
    and "tables_ok (pg_tables (w_pg w))"
  shows "grows w w' \<and> (\<forall>v. out \<noteq> Panicked v) \<and> (out = Returned None \<longrightarrow> settled topics std rec w') \<and>
    (\<forall>e. out = Returned (Some e) \<and> errors_Is e errRecordInterrupted \<longrightarrow> stopped)"
proof -
  have "wired_service Retry topics limits policy router" using assms(1,2) by unfold_locales
  note run = wired_service.handles_run [OF this assms(3,4)]
  then show ?thesis by blast
qed

definition sample_record :: krecord where
  "sample_record = \<lparr>k_Topic = ''t'', k_Partition = 0, k_Offset = 7, k_Key = None, k_Value = Some ''m''\<rparr>"

abbreviation "sample_deps \<equiv>
  service_deps sample_router DefaultRetryPolicy decoding_std (\<lambda>_. Inl ''unexpected end of JSON input'')"

abbreviation "quiet_moment \<equiv> \<lparr>mo_moves = id, mo_registry = sample_registry, mo_now = 0\<rparr>"

lemma sample_handled:
  "\<exists>w'. handles (\<lambda>_. retry_now) sample_deps False sample_record sample_world (Returned None) w'"
proof -
  obtain w' where w: "MeterHandler_HandleRecord sample_mh sample_env None (Some ''m'') sample_world = (Inr (), w')"
    using sample_meter_run by blast
  have e: "env_at sample_deps quiet_moment = sample_env"
    by (simp add: env_at_def service_deps_def sample_env_def)
  have "Route sample_router ''t'' sample_env None (Some ''m'') sample_world = (Returned None, w')"
    using w by (simp add: sample_router_def wire_router_def sample_topics_def Route_def Register_def NewRouter_def
        update_conv' returning_def)
  then have r: "attempt_at sample_deps (\<lambda>_. quiet_moment) sample_record (0, sample_world) = (None, (1, w'))"
    using e by (simp add: attempt_at_Pair route_def sample_record_def service_deps_def)
  have "handleRecord retry_now sample_deps (\<lambda>_. quiet_moment) False sample_record sample_world = (Returned None, w')"
    using r by (simp add: handleRecord_def retryHandle_def service_deps_def DefaultRetryPolicy_def
        RetryPolicy_withDefaults_def retry_defaults numeral_3_eq_3 classified_def)
  moreover have "fair_moments (\<lambda>_. quiet_moment)" by (simp add: fair_moments_def)
  ultimately show ?thesis unfolding handles_def by blast
qed

theorem handleRecord_settles_witness:
  "\<exists>w'. handles (\<lambda>_. retry_now) sample_deps False sample_record sample_world (Returned None) w' \<and>
     settled sample_topics decoding_std sample_record w'"
proof -
  obtain w' where h: "handles (\<lambda>_. retry_now) sample_deps False sample_record sample_world (Returned None) w'"
    using sample_handled by blast
  have "\<forall>c. backoff_contract c retry_now" using retry_now_contract by blast
  from handleRecord_settles [OF this sample_wired h] h sample_world_ok show ?thesis
    by (auto simp: world_ok_def)
qed

end
