(* ===== verification/Worker.thy ===== *)
theory Worker
  imports RecordWork "HOL-Library.Sublist"
begin

text \<open>
  The partition worker of \<^verbatim>\<open>internal/ingestion/worker.go\<close> as a state machine.  The worker goroutine
  (\<^verbatim>\<open>run\<close>, \<^verbatim>\<open>processBatch\<close>, \<^verbatim>\<open>commit\<close>), the poll loop that hands it batches (\<^verbatim>\<open>enqueue\<close>) and the caller of
  \<^verbatim>\<open>stop\<close> run concurrently; each is a step relation, and a run interleaves them with the rest of the
  system.
\<close>

section \<open>State\<close>

text \<open>
  Where the goroutine is: at the top of the loop, in the select, waiting for a slot with a batch, before
  record \<open>n\<close> of the batch, handling it, looking at its error, before the commit of the first \<open>n\<close> records
  (with the fatal error to report afterwards), past the abandoned check with the commit request on its
  way, or gone.
\<close>

datatype pc =
    Idle | Selecting
  | Waiting "krecord list"
  | Looping "krecord list" nat
  | Handling "krecord list" nat
  | Judging "krecord list" nat go_error
  | Committing "krecord list" nat "go_error option"
  | Sending "krecord list" nat "go_error option"
  | Exited

text \<open>Where the call of \<^verbatim>\<open>stop\<close> is; \<open>Stopped b\<close> has returned \<open>b\<close>.\<close>

datatype stopper =
    NotStopping | Quitting bool | Draining bool | Grace | Stopped bool

text \<open>
  The fields of \<^verbatim>\<open>partitionWorker\<close> (the queue is the buffered channel, \<open>wk_cancelled\<close> and \<open>wk_retryDone\<close> are the
  two contexts), the pending call of \<^verbatim>\<open>enqueue\<close>, whether a slot is free, the fatal errors reported, the
  stores, and three histories: the records accepted from the poll loop, those whose handling returned nil,
  and the commit requests the broker accepted.
\<close>

record topicPartition =
  tp_topic :: string
  tp_partition :: int

definition topicPartition_String :: "topicPartition \<Rightarrow> string" where
  "topicPartition_String tp = tp_topic tp @ ''/'' @ show_int (tp_partition tp)"

record 'w partitionWorker =
  wk_tp :: topicPartition
  wk_pc :: pc
  wk_queue :: "krecord list list"
  wk_quit :: bool
  wk_cancelled :: bool
  wk_retryDone :: bool
  wk_abandoned :: bool
  wk_offer :: "krecord list option"
  wk_stop :: stopper
  wk_slot :: bool
  wk_fatal :: "go_error list"
  wk_world :: 'w
  wk_received :: "krecord list"
  wk_finished :: "krecord list"
  wk_committed :: "krecord list list"

definition newPartitionWorker :: "topicPartition \<Rightarrow> 'w \<Rightarrow> 'w partitionWorker" where
  "newPartitionWorker tp w =
     \<lparr>wk_tp = tp, wk_pc = Idle, wk_queue = [], wk_quit = False, wk_cancelled = False, wk_retryDone = False,
      wk_abandoned = False, wk_offer = None, wk_stop = NotStopping, wk_slot = True, wk_fatal = [],
      wk_world = w, wk_received = [], wk_finished = [], wk_committed = []\<rparr>"

text \<open>The deferred calls of \<^verbatim>\<open>run\<close>: both contexts are cancelled and \<^verbatim>\<open>done\<close> is closed.\<close>

definition leave :: "'w partitionWorker \<Rightarrow> 'w partitionWorker" where
  "leave s = s\<lparr>wk_pc := Exited, wk_cancelled := True, wk_retryDone := True\<rparr>"

definition report :: "go_error \<Rightarrow> 'w partitionWorker \<Rightarrow> 'w partitionWorker" where
  "report e s = s\<lparr>wk_fatal := wk_fatal s @ [e]\<rparr>"

text \<open>The recovered panic of the loop, and the fatal error of one record.\<close>

definition worker_panic :: "topicPartition \<Rightarrow> string \<Rightarrow> go_error" where
  "worker_panic tp v =
     sentinel_error ErrWorkerPanic
       (''ingestion: partition worker panic: partition '' @ topicPartition_String tp @ '': '' @ panicText v)"

definition handling_error :: "topicPartition \<Rightarrow> krecord \<Rightarrow> go_error \<Rightarrow> go_error" where
  "handling_error tp r e =
     Errorf_w (''handling '' @ topicPartition_String tp @ '' offset '' @ show_int (k_Offset r) @ '': '') e"

section \<open>Steps\<close>

text \<open>\<^verbatim>\<open>run\<close>: a pending stop is preferred; the select takes any ready case.\<close>

inductive run_step :: "'w partitionWorker \<Rightarrow> 'w partitionWorker \<Rightarrow> bool" where
  stop_seen: "wk_pc s = Idle \<Longrightarrow> wk_quit s \<Longrightarrow> run_step s (leave s)"
| to_select: "wk_pc s = Idle \<Longrightarrow> \<not> wk_quit s \<Longrightarrow> run_step s (s\<lparr>wk_pc := Selecting\<rparr>)"
| select_stop: "wk_pc s = Selecting \<Longrightarrow> wk_quit s \<or> wk_cancelled s \<Longrightarrow> run_step s (leave s)"
| select_batch: "wk_pc s = Selecting \<Longrightarrow> wk_queue s = b # q \<Longrightarrow>
    run_step s (s\<lparr>wk_pc := Waiting b, wk_queue := q\<rparr>)"

text \<open>
  \<^verbatim>\<open>processBatch\<close>: take a slot or give the batch up, then one record after the other.  \<open>handle stopped\<close> is
  \<^verbatim>\<open>handleRecord\<close> with the state of the retry context at its end.
\<close>

inductive batch_step ::
    "(bool \<Rightarrow> krecord \<Rightarrow> 'w \<Rightarrow> outcome \<Rightarrow> 'w \<Rightarrow> bool) \<Rightarrow> 'w partitionWorker \<Rightarrow> 'w partitionWorker \<Rightarrow> bool"
  for handle where
  slot_taken: "wk_pc s = Waiting b \<Longrightarrow> wk_slot s \<Longrightarrow> batch_step handle s (s\<lparr>wk_pc := Looping b 0\<rparr>)"
| batch_dropped: "wk_pc s = Waiting b \<Longrightarrow> wk_quit s \<or> wk_cancelled s \<Longrightarrow>
    batch_step handle s (s\<lparr>wk_pc := Idle\<rparr>)"
| loop_break: "wk_pc s = Looping b n \<Longrightarrow> n < length b \<Longrightarrow> wk_quit s \<or> wk_cancelled s \<Longrightarrow>
    batch_step handle s (s\<lparr>wk_pc := Committing b n None\<rparr>)"
| loop_next: "wk_pc s = Looping b n \<Longrightarrow> n < length b \<Longrightarrow> \<not> wk_quit s \<Longrightarrow> \<not> wk_cancelled s \<Longrightarrow>
    batch_step handle s (s\<lparr>wk_pc := Handling b n\<rparr>)"
| loop_done: "wk_pc s = Looping b n \<Longrightarrow> length b \<le> n \<Longrightarrow>
    batch_step handle s (s\<lparr>wk_pc := Committing b n None\<rparr>)"
| record_done: "wk_pc s = Handling b n \<Longrightarrow> handle (wk_retryDone s) (b ! n) (wk_world s) (Returned None) w' \<Longrightarrow>
    batch_step handle s
      (s\<lparr>wk_pc := Looping b (n + 1), wk_world := w', wk_finished := wk_finished s @ [b ! n]\<rparr>)"
| record_failed: "wk_pc s = Handling b n \<Longrightarrow> handle (wk_retryDone s) (b ! n) (wk_world s) (Returned (Some e)) w' \<Longrightarrow>
    batch_step handle s (s\<lparr>wk_pc := Judging b n e, wk_world := w'\<rparr>)"
| record_panic: "wk_pc s = Handling b n \<Longrightarrow> handle (wk_retryDone s) (b ! n) (wk_world s) (Panicked v) w' \<Longrightarrow>
    batch_step handle s (leave (report (worker_panic (wk_tp s) v) (s\<lparr>wk_world := w'\<rparr>)))"
| interrupted: "wk_pc s = Judging b n e \<Longrightarrow> wk_cancelled s \<or> errors_Is e errRecordInterrupted \<Longrightarrow>
    batch_step handle s (s\<lparr>wk_pc := Committing b n None\<rparr>)"
| unrecorded: "wk_pc s = Judging b n e \<Longrightarrow> \<not> wk_cancelled s \<Longrightarrow> \<not> errors_Is e errRecordInterrupted \<Longrightarrow>
    batch_step handle s (s\<lparr>wk_pc := Committing b n (Some (handling_error (wk_tp s) (b ! n) e))\<rparr>)"

text \<open>After the commit: back to the loop, or report the fatal error and return false.\<close>

definition after_commit :: "go_error option \<Rightarrow> 'w partitionWorker \<Rightarrow> 'w partitionWorker" where
  "after_commit f s = (case f of None \<Rightarrow> s\<lparr>wk_pc := Idle\<rparr> | Some e \<Rightarrow> leave (report e s))"

text \<open>
  \<^verbatim>\<open>commit\<close>: nothing for an empty prefix or an abandoned worker; else a request to the broker, which may be
  accepted (with or without the answer arriving) or not.  The committer may also panic.
\<close>

inductive commit_step :: "'w partitionWorker \<Rightarrow> 'w partitionWorker \<Rightarrow> bool" where
  nothing_finished: "wk_pc s = Committing b 0 f \<Longrightarrow> commit_step s (after_commit f s)"
| abandoned_skips: "wk_pc s = Committing b n f \<Longrightarrow> wk_abandoned s \<Longrightarrow> commit_step s (after_commit f s)"
| commit_sent: "wk_pc s = Committing b n f \<Longrightarrow> 0 < n \<Longrightarrow> \<not> wk_abandoned s \<Longrightarrow>
    commit_step s (s\<lparr>wk_pc := Sending b n f\<rparr>)"
| commit_accepted: "wk_pc s = Sending b n f \<Longrightarrow>
    commit_step s (after_commit f (s\<lparr>wk_committed := wk_committed s @ [take n b]\<rparr>))"
| commit_refused: "wk_pc s = Sending b n f \<Longrightarrow> commit_step s (after_commit f s)"
| commit_panic: "wk_pc s = Sending b n f \<Longrightarrow> commit_step s (leave (report (worker_panic (wk_tp s) v) s))"

text \<open>\<^verbatim>\<open>enqueue\<close>: refused when the worker has stopped, else offered to the bounded queue.\<close>

inductive enqueue_step :: "nat \<Rightarrow> 'w partitionWorker \<Rightarrow> 'w partitionWorker \<Rightarrow> bool" for depth where
  offered: "wk_offer s = None \<Longrightarrow> \<not> wk_quit s \<Longrightarrow> wk_pc s \<noteq> Exited \<Longrightarrow>
    enqueue_step depth s (s\<lparr>wk_offer := Some b\<rparr>)"
| accepted: "wk_offer s = Some b \<Longrightarrow> length (wk_queue s) < depth \<Longrightarrow>
    enqueue_step depth s
      (s\<lparr>wk_offer := None, wk_queue := wk_queue s @ [b], wk_received := wk_received s @ b\<rparr>)"
| withdrawn: "wk_offer s = Some b \<Longrightarrow> enqueue_step depth s (s\<lparr>wk_offer := None\<rparr>)"

text \<open>
  \<^verbatim>\<open>stop\<close>: close \<^verbatim>\<open>quit\<close>, cut the retry waits, then either cancel at once or wait for the drain timeout
  first; after the grace period the worker is abandoned.
\<close>

definition cancel :: "'w partitionWorker \<Rightarrow> 'w partitionWorker" where
  "cancel s = s\<lparr>wk_cancelled := True, wk_retryDone := True\<rparr>"

inductive stop_step :: "'w partitionWorker \<Rightarrow> 'w partitionWorker \<Rightarrow> bool" where
  requested: "wk_stop s = NotStopping \<Longrightarrow> stop_step s (s\<lparr>wk_stop := Quitting abort, wk_quit := True\<rparr>)"
| retries_cut: "wk_stop s = Quitting abort \<Longrightarrow>
    stop_step s (s\<lparr>wk_stop := Draining abort, wk_retryDone := True\<rparr>)"
| aborted: "wk_stop s = Draining True \<Longrightarrow> stop_step s (cancel (s\<lparr>wk_stop := Grace\<rparr>))"
| drained: "wk_stop s = Draining False \<Longrightarrow> wk_pc s = Exited \<Longrightarrow> stop_step s (s\<lparr>wk_stop := Stopped True\<rparr>)"
| drain_timeout: "wk_stop s = Draining False \<Longrightarrow> stop_step s (cancel (s\<lparr>wk_stop := Grace\<rparr>))"
| exited: "wk_stop s = Grace \<Longrightarrow> wk_pc s = Exited \<Longrightarrow> stop_step s (s\<lparr>wk_stop := Stopped True\<rparr>)"
| grace_timeout: "wk_stop s = Grace \<Longrightarrow> stop_step s (s\<lparr>wk_stop := Stopped False, wk_abandoned := True\<rparr>)"

text \<open>The rest: other writers move the stores, slots come and go, the consumer cancels the parent context.\<close>

inductive outside_step :: "('w \<Rightarrow> 'w \<Rightarrow> bool) \<Rightarrow> 'w partitionWorker \<Rightarrow> 'w partitionWorker \<Rightarrow> bool" for moves where
  stores_moved: "moves (wk_world s) w' \<Longrightarrow> outside_step moves s (s\<lparr>wk_world := w'\<rparr>)"
| slots_moved: "outside_step moves s (s\<lparr>wk_slot := b\<rparr>)"
| parent_cancelled: "outside_step moves s (cancel s)"

text \<open>A step of the goroutine, and a step of the system.\<close>

definition own_step where
  "own_step handle s s' \<longleftrightarrow> run_step s s' \<or> batch_step handle s s' \<or> commit_step s s'"

definition worker_step where
  "worker_step handle moves depth s s' \<longleftrightarrow>
     own_step handle s s' \<or> enqueue_step depth s s' \<or> stop_step s s' \<or> outside_step moves s s'"

abbreviation reachable where
  "reachable handle moves depth tp w s \<equiv> (worker_step handle moves depth)\<^sup>*\<^sup>* (newPartitionWorker tp w) s"

lemmas step_defs = own_step_def worker_step_def leave_def report_def cancel_def after_commit_def

inductive_cases run_stepE: "run_step s s'"
inductive_cases batch_stepE: "batch_step handle s s'"
inductive_cases commit_stepE: "commit_step s s'"
inductive_cases enqueue_stepE: "enqueue_step depth s s'"
inductive_cases stop_stepE: "stop_step s s'"
inductive_cases outside_stepE: "outside_step moves s s'"


section \<open>The invariant\<close>

text \<open>A stop is under way; from then on no further record is taken up.\<close>

definition halting :: "'w partitionWorker \<Rightarrow> bool" where
  "halting s \<longleftrightarrow> wk_quit s \<or> wk_cancelled s"

text \<open>Nothing was skipped: what was accepted is what finished, then \<open>rest\<close>, then the queue.\<close>

definition unskipped :: "'w partitionWorker \<Rightarrow> krecord list \<Rightarrow> bool" where
  "unskipped s rest \<longleftrightarrow> wk_received s = wk_finished s @ rest @ concat (wk_queue s)"

fun pc_inv :: "pc \<Rightarrow> 'w partitionWorker \<Rightarrow> bool" where
  "pc_inv Idle s \<longleftrightarrow> halting s \<or> unskipped s []"
| "pc_inv Selecting s \<longleftrightarrow> halting s \<or> unskipped s []"
| "pc_inv (Waiting b) s \<longleftrightarrow> halting s \<or> unskipped s b"
| "pc_inv (Looping b n) s \<longleftrightarrow> n \<le> length b \<and>
     (unskipped s (drop n b) \<and> suffix (take n b) (wk_finished s) \<or> n = 0 \<and> halting s)"
| "pc_inv (Handling b n) s \<longleftrightarrow> n < length b \<and> unskipped s (drop n b) \<and> suffix (take n b) (wk_finished s)"
| "pc_inv (Judging b n e) s \<longleftrightarrow> n < length b \<and> unskipped s (drop n b) \<and> suffix (take n b) (wk_finished s) \<and>
     (errors_Is e errRecordInterrupted \<longrightarrow> halting s)"
| "pc_inv (Committing b n f) s \<longleftrightarrow> suffix (take n b) (wk_finished s) \<and> (f = None \<longrightarrow> halting s \<or> unskipped s [])"
| "pc_inv (Sending b n f) s \<longleftrightarrow> suffix (take n b) (wk_finished s) \<and> (f = None \<longrightarrow> halting s \<or> unskipped s [])"
| "pc_inv Exited s \<longleftrightarrow> halting s"

definition commits_ok :: "'w partitionWorker \<Rightarrow> bool" where
  "commits_ok s \<longleftrightarrow> (\<forall>cs \<in> set (wk_committed s). \<exists>q. prefix (q @ cs) (wk_finished s))"

definition flags_ok :: "'w partitionWorker \<Rightarrow> bool" where
  "flags_ok s \<longleftrightarrow> (wk_retryDone s \<longrightarrow> halting s) \<and> (wk_stop s \<noteq> NotStopping \<longrightarrow> wk_quit s) \<and>
     (wk_abandoned s \<longrightarrow> wk_stop s = Stopped False) \<and> (wk_cancelled s \<longrightarrow> wk_retryDone s)"

definition worker_inv :: "nat \<Rightarrow> 'w partitionWorker \<Rightarrow> bool" where
  "worker_inv depth s \<longleftrightarrow> pc_inv (wk_pc s) s \<and> prefix (wk_finished s) (wk_received s) \<and>
     flags_ok s \<and> commits_ok s \<and> length (wk_queue s) \<le> depth"

lemmas inv_defs = worker_inv_def flags_ok_def commits_ok_def halting_def unskipped_def

lemma worker_inv_init: "worker_inv depth (newPartitionWorker tp w)"
  by (simp add: inv_defs newPartitionWorker_def)

lemma suffix_snoc_take:
  "n < length b \<Longrightarrow> suffix (take n b) xs \<Longrightarrow> suffix (take (Suc n) b) (xs @ [b ! n])"
  by (auto simp: suffix_def take_Suc_conv_app_nth)

lemma run_step_inv: "run_step s s' \<Longrightarrow> worker_inv depth s \<Longrightarrow> worker_inv depth s'"
  by (erule run_stepE) (auto simp: inv_defs step_defs)

lemma commit_step_inv: "commit_step s s' \<Longrightarrow> worker_inv depth s \<Longrightarrow> worker_inv depth s'"
  by (erule commit_stepE) (auto simp: inv_defs step_defs suffix_def split: option.splits)

text \<open>What the others do keeps the goroutine's part: a stop may begin, and batches join the queue.\<close>

lemma pc_inv_mono:
  assumes "pc_inv pc s" "halting s \<Longrightarrow> halting s'" "wk_finished s' = wk_finished s"
    and "\<And>rest. unskipped s rest \<Longrightarrow> unskipped s' rest"
  shows "pc_inv pc s'"
  using assms by (cases pc) auto

lemma enqueue_step_inv:
  assumes "enqueue_step depth s s'" "worker_inv depth s"
  shows "worker_inv depth s'"
proof -
  have "pc_inv (wk_pc s) s'"
  proof (rule pc_inv_mono [of _ s])
    show "pc_inv (wk_pc s) s" using assms(2) by (simp add: worker_inv_def)
  qed (use assms(1) in \<open>auto simp: halting_def unskipped_def elim!: enqueue_stepE\<close>)
  moreover have "wk_pc s' = wk_pc s" using assms(1) by (auto elim!: enqueue_stepE)
  ultimately show ?thesis using assms
    by (auto simp: worker_inv_def flags_ok_def commits_ok_def halting_def elim!: enqueue_stepE)
qed

lemma flags_inv:
  assumes "worker_inv depth s" "wk_pc s' = wk_pc s" "wk_finished s' = wk_finished s"
    and "wk_received s' = wk_received s" "wk_queue s' = wk_queue s" "wk_committed s' = wk_committed s"
    and "halting s \<Longrightarrow> halting s'" "flags_ok s'"
  shows "worker_inv depth s'"
proof -
  have "pc_inv (wk_pc s) s'"
    by (rule pc_inv_mono [of _ s]) (use assms in \<open>simp_all add: worker_inv_def unskipped_def\<close>)
  with assms show ?thesis by (simp add: worker_inv_def commits_ok_def)
qed

lemma stop_step_inv:
  assumes "stop_step s s'" "worker_inv depth s"
  shows "worker_inv depth s'"
proof (rule flags_inv [OF assms(2)])
  have "flags_ok s" using assms(2) by (simp add: worker_inv_def)
  with assms(1) show "flags_ok s'" by cases (simp_all add: flags_ok_def halting_def cancel_def)
  show "halting s \<Longrightarrow> halting s'" using assms(1) by cases (simp_all add: halting_def cancel_def)
qed (use assms(1) in \<open>cases; simp add: cancel_def\<close>)+

lemma outside_step_inv:
  assumes "outside_step moves s s'" "worker_inv depth s"
  shows "worker_inv depth s'"
proof (rule flags_inv [OF assms(2)])
  have "flags_ok s" using assms(2) by (simp add: worker_inv_def)
  with assms(1) show "flags_ok s'" by cases (simp_all add: flags_ok_def halting_def cancel_def)
  show "halting s \<Longrightarrow> halting s'" using assms(1) by cases (simp_all add: halting_def cancel_def)
qed (use assms(1) in \<open>cases; simp add: cancel_def\<close>)+

lemma batch_step_inv:
  assumes "batch_step handle s s'" "worker_inv depth s"
    and "\<And>r e w'. handle (wk_retryDone s) r (wk_world s) (Returned (Some e)) w' \<Longrightarrow>
      errors_Is e errRecordInterrupted \<Longrightarrow> wk_retryDone s"
  shows "worker_inv depth s'"
  using assms(1)
proof (cases rule: batch_step.cases)
  case (record_done b n w')
  then have n: "n < length b" "unskipped s (drop n b)" "suffix (take n b) (wk_finished s)"
    and r: "prefix (wk_finished s) (wk_received s)"
    using assms(2) by (simp_all add: worker_inv_def)
  have d: "drop n b = b ! n # drop (Suc n) b" using n(1) by (simp add: Cons_nth_drop_Suc)
  have "commits_ok s'"
    using assms(2) record_done by (auto simp: worker_inv_def commits_ok_def intro: prefix_prefix)
  with n d r assms(2) record_done suffix_snoc_take [OF n(1,3)] show ?thesis
    by (simp add: worker_inv_def flags_ok_def halting_def unskipped_def)
next
  case (record_failed b n e w')
  with assms(2) assms(3) show ?thesis
    by (auto simp: worker_inv_def flags_ok_def commits_ok_def halting_def unskipped_def)
qed (use assms(2) in \<open>auto simp: inv_defs step_defs\<close>)

section \<open>A worker over a record sink\<close>

locale worker_system = record_sink handle moves good durable
  for handle :: "bool \<Rightarrow> krecord \<Rightarrow> 'w \<Rightarrow> outcome \<Rightarrow> 'w \<Rightarrow> bool"
    and moves good durable
begin

definition sys_inv :: "nat \<Rightarrow> 'w partitionWorker \<Rightarrow> bool" where
  "sys_inv depth s \<longleftrightarrow> worker_inv depth s \<and> good (wk_world s) \<and> (\<forall>r \<in> set (wk_finished s). durable r (wk_world s))"

lemma world_moves:
  assumes "good (wk_world s)" "\<forall>r \<in> set (wk_finished s). durable r (wk_world s)" "moves (wk_world s) (wk_world s')"
    and "set (wk_finished s') \<subseteq> set (wk_finished s) \<union> {r. durable r (wk_world s')}"
  shows "good (wk_world s')" "\<forall>r \<in> set (wk_finished s'). durable r (wk_world s')"
  using assms moves_good moves_durable by blast+

lemma batch_step_world:
  assumes "batch_step handle s s'" "good (wk_world s)" "\<forall>r \<in> set (wk_finished s). durable r (wk_world s)"
  shows "good (wk_world s') \<and> (\<forall>r \<in> set (wk_finished s'). durable r (wk_world s'))"
  using assms(1)
proof (cases rule: batch_step.cases)
  case (record_done b n w')
  then have "moves (wk_world s) w'" "durable (b ! n) w'"
    using handle_moves [OF assms(2)] handle_nil [OF assms(2)] by auto
  with record_done world_moves [OF assms(2,3), of s'] show ?thesis by auto
next
  case (record_failed b n e w')
  with world_moves [OF assms(2,3), of s'] handle_moves [OF assms(2)] show ?thesis by auto
next
  case (record_panic b n v w')
  then have "wk_world s' = w'" "wk_finished s' = wk_finished s" by (simp_all add: leave_def report_def)
  with record_panic world_moves [OF assms(2,3), of s'] handle_moves [OF assms(2)] show ?thesis by auto
qed (use assms in simp_all)

lemma other_worlds:
  "run_step s s' \<Longrightarrow> wk_world s' = wk_world s \<and> wk_finished s' = wk_finished s"
  "commit_step s s' \<Longrightarrow> wk_world s' = wk_world s \<and> wk_finished s' = wk_finished s"
  "enqueue_step depth s s' \<Longrightarrow> wk_world s' = wk_world s \<and> wk_finished s' = wk_finished s"
  "stop_step s s' \<Longrightarrow> wk_world s' = wk_world s \<and> wk_finished s' = wk_finished s"
  by (auto simp: leave_def after_commit_def report_def cancel_def split: option.split
      elim!: run_stepE commit_stepE enqueue_stepE stop_stepE)

lemma sys_inv_step:
  assumes "worker_step handle moves depth s s'" "sys_inv depth s"
  shows "sys_inv depth s'"
proof -
  have s: "worker_inv depth s" "good (wk_world s)" "\<forall>r \<in> set (wk_finished s). durable r (wk_world s)"
    using assms(2) by (simp_all add: sys_inv_def)
  from assms(1) consider (run) "run_step s s'" | (batch) "batch_step handle s s'" | (commit) "commit_step s s'"
    | (enqueue) "enqueue_step depth s s'" | (stop) "stop_step s s'" | (outside) "outside_step moves s s'"
    by (auto simp: worker_step_def own_step_def)
  then show ?thesis
  proof cases
    case run
    from s other_worlds(1) [OF run] run_step_inv [OF run] show ?thesis by (simp add: sys_inv_def)
  next
    case batch
    have "worker_inv depth s'" by (rule batch_step_inv [OF batch s(1)]) (rule handle_interrupted [OF s(2)])
    with batch_step_world [OF batch s(2,3)] show ?thesis by (simp add: sys_inv_def)
  next
    case commit
    from s other_worlds(2) [OF commit] commit_step_inv [OF commit] show ?thesis by (simp add: sys_inv_def)
  next
    case enqueue
    from s other_worlds(3) [OF enqueue] enqueue_step_inv [OF enqueue] show ?thesis by (simp add: sys_inv_def)
  next
    case stop
    from s other_worlds(4) [OF stop] stop_step_inv [OF stop] show ?thesis by (simp add: sys_inv_def)
  next
    case outside
    have "good (wk_world s') \<and> (\<forall>r \<in> set (wk_finished s'). durable r (wk_world s'))"
      using outside s(2,3) moves_good moves_durable by cases (auto simp: cancel_def)
    with outside_step_inv [OF outside s(1)] show ?thesis by (simp add: sys_inv_def)
  qed
qed

lemma reachable_inv:
  assumes "reachable handle moves depth tp w s" "good w"
  shows "sys_inv depth s"
  using assms(1)
proof (induction rule: rtranclp_induct)
  case base
  show ?case using assms(2) worker_inv_init by (simp add: sys_inv_def newPartitionWorker_def)
qed (rule sys_inv_step)

lemma reachable_worker_inv:
  "reachable handle moves depth tp w s \<Longrightarrow> good w \<Longrightarrow> worker_inv depth s"
  using reachable_inv by (simp add: sys_inv_def)

lemma committed_is_durable:
  assumes "reachable handle moves depth tp w s" "good w" "cs \<in> set (wk_committed s)"
  shows "\<exists>before after. wk_received s = before @ cs @ after \<and> (\<forall>r \<in> set (before @ cs). durable r (wk_world s))"
proof -
  have i: "sys_inv depth s" using reachable_inv [OF assms(1,2)] .
  then obtain q where q: "prefix (q @ cs) (wk_finished s)" "prefix (wk_finished s) (wk_received s)"
    using assms(3) by (auto simp: sys_inv_def worker_inv_def commits_ok_def)
  then obtain rest where "wk_received s = q @ cs @ rest" by (auto simp: prefix_def)
  moreover have "set (q @ cs) \<subseteq> set (wk_finished s)" using set_mono_prefix [OF q(1)] .
  ultimately show ?thesis using i unfolding sys_inv_def by blast
qed

end

section \<open>Stopping\<close>

text \<open>How many steps of its own the goroutine has left once a stop was requested.\<close>

fun steps_left :: "pc \<Rightarrow> nat" where
  "steps_left Exited = 0"
| "steps_left Idle = 1"
| "steps_left (Sending b n f) = 2"
| "steps_left (Committing b n f) = 3"
| "steps_left (Looping b n) = 4"
| "steps_left (Judging b n e) = 4"
| "steps_left (Handling b n) = 5"
| "steps_left (Waiting b) = 5"
| "steps_left Selecting = 6"

lemma own_step_left:
  assumes "own_step handle s s'" "wk_quit s"
  shows "steps_left (wk_pc s') < steps_left (wk_pc s) \<and> wk_quit s'"
  using assms unfolding own_step_def
  by (auto simp: leave_def report_def after_commit_def split: option.split
      elim!: run_stepE batch_stepE commit_stepE)

lemma other_step_left:
  assumes "enqueue_step depth s s' \<or> stop_step s s' \<or> outside_step moves s s'" "wk_quit s"
  shows "wk_pc s' = wk_pc s \<and> wk_quit s'"
  using assms by (auto simp: cancel_def elim!: enqueue_stepE stop_stepE outside_stepE)

lemma own_step_enabled:
  assumes "\<And>stopped r w. \<exists>out w'. handle stopped r w out w'" "wk_quit s" "wk_pc s \<noteq> Exited"
  shows "\<exists>s'. own_step handle s s'"
proof (cases "wk_pc s")
  case (Looping b n)
  then show ?thesis using assms(2) loop_break [of s b n] loop_done [of s b n]
    by (cases "n < length b") (auto simp: own_step_def)
next
  case (Handling b n)
  obtain out w' where h: "handle (wk_retryDone s) (b ! n) (wk_world s) out w'" using assms(1) by blast
  show ?thesis
  proof (cases out)
    case (Returned err)
    with h Handling show ?thesis
      by (cases err) (auto simp: own_step_def intro: batch_step.intros)
  next
    case (Panicked v)
    with h Handling show ?thesis by (auto simp: own_step_def intro: batch_step.intros)
  qed
next
  case (Judging b n e)
  then show ?thesis using interrupted [of s b n e handle] unrecorded [of s b n e handle]
    unfolding own_step_def by blast
next
  case (Committing b n f)
  then show ?thesis using nothing_finished [of s b f] abandoned_skips [of s b n f] commit_sent [of s b n f]
    unfolding own_step_def by (metis neq0_conv)
qed (use assms(2,3) in \<open>auto simp: own_step_def intro: run_step.intros batch_step.intros commit_step.intros\<close>)

text \<open>A run of the system in which the goroutine takes \<open>k\<close> steps.\<close>

inductive runs_with :: "(bool \<Rightarrow> krecord \<Rightarrow> 'w \<Rightarrow> outcome \<Rightarrow> 'w \<Rightarrow> bool) \<Rightarrow> ('w \<Rightarrow> 'w \<Rightarrow> bool) \<Rightarrow> nat \<Rightarrow>
    nat \<Rightarrow> 'w partitionWorker \<Rightarrow> 'w partitionWorker \<Rightarrow> bool" for handle moves depth where
  "runs_with handle moves depth 0 s s"
| "runs_with handle moves depth k s t \<Longrightarrow> own_step handle t u \<Longrightarrow> runs_with handle moves depth (k + 1) s u"
| "runs_with handle moves depth k s t \<Longrightarrow> enqueue_step depth t u \<or> stop_step t u \<or> outside_step moves t u \<Longrightarrow>
     runs_with handle moves depth k s u"

lemma runs_with_left:
  "runs_with handle moves depth k s t \<Longrightarrow> wk_quit s \<Longrightarrow>
     wk_quit t \<and> k + steps_left (wk_pc t) \<le> steps_left (wk_pc s)"
proof (induction rule: runs_with.induct)
  case (2 k s t u)
  with own_step_left [OF 2(2)] show ?case by auto
next
  case (3 k s t u)
  with other_step_left [OF 3(2)] show ?case by auto
qed simp

section \<open>Abandonment\<close>

lemma abandoned_step:
  assumes "worker_step handle moves depth s s'" "wk_abandoned s" "\<forall>b n f. wk_pc s \<noteq> Sending b n f"
  shows "wk_abandoned s' \<and> (\<forall>b n f. wk_pc s' \<noteq> Sending b n f) \<and> wk_committed s' = wk_committed s"
  using assms unfolding worker_step_def own_step_def
  by (auto simp: leave_def report_def after_commit_def cancel_def split: option.splits
      elim!: run_stepE batch_stepE commit_stepE enqueue_stepE stop_stepE outside_stepE)

lemma abandoned_steps:
  assumes "(worker_step handle moves depth)\<^sup>*\<^sup>* s s'" "wk_abandoned s" "\<forall>b n f. wk_pc s \<noteq> Sending b n f"
  shows "wk_abandoned s' \<and> (\<forall>b n f. wk_pc s' \<noteq> Sending b n f) \<and> wk_committed s' = wk_committed s"
  using assms(1)
proof (induction rule: rtranclp_induct)
  case (step t u)
  with abandoned_step [OF step(2)] show ?case by auto
qed (use assms in simp)

text \<open>The run in which the worker is abandoned between the check and the request.\<close>

lemma step_intros:
  "run_step s s' \<Longrightarrow> worker_step handle moves depth s s'"
  "batch_step handle s s' \<Longrightarrow> worker_step handle moves depth s s'"
  "commit_step s s' \<Longrightarrow> worker_step handle moves depth s s'"
  "enqueue_step depth s s' \<Longrightarrow> worker_step handle moves depth s s'"
  "stop_step s s' \<Longrightarrow> worker_step handle moves depth s s'"
  by (simp_all add: worker_step_def own_step_def)

lemma offered_and_taken:
  assumes "0 < depth"
  shows "reachable handle moves depth tp w
    ((newPartitionWorker tp w)\<lparr>wk_pc := Waiting [r], wk_received := [r]\<rparr>)"
proof -
  let ?R = "worker_step handle moves depth" and ?s = "newPartitionWorker tp w"
  let ?s1 = "?s\<lparr>wk_offer := Some [r]\<rparr>"
  let ?s2 = "?s\<lparr>wk_queue := [[r]], wk_received := [r]\<rparr>"
  have "?R ?s ?s1" using offered [of ?s depth "[r]"] by (intro step_intros(4)) (simp add: newPartitionWorker_def)
  moreover have "?R ?s1 ?s2"
    using accepted [of ?s1 "[r]" depth] assms by (intro step_intros(4)) (simp add: newPartitionWorker_def)
  moreover have "?R ?s2 (?s2\<lparr>wk_pc := Selecting\<rparr>)"
    using to_select [of ?s2] by (intro step_intros(1)) (simp add: newPartitionWorker_def)
  moreover have "?R (?s2\<lparr>wk_pc := Selecting\<rparr>) (?s\<lparr>wk_pc := Waiting [r], wk_received := [r]\<rparr>)"
    using select_batch [of "?s2\<lparr>wk_pc := Selecting\<rparr>" "[r]" "[]"]
    by (intro step_intros(1)) (simp add: newPartitionWorker_def)
  ultimately show ?thesis by (meson converse_rtranclp_into_rtranclp rtranclp.rtrancl_refl)
qed

lemma handled_and_sent:
  assumes "handle False r w (Returned None) w'" and s: "s = (newPartitionWorker tp w)\<lparr>wk_pc := Waiting [r], wk_received := [r]\<rparr>"
  shows "\<exists>t. (worker_step handle moves depth)\<^sup>*\<^sup>* s t \<and> wk_pc t = Sending [r] 1 None \<and>
    wk_stop t = NotStopping \<and> wk_committed t = []"
proof -
  let ?R = "worker_step handle moves depth"
  let ?t = "s\<lparr>wk_pc := Looping [r] 1, wk_world := w', wk_finished := [r]\<rparr>"
  have "?R s (s\<lparr>wk_pc := Looping [r] 0\<rparr>)"
    using slot_taken [of s "[r]"] s by (intro step_intros(2)) (simp add: newPartitionWorker_def)
  moreover have "?R (s\<lparr>wk_pc := Looping [r] 0\<rparr>) (s\<lparr>wk_pc := Handling [r] 0\<rparr>)"
    using loop_next [of "s\<lparr>wk_pc := Looping [r] 0\<rparr>" "[r]" 0] s
    by (intro step_intros(2)) (simp add: newPartitionWorker_def)
  moreover have "?R (s\<lparr>wk_pc := Handling [r] 0\<rparr>) ?t"
    using record_done [of "s\<lparr>wk_pc := Handling [r] 0\<rparr>" "[r]" 0 handle w'] s assms(1)
    by (intro step_intros(2)) (simp add: newPartitionWorker_def)
  moreover have "?R ?t (?t\<lparr>wk_pc := Committing [r] 1 None\<rparr>)"
    using loop_done [of ?t "[r]" 1] by (intro step_intros(2)) simp
  moreover have "?R (?t\<lparr>wk_pc := Committing [r] 1 None\<rparr>) (?t\<lparr>wk_pc := Sending [r] 1 None\<rparr>)"
    using commit_sent [of "?t\<lparr>wk_pc := Committing [r] 1 None\<rparr>" "[r]" 1 None] s
    by (intro step_intros(3)) (simp add: newPartitionWorker_def)
  ultimately have "?R\<^sup>*\<^sup>* s (?t\<lparr>wk_pc := Sending [r] 1 None\<rparr>)"
    by (meson converse_rtranclp_into_rtranclp rtranclp.rtrancl_refl)
  moreover have "wk_stop s = NotStopping" "wk_committed s = []" using s by (simp_all add: newPartitionWorker_def)
  ultimately show ?thesis by (intro exI [of _ "?t\<lparr>wk_pc := Sending [r] 1 None\<rparr>"]) simp
qed

lemma stop_abandons:
  assumes "wk_stop s = NotStopping"
  shows "\<exists>t. (worker_step handle moves depth)\<^sup>*\<^sup>* s t \<and> wk_pc t = wk_pc s \<and> wk_stop t = Stopped False \<and> wk_abandoned t"
proof -
  let ?R = "worker_step handle moves depth"
  let ?a = "s\<lparr>wk_stop := Quitting True, wk_quit := True\<rparr>"
  let ?b = "?a\<lparr>wk_stop := Draining True, wk_retryDone := True\<rparr>"
  let ?c = "cancel (?b\<lparr>wk_stop := Grace\<rparr>)"
  let ?d = "?c\<lparr>wk_stop := Stopped False, wk_abandoned := True\<rparr>"
  have "?R s ?a" using requested [OF assms] by (rule step_intros(5))
  moreover have "?R ?a ?b" using retries_cut [of ?a True] by (intro step_intros(5)) simp
  moreover have "?R ?b ?c" using aborted [of ?b] by (intro step_intros(5)) simp
  moreover have "?R ?c ?d" using grace_timeout [of ?c] by (intro step_intros(5)) (simp add: cancel_def)
  ultimately have "?R\<^sup>*\<^sup>* s ?d" by (meson converse_rtranclp_into_rtranclp rtranclp.rtrancl_refl)
  then show ?thesis by (intro exI [of _ ?d]) (simp add: cancel_def)
qed

lemma abandoned_race:
  assumes "0 < depth" "handle False r w (Returned None) w'"
  shows "\<exists>s. reachable handle moves depth tp w s \<and> wk_pc s = Sending [r] 1 None \<and> wk_stop s = Stopped False \<and> wk_abandoned s"
proof -
  let ?s = "(newPartitionWorker tp w)\<lparr>wk_pc := Waiting [r], wk_received := [r]\<rparr>"
  obtain t where t: "(worker_step handle moves depth)\<^sup>*\<^sup>* ?s t" "wk_pc t = Sending [r] 1 None" "wk_stop t = NotStopping"
    using handled_and_sent [of handle r w w' ?s tp, OF assms(2) refl] by blast
  obtain u where u: "(worker_step handle moves depth)\<^sup>*\<^sup>* t u" "wk_pc u = wk_pc t" "wk_stop u = Stopped False" "wk_abandoned u"
    using stop_abandons [OF t(3)] by blast
  have "reachable handle moves depth tp w u"
    using offered_and_taken [OF assms(1)] rtranclp_trans [OF t(1) u(1)] by (rule rtranclp_trans)
  with t(2) u show ?thesis by (intro exI [of _ u]) simp
qed

lemma commits_one:
  assumes "0 < depth" "handle False r w (Returned None) w'"
  shows "\<exists>s. reachable handle moves depth tp w s \<and> wk_committed s = [[r]]"
proof -
  let ?s = "(newPartitionWorker tp w)\<lparr>wk_pc := Waiting [r], wk_received := [r]\<rparr>"
  obtain t where t: "(worker_step handle moves depth)\<^sup>*\<^sup>* ?s t" "wk_pc t = Sending [r] 1 None" "wk_committed t = []"
    using handled_and_sent [of handle r w w' ?s tp, OF assms(2) refl] by blast
  let ?u = "after_commit None (t\<lparr>wk_committed := wk_committed t @ [take 1 [r]]\<rparr>)"
  have "worker_step handle moves depth t ?u" using commit_accepted [OF t(2)] by (rule step_intros(3))
  with offered_and_taken [OF assms(1), of handle moves tp w r] t(1) have "reachable handle moves depth tp w ?u"
    by (meson rtranclp.rtrancl_into_rtrancl rtranclp_trans)
  moreover have "wk_committed ?u = [[r]]" using t(3) by (simp add: after_commit_def)
  ultimately show ?thesis by blast
qed

section \<open>The service's worker\<close>

sublocale wired_service \<subseteq> worker_system "handles Retry (service_deps router retry std unmarshal)" grows
  "\<lambda>w. tables_ok (pg_tables (w_pg w))" "settled topics std" ..

context wired_service
begin

lemma service_worker:
  "worker_system (handles Retry (service_deps router retry std unmarshal)) grows
     (\<lambda>w. tables_ok (pg_tables (w_pg w))) (settled topics std)"
  by unfold_locales

end

lemma wired_worker:
  assumes "\<forall>c. backoff_contract c (Retry c)" "wire_router topics limits policy = Inr router"
  shows "worker_system (handles Retry (service_deps router retry std unmarshal)) grows
     (\<lambda>w. tables_ok (pg_tables (w_pg w))) (settled topics std)"
  by (rule wired_service.service_worker, unfold_locales) (use assms in simp_all)

text \<open>A worker of the sample service.\<close>

definition sample_tp :: topicPartition where
  "sample_tp = \<lparr>tp_topic = ''t'', tp_partition = 0\<rparr>"

lemma retry_now_contracts: "\<forall>c. backoff_contract c retry_now"
  using retry_now_contract by blast

lemma sample_tables_world: "tables_ok (pg_tables (w_pg sample_world))"
  using sample_world_ok by (simp add: world_ok_def)

lemma sample_commits:
  "\<exists>s. reachable (handles (\<lambda>_. retry_now) sample_deps) grows 2 sample_tp sample_world s \<and>
     wk_committed s = [[sample_record]]"
proof -
  obtain w' where "handles (\<lambda>_. retry_now) sample_deps False sample_record sample_world (Returned None) w'"
    using sample_handled by blast
  from commits_one [of 2 "handles (\<lambda>_. retry_now) sample_deps" sample_record sample_world w', OF _ this, of grows sample_tp]
  show ?thesis by simp
qed

section \<open>Properties\<close>

text \<open>
  C24. No record is lost.  In every state a partition worker can reach, under any interleaving of handling,
  polling, stopping, faults and other writers: for each offset commit the broker accepted, every record the
  worker was handed up to and including the last committed one, in delivery order, is settled, that is
  durably stored or durably recorded as a failure.
\<close>

theorem worker_commits_only_settled:
  assumes "\<forall>c. backoff_contract c (Retry c)" "wire_router topics limits policy = Inr router"
    and "tables_ok (pg_tables (w_pg w))"
    and "reachable (handles Retry (service_deps router retry std unmarshal)) grows depth tp w s"
    and "cs \<in> set (wk_committed s)"
  shows "\<exists>before after. wk_received s = before @ cs @ after \<and>
    (\<forall>r \<in> set (before @ cs). settled topics std r (wk_world s))"
  by (rule worker_system.committed_is_durable [OF wired_worker [OF assms(1,2)] assms(4,3,5)])

text \<open>What of the current batch is still to be done.\<close>

definition in_progress :: "pc \<Rightarrow> krecord list" where
  "in_progress pc =
     (case pc of Waiting b \<Rightarrow> b | Looping b n \<Rightarrow> drop n b | Handling b n \<Rightarrow> drop n b
      | Judging b n e \<Rightarrow> drop n b | _ \<Rightarrow> [])"

text \<open>
  C25. Order and bounds.  At any time the records that finished are an initial segment of those handed over,
  in order; the queue never exceeds its depth; and unless a stop is under way, every record handed over is
  finished, in the batch being worked on, or in the queue.
\<close>

theorem worker_order:
  assumes "\<forall>c. backoff_contract c (Retry c)" "wire_router topics limits policy = Inr router"
    and "tables_ok (pg_tables (w_pg w))"
    and "reachable (handles Retry (service_deps router retry std unmarshal)) grows depth tp w s"
  shows "prefix (wk_finished s) (wk_received s) \<and> length (wk_queue s) \<le> depth \<and>
    (\<not> wk_quit s \<and> \<not> wk_cancelled s \<and> (\<forall>b n f. wk_pc s \<noteq> Committing b n (Some f) \<and> wk_pc s \<noteq> Sending b n (Some f)) \<longrightarrow>
       wk_received s = wk_finished s @ in_progress (wk_pc s) @ concat (wk_queue s))"
proof -
  have "worker_inv depth s"
    by (rule worker_system.reachable_worker_inv [OF wired_worker [OF assms(1,2)] assms(4,3)])
  then show ?thesis
    by (cases "wk_pc s") (auto simp: worker_inv_def halting_def unskipped_def in_progress_def)
qed

text \<open>
  C26. A stopped worker goes away.  Once \<^verbatim>\<open>quit\<close> is closed, whatever the poll loop, the caller of \<^verbatim>\<open>stop\<close> and the
  other writers do in between, the goroutine takes at most six more steps of its own, at most one of which
  handles a record; and until it has exited it always has a step to take, because handling a record always
  returns.
\<close>

theorem worker_stops:
  assumes "wk_quit s" "runs_with (handles Retry deps) moves depth k s t"
  shows "k \<le> 6 \<and> (wk_pc t \<noteq> Exited \<longrightarrow> (\<exists>u. own_step (handles Retry deps) t u)) \<and>
    (k = steps_left (wk_pc s) \<longrightarrow> wk_pc t = Exited)"
proof -
  have r: "wk_quit t" "k + steps_left (wk_pc t) \<le> steps_left (wk_pc s)"
    using runs_with_left [OF assms(2,1)] by auto
  have "steps_left pc \<le> 6" for pc by (cases pc) simp_all
  then have "k \<le> 6" using r(2) order_trans [of k "steps_left (wk_pc s)" 6] by simp
  moreover have "\<exists>out w'. handles Retry deps stopped rec w out w'" for stopped rec w
  proof -
    have "fair_moments (\<lambda>_. quiet_moment)" by (simp add: fair_moments_def)
    then show ?thesis unfolding handles_def by (metis surj_pair)
  qed
  then have "wk_pc t \<noteq> Exited \<longrightarrow> (\<exists>u. own_step (handles Retry deps) t u)"
    using own_step_enabled r(1) by blast
  moreover have "pc = Exited" if "steps_left pc = 0" for pc using that by (cases pc) simp_all
  ultimately show ?thesis using r(2) by simp
qed

text \<open>
  Abandonment.  A worker that is abandoned before it has checked the flag never commits again.  The check
  and the request are two steps, however: a worker can be abandoned between them, and then its commit still
  goes out although \<^verbatim>\<open>stop\<close> has returned.
\<close>

theorem abandoned_worker_commits:
  "(\<forall>s s'. wk_abandoned s \<and> (\<forall>b n f. wk_pc s \<noteq> Sending b n f) \<and> (worker_step handle moves depth)\<^sup>*\<^sup>* s s' \<longrightarrow>
      wk_committed s' = wk_committed s) \<and>
   (0 < depth \<and> handle False r w (Returned None) w' \<longrightarrow>
      (\<exists>s s'. reachable handle moves depth tp w s \<and> wk_stop s = Stopped False \<and> wk_abandoned s \<and>
        own_step handle s s' \<and> wk_committed s' = wk_committed s @ [[r]]))"
proof (intro conjI allI impI)
  fix s s' :: "'a partitionWorker"
  assume "wk_abandoned s \<and> (\<forall>b n f. wk_pc s \<noteq> Sending b n f) \<and> (worker_step handle moves depth)\<^sup>*\<^sup>* s s'"
  then show "wk_committed s' = wk_committed s" using abandoned_steps by blast
next
  assume a: "0 < depth \<and> handle False r w (Returned None) w'"
  obtain s where "reachable handle moves depth tp w s" "wk_pc s = Sending [r] 1 None" "wk_stop s = Stopped False"
    "wk_abandoned s"
    using abandoned_race [of depth handle r w w', OF conjunct1 [OF a] conjunct2 [OF a], of moves tp] by (elim exE conjE) (rule that)
  moreover from this(2) have "own_step handle s (after_commit None (s\<lparr>wk_committed := wk_committed s @ [take 1 [r]]\<rparr>))"
    unfolding own_step_def by (blast intro: commit_accepted)
  moreover have "wk_committed (after_commit None (s\<lparr>wk_committed := wk_committed s @ [take 1 [r]]\<rparr>)) = wk_committed s @ [[r]]"
    by (simp add: after_commit_def)
  ultimately show "\<exists>s s'. reachable handle moves depth tp w s \<and> wk_stop s = Stopped False \<and> wk_abandoned s \<and>
        own_step handle s s' \<and> wk_committed s' = wk_committed s @ [[r]]" by blast
qed

theorem worker_commits_only_settled_witness:
  "\<exists>s. reachable (handles (\<lambda>_. retry_now) sample_deps) grows 2 sample_tp sample_world s \<and>
     wk_committed s = [[sample_record]] \<and> settled sample_topics decoding_std sample_record (wk_world s)"
proof -
  obtain s where s: "reachable (handles (\<lambda>_. retry_now) sample_deps) grows 2 sample_tp sample_world s"
    "wk_committed s = [[sample_record]]" using sample_commits by blast
  from worker_commits_only_settled [OF retry_now_contracts sample_wired sample_tables_world s(1), of "[sample_record]"] s
  show ?thesis by auto
qed

theorem worker_order_witness:
  "\<exists>s. reachable (handles (\<lambda>_. retry_now) sample_deps) grows 2 sample_tp sample_world s \<and>
     wk_committed s = [[sample_record]] \<and> prefix (wk_finished s) (wk_received s) \<and> length (wk_queue s) \<le> 2"
proof -
  obtain s where s: "reachable (handles (\<lambda>_. retry_now) sample_deps) grows 2 sample_tp sample_world s"
    "wk_committed s = [[sample_record]]" using sample_commits by blast
  from worker_order [OF retry_now_contracts sample_wired sample_tables_world s(1)] s show ?thesis by auto
qed

theorem worker_stops_witness:
  "\<exists>t. runs_with (handles (\<lambda>_. retry_now) sample_deps) grows 2 1
      ((newPartitionWorker sample_tp sample_world)\<lparr>wk_quit := True\<rparr>) t \<and> wk_pc t = Exited"
proof -
  let ?s = "(newPartitionWorker sample_tp sample_world)\<lparr>wk_quit := True\<rparr>"
  have q: "wk_pc ?s = Idle" "wk_quit ?s" by (simp_all add: newPartitionWorker_def)
  have "own_step (handles (\<lambda>_. retry_now) sample_deps) ?s (leave ?s)"
    using stop_seen [OF q] by (simp add: own_step_def)
  from runs_with.intros(2) [OF runs_with.intros(1) this]
  have r: "runs_with (handles (\<lambda>_. retry_now) sample_deps) grows 2 1 ?s (leave ?s)" by simp
  from worker_stops [OF q(2) r] q r show ?thesis by (intro exI [of _ "leave ?s"]) simp
qed

theorem abandoned_worker_commits_witness:
  "\<exists>s s'. reachable (handles (\<lambda>_. retry_now) sample_deps) grows 2 sample_tp sample_world s \<and>
     wk_stop s = Stopped False \<and> wk_abandoned s \<and> own_step (handles (\<lambda>_. retry_now) sample_deps) s s' \<and>
     wk_committed s' = wk_committed s @ [[sample_record]]"
proof -
  obtain w' where h: "handles (\<lambda>_. retry_now) sample_deps False sample_record sample_world (Returned None) w'"
    using sample_handled by blast
  have "0 < (2 :: nat)" by simp
  with h conjunct2 [OF abandoned_worker_commits [of "handles (\<lambda>_. retry_now) sample_deps" grows 2 sample_record sample_world w' sample_tp]]
  show ?thesis by blast
qed

end
