(* ===== verification/Consumer.thy ===== *)
theory Consumer
  imports Worker "HOL-Library.Multiset"
begin

text \<open>
  The consumer of \<^verbatim>\<open>internal/ingestion/consumer.go\<close>: its configuration, the ownership of partition workers
  through rebalances, the dispatch of fetched records and the result of \<^verbatim>\<open>Run\<close>.  The Kafka client is a
  third-party package; its polls and callbacks are inputs, in any order.
\<close>

section \<open>Configuration\<close>

definition defaultMaxConcurrentHandlers :: int where "defaultMaxConcurrentHandlers = 16"
definition defaultPartitionQueueDepth :: int where "defaultPartitionQueueDepth = 2"

text \<open>Client options; the last four are those the application passes in \<^verbatim>\<open>ExtraOpts\<close>.\<close>

datatype kgo_opt =
    SeedBrokers "string list" | ConsumerGroup string | ConsumeTopics "string list"
  | DisableAutoCommit | BlockRebalanceOnPoll
  | OnPartitionsAssigned | OnPartitionsRevoked | OnPartitionsLost
  | SessionTimeout int | HeartbeatInterval int | FetchMaxBytes int | FetchMaxPartitionBytes int
  | DialTLSConfig | SASL_Plain string string | SASL_Sha256 string string | SASL_Sha512 string string

record Config =
  cf_Brokers :: "string list"
  cf_ConsumerGroup :: string
  cf_MeterTopic :: string
  cf_HeartbeatTopic :: string
  cf_ActuationResponseTopic :: string
  cf_MaxConcurrentHandlers :: int
  cf_PartitionQueueDepth :: int
  cf_Retry :: RetryPolicy
  cf_SessionTimeout :: int
  cf_HeartbeatInterval :: int
  cf_FetchMaxBytes :: int
  cf_MaxPartitionBytes :: int
  cf_ExtraOpts :: "kgo_opt list"

definition Config_withDefaults :: "Config \<Rightarrow> Config" where
  "Config_withDefaults c0 =
     (let c1 = (if cf_MaxConcurrentHandlers c0 \<le> 0
                then c0\<lparr>cf_MaxConcurrentHandlers := defaultMaxConcurrentHandlers\<rparr> else c0);
          c2 = (if cf_PartitionQueueDepth c1 \<le> 0
                then c1\<lparr>cf_PartitionQueueDepth := defaultPartitionQueueDepth\<rparr> else c1)
      in c2\<lparr>cf_Retry := RetryPolicy_withDefaults (cf_Retry c2)\<rparr>)"

definition consumer_opts :: "Config \<Rightarrow> kgo_opt list" where
  "consumer_opts c =
     [SeedBrokers (cf_Brokers c), ConsumerGroup (cf_ConsumerGroup c),
      ConsumeTopics [cf_MeterTopic c, cf_HeartbeatTopic c, cf_ActuationResponseTopic c],
      DisableAutoCommit, BlockRebalanceOnPoll, OnPartitionsAssigned, OnPartitionsRevoked, OnPartitionsLost] @
     (if cf_SessionTimeout c > 0 then [SessionTimeout (cf_SessionTimeout c)] else []) @
     (if cf_HeartbeatInterval c > 0 then [HeartbeatInterval (cf_HeartbeatInterval c)] else []) @
     (if cf_FetchMaxBytes c > 0 then [FetchMaxBytes (cf_FetchMaxBytes c)] else []) @
     (if cf_MaxPartitionBytes c > 0 then [FetchMaxPartitionBytes (cf_MaxPartitionBytes c)] else []) @
     cf_ExtraOpts c"

section \<open>State\<close>

text \<open>
  Workers are objects with an identity: the position at which they were created.  \<open>c_created\<close> is the
  partition of each, \<open>c_workers\<close> the map, and \<open>c_stopped\<close> the calls of \<^verbatim>\<open>stop\<close> with their argument, in order.
\<close>

record Consumer =
  c_config :: Config
  c_workers :: "(topicPartition \<times> nat) list"
  c_created :: "topicPartition list"
  c_stopped :: "(nat \<times> bool) list"
  c_workerCancelled :: bool
  c_fatalCancelled :: bool
  c_fatalErr :: "go_error option"
  c_closed :: bool

text \<open>\<^verbatim>\<open>NewConsumer\<close>; \<open>newClient\<close> is \<^verbatim>\<open>kgo.NewClient\<close>, a nil router or recorder is refused first.\<close>

definition NewConsumer ::
    "(kgo_opt list \<Rightarrow> go_error option) \<Rightarrow> Config \<Rightarrow> Router option \<Rightarrow> recorder option \<Rightarrow> go_error + Consumer" where
  "NewConsumer newClient config0 router rec =
     (if router = None then Inl (errors_New ''create kafka consumer: router is required'')
      else if rec = None then Inl (errors_New ''create kafka consumer: failure recorder is required'')
      else let config = Config_withDefaults config0 in
        (case newClient (consumer_opts config) of
           Some e \<Rightarrow> Inl (Errorf_w ''create kafka consumer: '' e)
         | None \<Rightarrow> Inr \<lparr>c_config = config, c_workers = [], c_created = [], c_stopped = [],
             c_workerCancelled = False, c_fatalCancelled = False, c_fatalErr = None, c_closed = False\<rparr>))"

definition workerFor :: "topicPartition \<Rightarrow> Consumer \<Rightarrow> nat option" where
  "workerFor tp c = map_of (c_workers c) tp"

section \<open>Rebalances\<close>

text \<open>A callback's argument: topics with partitions, in whatever order the map is iterated.\<close>

type_synonym assignment = "(string \<times> int list) list"

definition partitions_of :: "assignment \<Rightarrow> topicPartition list" where
  "partitions_of a =
     concat (map (\<lambda>(topic, ps). map (\<lambda>p. \<lparr>tp_topic = topic, tp_partition = p\<rparr>) ps) a)"

definition assignOne :: "topicPartition \<Rightarrow> Consumer \<Rightarrow> Consumer" where
  "assignOne tp c =
     (case workerFor tp c of
        Some _ \<Rightarrow> c
      | None \<Rightarrow> c\<lparr>c_workers := c_workers c @ [(tp, length (c_created c))], c_created := c_created c @ [tp]\<rparr>)"

definition onAssigned :: "assignment \<Rightarrow> Consumer \<Rightarrow> Consumer" where
  "onAssigned assigned c = fold assignOne (partitions_of assigned) c"

fun takeLoop :: "topicPartition list \<Rightarrow> (topicPartition \<times> nat) list \<Rightarrow> nat list \<times> (topicPartition \<times> nat) list" where
  "takeLoop [] ws = ([], ws)"
| "takeLoop (tp # tps) ws =
     (case map_of ws tp of
        None \<Rightarrow> takeLoop tps ws
      | Some w \<Rightarrow> (case takeLoop tps (filter (\<lambda>x. fst x \<noteq> tp) ws) of (taken, rest) \<Rightarrow> (w # taken, rest)))"

definition takeWorkers :: "assignment option \<Rightarrow> Consumer \<Rightarrow> nat list \<times> Consumer" where
  "takeWorkers only c =
     (case only of
        None \<Rightarrow> (map snd (c_workers c), c\<lparr>c_workers := []\<rparr>)
      | Some a \<Rightarrow> (case takeLoop (partitions_of a) (c_workers c) of
          (taken, rest) \<Rightarrow> (taken, c\<lparr>c_workers := rest\<rparr>)))"

definition stopWorkers :: "nat list \<Rightarrow> bool \<Rightarrow> Consumer \<Rightarrow> Consumer" where
  "stopWorkers ws abort c = c\<lparr>c_stopped := c_stopped c @ map (\<lambda>w. (w, abort)) ws\<rparr>"

definition onRevoked :: "assignment \<Rightarrow> Consumer \<Rightarrow> Consumer" where
  "onRevoked revoked c = (case takeWorkers (Some revoked) c of (ws, c') \<Rightarrow> stopWorkers ws False c')"

definition onLost :: "assignment \<Rightarrow> Consumer \<Rightarrow> Consumer" where
  "onLost lost c = (case takeWorkers (Some lost) c of (ws, c') \<Rightarrow> stopWorkers ws True c')"

definition fail :: "go_error \<Rightarrow> Consumer \<Rightarrow> Consumer" where
  "fail e c =
     (if c_fatalErr c = None then c\<lparr>c_fatalErr := Some e, c_fatalCancelled := True\<rparr>
      else c\<lparr>c_fatalCancelled := True\<rparr>)"

definition fatal :: "Consumer \<Rightarrow> go_error option" where
  "fatal c = c_fatalErr c"

definition Close :: "Consumer \<Rightarrow> Consumer" where
  "Close c =
     (if c_closed c then c
      else (case takeWorkers None c of (ws, c') \<Rightarrow>
        (stopWorkers ws False c')\<lparr>c_workerCancelled := True, c_fatalCancelled := True, c_closed := True\<rparr>))"

section \<open>Polling\<close>

text \<open>
  One fetched partition, and the dispatch to its worker.  \<open>enqueue\<close> is the worker's method with the run
  context; it acts on the workers' state.
\<close>

record fetch =
  ft_tp :: topicPartition
  ft_Records :: "krecord list"

type_synonym 's enqueuer = "nat \<Rightarrow> krecord list \<Rightarrow> 's \<Rightarrow> go_error option \<times> 's"

fun dispatchLoop :: "'s enqueuer \<Rightarrow> Consumer \<Rightarrow> go_error option \<Rightarrow> fetch list \<Rightarrow> 's \<Rightarrow> go_error option \<times> 's" where
  "dispatchLoop enqueue c enqueueErr [] s = (enqueueErr, s)"
| "dispatchLoop enqueue c enqueueErr (p # ps) s =
     (if enqueueErr \<noteq> None \<or> ft_Records p = [] then dispatchLoop enqueue c enqueueErr ps s
      else case workerFor (ft_tp p) c of
        None \<Rightarrow> dispatchLoop enqueue c enqueueErr ps s
      | Some w \<Rightarrow>
          (case enqueue w (ft_Records p) s of
             (None, s') \<Rightarrow> dispatchLoop enqueue c enqueueErr ps s'
           | (Some e, s') \<Rightarrow>
               if errors_Is e errWorkerStopped then dispatchLoop enqueue c enqueueErr ps s'
               else dispatchLoop enqueue c (Some e) ps s'))"

definition dispatch :: "'s enqueuer \<Rightarrow> Consumer \<Rightarrow> fetch list \<Rightarrow> 's \<Rightarrow> go_error option \<times> 's" where
  "dispatch enqueue c fetches s = dispatchLoop enqueue c None fetches s"

text \<open>
  What happens to the consumer besides polling: callbacks of the client, fatal reports of workers, and
  \<^verbatim>\<open>Close\<close>.
\<close>

datatype event = Assigned assignment | Revoked assignment | Lost assignment | Failed go_error | Closing

fun on_event :: "event \<Rightarrow> Consumer \<Rightarrow> Consumer" where
  "on_event (Assigned a) c = onAssigned a c"
| "on_event (Revoked a) c = onRevoked a c"
| "on_event (event.Lost a) c = onLost a c"
| "on_event (Failed e) c = fail e c"
| "on_event Closing c = Close c"

definition runResult :: "go_error option \<Rightarrow> Consumer \<Rightarrow> go_error option" where
  "runResult ctxErr c = (case fatal c of Some e \<Rightarrow> Some e | None \<Rightarrow> ctxErr)"

definition consumer_closed :: go_error where
  "consumer_closed = errors_New ''ingestion: consumer closed''"

text \<open>
  One round of \<^verbatim>\<open>Run\<close>: what happened before the poll returned, whether the client is closed, the error of the
  caller's context if it is done, whether a fatal report has reached the run context, the fetched partitions,
  what happened until dispatching ended, and the context's error then.  Rebalances wait while \<^verbatim>\<open>Run\<close>
  dispatches, so the workers are those of the poll.
\<close>

record round =
  rd_before :: "event list"
  rd_clientClosed :: bool
  rd_ctxErr :: "go_error option"
  rd_fatalSeen :: bool
  rd_fetches :: "fetch list"
  rd_during :: "event list"
  rd_ctxErrAfter :: "go_error option"

fun Consumer_Run :: "'s enqueuer \<Rightarrow> round list \<Rightarrow> Consumer \<Rightarrow> 's \<Rightarrow> go_error option option \<times> Consumer \<times> 's" where
  "Consumer_Run enqueue [] c s = (None, c, s)"
| "Consumer_Run enqueue (r # rs) c s =
     (let c1 = fold on_event (rd_before r) c in
      if rd_clientClosed r then (Some (Some consumer_closed), c1, s)
      else if rd_ctxErr r \<noteq> None \<or> c_fatalCancelled c1 \<and> rd_fatalSeen r then (Some (runResult (rd_ctxErr r) c1), c1, s)
      else case dispatch enqueue c1 (rd_fetches r) s of
        (None, s') \<Rightarrow> Consumer_Run enqueue rs (fold on_event (rd_during r) c1) s'
      | (Some e, s') \<Rightarrow>
          (let c2 = fold on_event (rd_during r) c1 in (Some (runResult (rd_ctxErrAfter r) c2), c2, s')))"


section \<open>Ownership\<close>

text \<open>
  Every worker ever created either is the worker of its partition or was stopped, once; no partition has two.
\<close>

definition ownership :: "Consumer \<Rightarrow> bool" where
  "ownership c \<longleftrightarrow>
     distinct (map fst (c_workers c)) \<and>
     (\<forall>(tp, w) \<in> set (c_workers c). w < length (c_created c) \<and> c_created c ! w = tp) \<and>
     distinct (map snd (c_workers c) @ map fst (c_stopped c)) \<and>
     set (map snd (c_workers c) @ map fst (c_stopped c)) = {..<length (c_created c)}"

text \<open>The specification: the set of partitions owned, and whether the consumer was closed.\<close>

fun owned :: "event \<Rightarrow> topicPartition set \<times> bool \<Rightarrow> topicPartition set \<times> bool" where
  "owned (Assigned a) (S, down) = (S \<union> set (partitions_of a), down)"
| "owned (Revoked a) (S, down) = (S - set (partitions_of a), down)"
| "owned (event.Lost a) (S, down) = (S - set (partitions_of a), down)"
| "owned (Failed e) (S, down) = (S, down)"
| "owned Closing (S, down) = (if down then S else {}, True)"

definition abs_consumer :: "Consumer \<Rightarrow> topicPartition set \<times> bool" where
  "abs_consumer c = (fst ` set (c_workers c), c_closed c)"

lemma workerFor_None: "workerFor tp c = None \<longleftrightarrow> tp \<notin> fst ` set (c_workers c)"
  by (simp add: workerFor_def map_of_eq_None_iff)

lemma assignOne_ownership:
  assumes "ownership c"
  shows "ownership (assignOne tp c) \<and> fst ` set (c_workers (assignOne tp c)) = insert tp (fst ` set (c_workers c)) \<and>
    c_closed (assignOne tp c) = c_closed c"
proof (cases "workerFor tp c")
  case None
  then have tp: "tp \<notin> fst ` set (c_workers c)" by (simp add: workerFor_None)
  let ?n = "length (c_created c)"
  have fresh: "?n \<notin> snd ` set (c_workers c)" "?n \<notin> fst ` set (c_stopped c)"
    using assms by (auto simp: ownership_def)
  have "set (map snd (c_workers c) @ map fst (c_stopped c)) = {..<?n}" using assms by (simp add: ownership_def)
  then have "insert ?n (snd ` set (c_workers c) \<union> fst ` set (c_stopped c)) = {..<Suc ?n}"
    by (simp add: lessThan_Suc)
  with assms None tp fresh show ?thesis
    by (auto simp: ownership_def assignOne_def nth_append)
next
  case (Some w)
  then have "tp \<in> fst ` set (c_workers c)" by (metis workerFor_None option.distinct(1))
  with Some assms show ?thesis by (auto simp: assignOne_def)
qed

lemma onAssigned_ownership:
  assumes "ownership c"
  shows "ownership (onAssigned a c) \<and>
    fst ` set (c_workers (onAssigned a c)) = fst ` set (c_workers c) \<union> set (partitions_of a) \<and>
    c_closed (onAssigned a c) = c_closed c"
proof -
  have "ownership (fold assignOne tps c) \<and>
      fst ` set (c_workers (fold assignOne tps c)) = fst ` set (c_workers c) \<union> set tps \<and>
      c_closed (fold assignOne tps c) = c_closed c" if "ownership c" for tps c
    using that
  proof (induction tps arbitrary: c)
    case (Cons tp tps)
    from Cons.IH [of "assignOne tp c"] assignOne_ownership [OF Cons.prems, of tp] show ?case by auto
  qed simp
  with assms show ?thesis by (simp add: onAssigned_def)
qed

text \<open>Taking workers out of the map: each is taken once and nothing else goes.\<close>

lemma takeLoop_spec:
  assumes "distinct (map fst ws)" "takeLoop tps ws = (taken, rest)"
  shows "rest = filter (\<lambda>x. fst x \<notin> set tps) ws \<and>
    mset (map snd ws) = mset taken + mset (map snd rest)"
  using assms
proof (induction tps arbitrary: ws taken)
  case (Cons tp tps)
  show ?case
  proof (cases "map_of ws tp")
    case None
    then have "tp \<notin> fst ` set ws" by (simp add: map_of_eq_None_iff)
    then have "filter (\<lambda>x. fst x \<notin> set (tp # tps)) ws = filter (\<lambda>x. fst x \<notin> set tps) ws"
      by (intro filter_cong) auto
    with Cons None show ?thesis by simp
  next
    case (Some w)
    let ?ws = "filter (\<lambda>x. fst x \<noteq> tp) ws"
    obtain t where t: "takeLoop tps ?ws = (t, rest)" "taken = w # t"
      using Cons.prems(2) Some by (auto split: prod.splits)
    have d: "distinct (map fst ?ws)" using Cons.prems(1) by (simp add: distinct_map_filter)
    have r: "rest = filter (\<lambda>x. fst x \<notin> set tps) ?ws" "mset (map snd ?ws) = mset t + mset (map snd rest)"
      using Cons.IH [OF d t(1)] by auto
    have "filter (\<lambda>x. fst x = tp) ws = [(tp, w)]"
    proof -
      have w: "(tp, w) \<in> set ws" using Some by (simp add: map_of_SomeD)
      have "filter (\<lambda>x. fst x = fst (tp, w)) ws = [(tp, w)]"
        using filter_unique_key [of fst ws "(tp, w)"] Cons.prems(1) w by simp
      then show ?thesis by simp
    qed
    then have "mset ws = add_mset (tp, w) (mset ?ws)"
      using multiset_partition [of "mset ws" "\<lambda>x. fst x = tp"] by (metis mset_filter mset.simps union_commute add_mset_add_single)
    from arg_cong [OF this, of "image_mset snd"]
    have "mset (map snd ws) = add_mset w (mset (map snd ?ws))" by simp
    with r t(2) show ?thesis by (simp add: conj_commute)
  qed
qed simp

lemma ownership_mset:
  assumes "ownership c" "distinct (map fst ws')" "set ws' \<subseteq> set (c_workers c)"
    and "mset (map snd (c_workers c)) = mset taken + mset (map snd ws')"
  shows "ownership (stopWorkers taken abort (c\<lparr>c_workers := ws'\<rparr>))"
proof -
  have m: "mset (map snd ws' @ map fst (c_stopped c) @ taken) =
      mset (map snd (c_workers c) @ map fst (c_stopped c))" using assms(4) by simp
  have d: "distinct (map snd ws' @ map fst (c_stopped c) @ taken)"
    "set (map snd ws' @ map fst (c_stopped c) @ taken) = {..<length (c_created c)}"
    using mset_eq_imp_distinct_iff [OF m] mset_eq_setD [OF m] assms(1) by (simp_all add: ownership_def)
  moreover have "map fst (map (\<lambda>w. (w, abort)) taken) = taken" by (simp add: comp_def)
  ultimately show ?thesis using assms(1-3)
    by (auto simp: ownership_def stopWorkers_def comp_def)
qed

lemma released_ownership:
  assumes "ownership c" "takeWorkers (Some a) c = (ws, c')"
  shows "ownership (stopWorkers ws abort c') \<and>
    fst ` set (c_workers (stopWorkers ws abort c')) = fst ` set (c_workers c) - set (partitions_of a) \<and>
    c_closed (stopWorkers ws abort c') = c_closed c"
proof -
  obtain rest where t: "takeLoop (partitions_of a) (c_workers c) = (ws, rest)" "c' = c\<lparr>c_workers := rest\<rparr>"
    using assms(2) by (auto simp: takeWorkers_def split: prod.splits)
  have d: "distinct (map fst (c_workers c))" using assms(1) by (simp add: ownership_def)
  note r = takeLoop_spec [OF d t(1)]
  then have "distinct (map fst rest)" "set rest \<subseteq> set (c_workers c)" using d by (auto simp: distinct_map_filter)
  with ownership_mset [OF assms(1)] r t(2) show ?thesis by (auto simp: stopWorkers_def)
qed

lemma Close_ownership:
  assumes "ownership c"
  shows "ownership (Close c) \<and> c_closed (Close c) \<and>
    fst ` set (c_workers (Close c)) = (if c_closed c then fst ` set (c_workers c) else {})"
proof (cases "c_closed c")
  case False
  have "ownership (stopWorkers (map snd (c_workers c)) False (c\<lparr>c_workers := []\<rparr>))"
    by (rule ownership_mset [OF assms]) simp_all
  with False show ?thesis
    by (simp add: Close_def takeWorkers_def ownership_def stopWorkers_def)
qed (use assms in \<open>simp add: Close_def\<close>)

lemma on_event_ownership:
  assumes "ownership c"
  shows "ownership (on_event e c) \<and> abs_consumer (on_event e c) = owned e (abs_consumer c)"
proof (cases e)
  case (Assigned a)
  with onAssigned_ownership [OF assms, of a] show ?thesis by (simp add: abs_consumer_def)
next
  case (Revoked a)
  obtain ws c' where t: "takeWorkers (Some a) c = (ws, c')" by force
  with Revoked released_ownership [OF assms t] show ?thesis by (simp add: abs_consumer_def onRevoked_def)
next
  case (Lost a)
  obtain ws c' where t: "takeWorkers (Some a) c = (ws, c')" by force
  with Lost released_ownership [OF assms t] show ?thesis by (simp add: abs_consumer_def onLost_def)
next
  case (Failed x)
  with assms show ?thesis by (simp add: fail_def abs_consumer_def ownership_def)
next
  case Closing
  with Close_ownership [OF assms] show ?thesis by (simp add: abs_consumer_def)
qed

lemma NewConsumer_Inr:
  assumes "NewConsumer newClient config router rec = Inr c"
  shows "ownership c" "abs_consumer c = ({}, False)" "c_fatalErr c = None" "\<not> c_fatalCancelled c"
    "c_config c = Config_withDefaults config"
  using assms by (auto simp: NewConsumer_def Let_def ownership_def abs_consumer_def split: if_splits option.splits)

lemma fold_on_event_ownership:
  "ownership c \<Longrightarrow> ownership (fold on_event es c) \<and>
     abs_consumer (fold on_event es c) = fold owned es (abs_consumer c)"
proof (induction es arbitrary: c)
  case (Cons e es)
  with on_event_ownership [OF Cons.prems, of e] Cons.IH [of "on_event e c"] show ?case by simp
qed simp

section \<open>Fatal errors\<close>

text \<open>The first report wins, and a report is seen by everything that runs under the fatal context.\<close>

definition failures_of :: "event list \<Rightarrow> go_error list" where
  "failures_of es = concat (map (\<lambda>e. case e of Failed x \<Rightarrow> [x] | _ \<Rightarrow> []) es)"

lemma on_event_fatal:
  "c_fatalErr (on_event e c) = (case c_fatalErr c of Some x \<Rightarrow> Some x | None \<Rightarrow>
     (case e of Failed x \<Rightarrow> Some x | _ \<Rightarrow> None))"
proof -
  have "c_fatalErr (fold assignOne tps c) = c_fatalErr c" for tps
    by (induction tps arbitrary: c) (auto simp: assignOne_def split: option.splits)
  then show ?thesis
    by (cases e) (auto simp: onAssigned_def onRevoked_def onLost_def Close_def fail_def takeWorkers_def
        stopWorkers_def split: option.splits prod.splits)
qed

lemma fold_fatal:
  "c_fatalErr (fold on_event es c) = (case c_fatalErr c of Some x \<Rightarrow> Some x | None \<Rightarrow>
     (case failures_of es of [] \<Rightarrow> None | x # _ \<Rightarrow> Some x))"
proof (induction es arbitrary: c)
  case (Cons e es)
  have "c_fatalErr (fold on_event (e # es) c) = (case c_fatalErr (on_event e c) of Some x \<Rightarrow> Some x | None \<Rightarrow>
     (case failures_of es of [] \<Rightarrow> None | x # _ \<Rightarrow> Some x))"
    using Cons.IH by simp
  then show ?case unfolding on_event_fatal by (cases e; cases "c_fatalErr c") (simp_all add: failures_of_def)
qed (simp add: failures_of_def split: option.split)

text \<open>The errors the caller's context had at the points where \<^verbatim>\<open>Run\<close> may return.\<close>

lemma Consumer_Run_result:
  assumes "Consumer_Run enqueue rs c s = (Some res, c', s')"
  shows "res = Some consumer_closed \<and> (\<exists>r \<in> set rs. rd_clientClosed r) \<or>
    (case c_fatalErr c' of Some e \<Rightarrow> res = Some e
     | None \<Rightarrow> \<exists>r \<in> set rs. res = rd_ctxErr r \<or> res = rd_ctxErrAfter r)"
  using assms
proof (induction rs arbitrary: c s)
  case (Cons r rs)
  let ?c1 = "fold on_event (rd_before r) c"
  show ?case
  proof (cases "rd_clientClosed r \<or> rd_ctxErr r \<noteq> None \<or> c_fatalCancelled ?c1 \<and> rd_fatalSeen r")
    case True
    with Cons.prems show ?thesis
      by (auto simp: Let_def runResult_def fatal_def split: if_splits option.splits)
  next
    case False
    obtain x s1 where d: "dispatch enqueue ?c1 (rd_fetches r) s = (x, s1)" by force
    show ?thesis
    proof (cases x)
      case None
      with False d Cons.prems have "Consumer_Run enqueue rs (fold on_event (rd_during r) ?c1) s1 = (Some res, c', s')"
        by (auto simp: Let_def split: if_splits)
      from Cons.IH [OF this] show ?thesis by (auto split: option.splits)
    next
      case (Some e)
      with False d Cons.prems show ?thesis
        by (auto simp: Let_def runResult_def fatal_def split: option.splits if_splits)
    qed
  qed
qed simp

section \<open>Dispatch\<close>

text \<open>The batches a poll is for: non-empty, with a worker, each to the worker of its own partition.\<close>

definition targets :: "Consumer \<Rightarrow> fetch list \<Rightarrow> (nat \<times> krecord list) list" where
  "targets c fs =
     concat (map (\<lambda>f. case workerFor (ft_tp f) c of
       None \<Rightarrow> [] | Some w \<Rightarrow> if ft_Records f = [] then [] else [(w, ft_Records f)]) fs)"

text \<open>Offering batches in order until one fails for another reason than a stopped worker.\<close>

fun offer_all :: "'s enqueuer \<Rightarrow> (nat \<times> krecord list) list \<Rightarrow> 's \<Rightarrow> go_error option \<times> 's" where
  "offer_all enqueue [] s = (None, s)"
| "offer_all enqueue ((w, recs) # bs) s =
     (case enqueue w recs s of
        (None, s') \<Rightarrow> offer_all enqueue bs s'
      | (Some e, s') \<Rightarrow> if errors_Is e errWorkerStopped then offer_all enqueue bs s' else (Some e, s'))"

lemma dispatchLoop_error: "dispatchLoop enqueue c (Some e) fs s = (Some e, s)"
  by (induction fs) simp_all

lemma dispatchLoop_offers: "dispatchLoop enqueue c None fs s = offer_all enqueue (targets c fs) s"
proof (induction fs arbitrary: s)
  case (Cons f fs)
  then show ?case
    by (auto simp: targets_def dispatchLoop_error split: option.split prod.split)
qed (simp add: targets_def)

section \<open>Properties\<close>

text \<open>
  C28. Partition ownership.  Whatever sequence of assignments, revocations, losses, fatal reports and closing
  the client delivers, the consumer has exactly one live worker for each partition it owns and none for any
  other; every worker it ever created is either that one or was stopped exactly once, so no two workers of a
  partition are ever in the map and none is leaked or stopped twice.
\<close>

theorem consumer_owns_partitions:
  fixes es :: "event list"
  assumes "NewConsumer newClient config router rec = Inr c0"
  defines "c \<equiv> fold on_event es c0"
  shows "ownership c \<and> (fst ` set (c_workers c), c_closed c) = fold owned es ({}, False) \<and>
    (\<forall>w < length (c_created c). (c_created c ! w, w) \<in> set (c_workers c) \<or> (\<exists>abort. (w, abort) \<in> set (c_stopped c)))"
proof -
  note new = NewConsumer_Inr [OF assms(1)]
  have o: "ownership c" "abs_consumer c = fold owned es ({}, False)"
    using fold_on_event_ownership [OF new(1), of es] new(2) by (simp_all add: c_def)
  have "(c_created c ! w, w) \<in> set (c_workers c) \<or> (\<exists>abort. (w, abort) \<in> set (c_stopped c))"
    if "w < length (c_created c)" for w
  proof -
    have "w \<in> snd ` set (c_workers c) \<union> fst ` set (c_stopped c)" using that o(1) by (simp add: ownership_def)
    then show ?thesis using o(1) by (fastforce simp: ownership_def)
  qed
  with o show ?thesis by (simp add: abs_consumer_def)
qed


text \<open>A consumer of one partition that loses it again.\<close>

definition sample_config :: Config where
  "sample_config =
     \<lparr>cf_Brokers = [''b''], cf_ConsumerGroup = ''g'', cf_MeterTopic = ''t'', cf_HeartbeatTopic = ''h'',
      cf_ActuationResponseTopic = ''a'', cf_MaxConcurrentHandlers = 0, cf_PartitionQueueDepth = 0,
      cf_Retry = DefaultRetryPolicy, cf_SessionTimeout = 0, cf_HeartbeatInterval = 0, cf_FetchMaxBytes = 0,
      cf_MaxPartitionBytes = 0, cf_ExtraOpts = []\<rparr>"

definition sample_consumer :: Consumer where
  "sample_consumer =
     \<lparr>c_config = Config_withDefaults sample_config, c_workers = [], c_created = [], c_stopped = [],
      c_workerCancelled = False, c_fatalCancelled = False, c_fatalErr = None, c_closed = False\<rparr>"

theorem consumer_owns_partitions_witness:
  "c_workers (fold on_event [Assigned [(''t'', [0, 1])], Revoked [(''t'', [0])]] sample_consumer) =
     [(\<lparr>tp_topic = ''t'', tp_partition = 1\<rparr>, 1)] \<and>
   fst ` set (c_workers (fold on_event [Assigned [(''t'', [0, 1])], Revoked [(''t'', [0])]] sample_consumer)) =
     fst (fold owned [Assigned [(''t'', [0, 1])], Revoked [(''t'', [0])]] ({}, False))"
proof -
  have n: "NewConsumer (\<lambda>_. None) sample_config (Some sample_router) (Some pg_recorder) = Inr sample_consumer"
    by (simp add: NewConsumer_def sample_consumer_def Let_def)
  from consumer_owns_partitions [OF n, of "[Assigned [(''t'', [0, 1])], Revoked [(''t'', [0])]]"] show ?thesis
    by (simp add: sample_consumer_def onAssigned_def partitions_of_def assignOne_def workerFor_def onRevoked_def
        takeWorkers_def stopWorkers_def)
qed

definition sample_round :: round where
  "sample_round =
     \<lparr>rd_before = [Failed (errors_New ''x''), Failed (errors_New ''y'')], rd_clientClosed = False,
      rd_ctxErr = None, rd_fatalSeen = True, rd_fetches = [], rd_during = [], rd_ctxErrAfter = None\<rparr>"


end
