(* ===== verification/HouseReader.thy ===== *)
theory HouseReader
  imports World
begin

text \<open>
  \<^verbatim>\<open>internal/store/postgres/house_reader.go\<close> with the row types of \<^verbatim>\<open>query_types.go\<close>: houses joined with their grid
  and with their owner, in keyset pages or one at a time.  A query is one exchange with the server.
\<close>

record HouseInfoRow =
  hi_HouseID :: string
  hi_GridID :: string
  hi_GridDisplayName :: string
  hi_MeterID :: string
  hi_DeviceClass :: string
  hi_RatedSolarKw :: "float64 option"
  hi_OwnerUserID :: "string option"

record FlexibleAssetRow =
  fx_AssetID :: string
  fx_AssetType :: string
  fx_CapacityKwh :: float64
  fx_MaxChargeKw :: float64
  fx_MaxDischargeKw :: float64
  fx_V2GCapable :: "bool option"

record HouseFilter =
  hf_OwnerUserID :: string
  hf_GridID :: string
  hf_AfterHouseID :: string
  hf_Limit :: int

text \<open>\<^verbatim>\<open>houseSource\<close> and \<^verbatim>\<open>houseInfoColumns\<close>: the left joins and the coalesced columns.\<close>

definition approved_owner :: "string \<Rightarrow> registrations_row \<Rightarrow> bool" where
  "approved_owner meter r \<longleftrightarrow>
     r_meter_id r = meter \<and> r_approval_status r = ''APPROVED'' \<and> r_role r = ''PRIMARY_OWNER''"

definition owner_of :: "tables \<Rightarrow> houses_row \<Rightarrow> string option" where
  "owner_of T h =
     (case h_meter_id h of None \<Rightarrow> None
      | Some m \<Rightarrow> map_option r_user_id (find (approved_owner m) (t_meter_registrations T)))"

definition houseSource :: "tables \<Rightarrow> houses_row \<Rightarrow> HouseInfoRow" where
  "houseSource T h =
     \<lparr>hi_HouseID = h_house_id h, hi_GridID = h_grid_id h,
      hi_GridDisplayName =
        (case find (\<lambda>g. g_grid_id g = h_grid_id h) (t_grids T) of None \<Rightarrow> []
         | Some g \<Rightarrow> (case g_display_name g of None \<Rightarrow> [] | Some n \<Rightarrow> n)),
      hi_MeterID = (case h_meter_id h of None \<Rightarrow> [] | Some m \<Rightarrow> m),
      hi_DeviceClass = h_device_class h, hi_RatedSolarKw = h_rated_solar_kw h,
      hi_OwnerUserID = owner_of T h\<rparr>"

definition selected :: "HouseFilter \<Rightarrow> HouseInfoRow \<Rightarrow> bool" where
  "selected f h \<longleftrightarrow>
     (hf_OwnerUserID f = [] \<or> hi_OwnerUserID h = Some (hf_OwnerUserID f)) \<and>
     (hf_GridID f = [] \<or> hi_GridID h = hf_GridID f)"

definition listHousesSQL :: "HouseFilter \<Rightarrow> int \<Rightarrow> tables \<Rightarrow> (sql_error + HouseInfoRow list) \<times> tables" where
  "listHousesSQL f now T =
     (Inr (take (nat (hf_Limit f))
        (filter (\<lambda>h. hf_AfterHouseID f < hi_HouseID h)
          (filter (selected f) (sort_key hi_HouseID (map (houseSource T) (t_houses T)))))), T)"

definition getHouseSQL :: "string \<Rightarrow> int \<Rightarrow> tables \<Rightarrow> (sql_error + HouseInfoRow) \<times> tables" where
  "getHouseSQL houseID now T =
     (case find (\<lambda>h. h_house_id h = houseID) (t_houses T) of
        None \<Rightarrow> (Inl NoRows, T)
      | Some h \<Rightarrow> (Inr (houseSource T h), T))"

definition asset_info :: "assets_row \<Rightarrow> FlexibleAssetRow" where
  "asset_info a =
     \<lparr>fx_AssetID = a_asset_id a, fx_AssetType = a_asset_type a, fx_CapacityKwh = a_capacity_kwh a,
      fx_MaxChargeKw = a_max_charge_kw a, fx_MaxDischargeKw = a_max_discharge_kw a, fx_V2GCapable = a_v2g_capable a\<rparr>"

definition houseAssetsSQL :: "string \<Rightarrow> int \<Rightarrow> tables \<Rightarrow> (sql_error + FlexibleAssetRow list) \<times> tables" where
  "houseAssetsSQL houseID now T =
     (Inr (map asset_info (sort_key a_asset_id (filter (\<lambda>a. a_house_id a = houseID) (t_flexible_assets T)))), T)"

definition Store_ListHouses :: "HouseFilter \<Rightarrow> (pg, HouseInfoRow list) act" where
  "Store_ListHouses f = onSql (sqlErrorf ''postgres: list houses: '') (stmt (listHousesSQL f))"

definition house_not_found :: "string \<Rightarrow> go_error" where
  "house_not_found houseID = Errorf_w (''house '' @ go_quote houseID @ '': '') (sentinel_error ErrNotFound ''domain: not found'')"

definition get_house_error :: "string \<Rightarrow> sql_error \<Rightarrow> go_error" where
  "get_house_error houseID e =
     (if e = NoRows then house_not_found houseID else sqlErrorf ''postgres: get house: '' e)"

definition Store_GetHouse :: "string \<Rightarrow> (pg, HouseInfoRow \<times> FlexibleAssetRow list) act" where
  "Store_GetHouse houseID =
     andThen (onSql (get_house_error houseID) (stmt (getHouseSQL houseID))) (\<lambda>h.
     andThen (onSql (sqlErrorf ''postgres: house assets: '') (stmt (houseAssetsSQL houseID))) (\<lambda>assets.
     ret (h, assets)))"

end
