(* ===== verification/Energy.thy ===== *)
theory Energy
  imports World
begin

text \<open>
  \<^verbatim>\<open>internal/store/postgres/energy_reader.go\<close>: metered energy of one house over a time range, split into flows
  between the panels, the home, the storage and the grid.  \<open>fl\<close> is the rounding of the server's arithmetic
  and \<open>time_bucket\<close> the function of the time-series extension; both are parameters.  Stored readings are
  finite (\<^verbatim>\<open>decoder.go\<close> admits no others), so a value is its rational number.
\<close>

section \<open>Rows\<close>

record EnergyTotals =
  et_GeneratedKwh :: rat
  et_ConsumedKwh :: rat
  et_ExportedKwh :: rat
  et_ImportedKwh :: rat
  et_StorageChargedKwh :: rat
  et_StorageDischargedKwh :: rat

record EnergyFlows =
  ef_SolarToHomeKwh :: rat
  ef_SolarToStorageKwh :: rat
  ef_SolarToGridKwh :: rat
  ef_GridToHomeKwh :: rat
  ef_GridToStorageKwh :: rat
  ef_StorageToHomeKwh :: rat
  ef_StorageToGridKwh :: rat

record EnergyBucketRow =
  eb_Start :: int
  eb_Energy :: EnergyTotals
  eb_CoveredHours :: rat

record EnergySummaryRow =
  es_Totals :: EnergyTotals
  es_Flows :: EnergyFlows
  es_PeakConsumptionKw :: "float64 option"
  es_PeakTime :: "int option"

definition num :: "float64 \<Rightarrow> rat" where
  "num v = (case v of Fin a \<Rightarrow> a | _ \<Rightarrow> 0)"

definition sql_sum :: "(rat \<Rightarrow> rat) \<Rightarrow> rat list \<Rightarrow> rat" where
  "sql_sum fl xs = foldl (\<lambda>a x. fl (a + x)) 0 xs"

definition maxReadingSeconds :: rat where "maxReadingSeconds = 30"

section \<open>The readings of a range\<close>

text \<open>The common table expressions \<^verbatim>\<open>s\<close>, \<^verbatim>\<open>r\<close>, \<^verbatim>\<open>f\<close> and \<^verbatim>\<open>g\<close>.\<close>

record flow_row =
  fw_time :: int
  fw_solar :: rat
  fw_cons :: rat
  fw_net :: rat
  fw_charge :: rat
  fw_discharge :: rat
  fw_dt :: rat
  fw_solar_home :: rat
  fw_solar_storage :: rat
  fw_storage_home :: rat

definition storage_at :: "string \<Rightarrow> int \<Rightarrow> int \<Rightarrow> meter_row \<Rightarrow> tables \<Rightarrow> storage_row list" where
  "storage_at house start finish m T =
     filter (\<lambda>s. s_house_id s = house \<and> start \<le> s_time s \<and> s_time s < finish \<and>
                 s_time s = m_time m \<and> s_meter_id s = m_meter_id m) (t_storage_readings T)"

text \<open>\<^verbatim>\<open>COALESCE(LEAD(time) OVER (ORDER BY time), end)\<close>.\<close>

fun with_lead :: "int \<Rightarrow> meter_row list \<Rightarrow> (meter_row \<times> int) list" where
  "with_lead finish [] = []"
| "with_lead finish [m] = [(m, finish)]"
| "with_lead finish (m # n # ms) = (m, m_time n) # with_lead finish (n # ms)"

definition flow_of :: "(rat \<Rightarrow> rat) \<Rightarrow> string \<Rightarrow> int \<Rightarrow> int \<Rightarrow> tables \<Rightarrow> meter_row \<times> int \<Rightarrow> flow_row" where
  "flow_of fl house start finish T = (\<lambda>(m, lead).
     let ss = storage_at house start finish m T;
         solar = num (m_solar_kw m); cons = num (m_consumption_kw m);
         charge = sql_sum fl (map (\<lambda>s. max (num (s_power_kw s)) 0) ss);
         discharge = sql_sum fl (map (\<lambda>s. max (- num (s_power_kw s)) 0) ss);
         solar_home = min solar cons in
     \<lparr>fw_time = m_time m, fw_solar = solar, fw_cons = cons, fw_net = num (m_net_kw m),
      fw_charge = charge, fw_discharge = discharge,
      fw_dt = fl (min (of_int (lead - m_time m) / 10 ^ 9) maxReadingSeconds / 3600),
      fw_solar_home = solar_home,
      fw_solar_storage = min (fl (solar - solar_home)) charge,
      fw_storage_home = min discharge (fl (cons - solar_home))\<rparr>)"

definition energyReadingsCTE :: "(rat \<Rightarrow> rat) \<Rightarrow> string \<Rightarrow> int \<Rightarrow> int \<Rightarrow> tables \<Rightarrow> flow_row list" where
  "energyReadingsCTE fl house start finish T =
     map (flow_of fl house start finish T)
       (with_lead finish (sort_key m_time
          (filter (\<lambda>m. m_house_id m = house \<and> start \<le> m_time m \<and> m_time m < finish) (t_meter_readings T))))"

definition sum_of :: "(rat \<Rightarrow> rat) \<Rightarrow> (flow_row \<Rightarrow> rat) \<Rightarrow> flow_row list \<Rightarrow> rat" where
  "sum_of fl f rows = sql_sum fl (map (\<lambda>r. fl (f r * fw_dt r)) rows)"

definition energySums :: "(rat \<Rightarrow> rat) \<Rightarrow> flow_row list \<Rightarrow> EnergyTotals \<times> EnergyFlows \<times> rat" where
  "energySums fl rows =
     (\<lparr>et_GeneratedKwh = sum_of fl fw_solar rows,
       et_ConsumedKwh = sum_of fl fw_cons rows,
       et_ExportedKwh = sum_of fl (\<lambda>r. max (fw_net r) 0) rows,
       et_ImportedKwh = sum_of fl (\<lambda>r. max (- fw_net r) 0) rows,
       et_StorageChargedKwh = sum_of fl fw_charge rows,
       et_StorageDischargedKwh = sum_of fl fw_discharge rows\<rparr>,
      \<lparr>ef_SolarToHomeKwh = sum_of fl fw_solar_home rows,
       ef_SolarToStorageKwh = sum_of fl fw_solar_storage rows,
       ef_SolarToGridKwh = sum_of fl (\<lambda>r. fl (fl (fw_solar r - fw_solar_home r) - fw_solar_storage r)) rows,
       ef_GridToHomeKwh = sum_of fl (\<lambda>r. fl (fl (fw_cons r - fw_solar_home r) - fw_storage_home r)) rows,
       ef_GridToStorageKwh = sum_of fl (\<lambda>r. fl (fw_charge r - fw_solar_storage r)) rows,
       ef_StorageToHomeKwh = sum_of fl fw_storage_home rows,
       ef_StorageToGridKwh = sum_of fl (\<lambda>r. fl (fw_discharge r - fw_storage_home r)) rows\<rparr>,
      sql_sum fl (map fw_dt rows))"

section \<open>The queries\<close>

definition energySeriesSQL ::
    "(rat \<Rightarrow> rat) \<Rightarrow> (int \<Rightarrow> int) \<Rightarrow> string \<Rightarrow> int \<Rightarrow> int \<Rightarrow> int \<Rightarrow> tables \<Rightarrow> (sql_error + EnergyBucketRow list) \<times> tables" where
  "energySeriesSQL fl bucket house start finish now T =
     (let rows = energyReadingsCTE fl house start finish T in
      (Inr (map (\<lambda>b. case energySums fl (filter (\<lambda>r. bucket (fw_time r) = b) rows) of (totals, flows, covered) \<Rightarrow>
                   \<lparr>eb_Start = b, eb_Energy = totals, eb_CoveredHours = covered\<rparr>)
             (sort (remdups (map (\<lambda>r. bucket (fw_time r)) rows)))), T))"

definition energySummarySQL ::
    "(rat \<Rightarrow> rat) \<Rightarrow> string \<Rightarrow> int \<Rightarrow> int \<Rightarrow> int \<Rightarrow> tables \<Rightarrow> (sql_error + EnergyTotals \<times> EnergyFlows \<times> rat) \<times> tables" where
  "energySummarySQL fl house start finish now T = (Inr (energySums fl (energyReadingsCTE fl house start finish T)), T)"

text \<open>\<^verbatim>\<open>ORDER BY consumption_kw DESC, time ASC LIMIT 1\<close>.\<close>

definition peak_before :: "meter_row \<Rightarrow> meter_row \<Rightarrow> bool" where
  "peak_before m n \<longleftrightarrow>
     pg_lt (m_consumption_kw n) (m_consumption_kw m) \<or>
     m_consumption_kw n = m_consumption_kw m \<and> m_time m \<le> m_time n"

fun peak_row :: "meter_row list \<Rightarrow> meter_row option" where
  "peak_row [] = None"
| "peak_row (m # ms) =
     (case peak_row ms of None \<Rightarrow> Some m | Some n \<Rightarrow> if peak_before m n then Some m else Some n)"

definition peakDemandSQL :: "string \<Rightarrow> int \<Rightarrow> int \<Rightarrow> int \<Rightarrow> tables \<Rightarrow> (sql_error + float64 \<times> int) \<times> tables" where
  "peakDemandSQL house start finish now T =
     (case peak_row (filter (\<lambda>m. m_house_id m = house \<and> start \<le> m_time m \<and> m_time m < finish) (t_meter_readings T)) of
        None \<Rightarrow> (Inl NoRows, T)
      | Some m \<Rightarrow> (Inr (m_consumption_kw m, m_time m), T))"

definition EnergySeries ::
    "(rat \<Rightarrow> rat) \<Rightarrow> (rat \<Rightarrow> string \<Rightarrow> int \<Rightarrow> int) \<Rightarrow> string \<Rightarrow> int \<Rightarrow> int \<Rightarrow> int \<Rightarrow> string \<Rightarrow> (pg, EnergyBucketRow list) act" where
  "EnergySeries fl time_bucket houseID start finish width tz =
     onSql (sqlErrorf ''postgres: energy series: '')
       (stmt (energySeriesSQL fl (time_bucket (of_int width / 10 ^ 9) tz) houseID start finish))"

definition EnergySummary :: "(rat \<Rightarrow> rat) \<Rightarrow> string \<Rightarrow> int \<Rightarrow> int \<Rightarrow> (pg, EnergySummaryRow) act" where
  "EnergySummary fl houseID start finish =
     andThen (onSql (sqlErrorf ''postgres: energy summary: '') (stmt (energySummarySQL fl houseID start finish)))
       (\<lambda>(totals, flows, covered) p.
     (case stmt (peakDemandSQL houseID start finish) p of
        (Inl NoRows, p') \<Rightarrow>
          (Inr \<lparr>es_Totals = totals, es_Flows = flows, es_PeakConsumptionKw = None, es_PeakTime = None\<rparr>, p')
      | (Inl e, p') \<Rightarrow> (Inl (sqlErrorf ''postgres: peak demand: '' e), p')
      | (Inr (kw, t), p') \<Rightarrow>
          (Inr \<lparr>es_Totals = totals, es_Flows = flows, es_PeakConsumptionKw = Some kw, es_PeakTime = Some t\<rparr>, p')))"


section \<open>Sums\<close>

lemma foldl_shift: "foldl (\<lambda>a x. a + x) (c :: rat) xs = c + sum_list xs"
  by (induction xs arbitrary: c) (simp_all add: algebra_simps)

lemma sql_sum_exact: "sql_sum id xs = sum_list xs"
  by (simp add: sql_sum_def foldl_shift)

lemma sum_of_exact: "sum_of id f rows = sum_list (map (\<lambda>r. f r * fw_dt r) rows)"
  by (simp add: sum_of_def sql_sum_exact)

text \<open>Documented behaviour of rounding to nearest: monotone, idempotent, exact on small integers.\<close>

definition rounds :: "(rat \<Rightarrow> rat) \<Rightarrow> bool" where
  "rounds fl \<longleftrightarrow> mono fl \<and> (\<forall>x. fl (fl x) = fl x) \<and> fl 0 = 0 \<and> fl 1 = 1 \<and> fl 100 = 100"

lemma rounds_le: "rounds fl \<Longrightarrow> x \<le> y \<Longrightarrow> fl x \<le> fl y"
  by (simp add: rounds_def monoD)

lemma rounds_nonneg: "rounds fl \<Longrightarrow> 0 \<le> x \<Longrightarrow> 0 \<le> fl x"
  using rounds_le [of fl 0 x] by (simp add: rounds_def)

lemma foldl_rounds_mono:
  assumes "rounds fl" "list_all2 (\<le>) xs ys" "a \<le> b"
  shows "foldl (\<lambda>a x. fl (a + x)) a xs \<le> foldl (\<lambda>a x. fl (a + x)) b ys"
  using assms(2,3)
proof (induction xs ys arbitrary: a b rule: list_all2_induct)
  case (Cons x xs y ys)
  then have "fl (a + x) \<le> fl (b + y)" using assms(1) by (simp add: rounds_le)
  with Cons show ?case by simp
qed simp

lemma sql_sum_mono: "rounds fl \<Longrightarrow> list_all2 (\<le>) xs ys \<Longrightarrow> sql_sum fl xs \<le> sql_sum fl ys"
  by (simp add: sql_sum_def foldl_rounds_mono)

lemma sql_sum_nonneg:
  assumes "rounds fl" "\<And>x. x \<in> set xs \<Longrightarrow> 0 \<le> x"
  shows "0 \<le> sql_sum fl xs"
proof -
  have "foldl (\<lambda>a x. fl (a + x)) 0 (map (\<lambda>_. 0) ys) = 0" for ys :: "rat list"
    using assms(1) by (induction ys) (simp_all add: rounds_def)
  moreover have "sql_sum fl (map (\<lambda>_. 0) xs) \<le> sql_sum fl xs"
    using assms by (intro sql_sum_mono) (auto simp: list_all2_conv_all_nth)
  ultimately show ?thesis by (simp add: sql_sum_def)
qed

lemma sum_of_nonneg:
  assumes "rounds fl" "\<And>r. r \<in> set rows \<Longrightarrow> 0 \<le> f r \<and> 0 \<le> fw_dt r"
  shows "0 \<le> sum_of fl f rows"
  unfolding sum_of_def
proof (rule sql_sum_nonneg [OF assms(1)])
  fix x assume "x \<in> set (map (\<lambda>r. fl (f r * fw_dt r)) rows)"
  then obtain r where "r \<in> set rows" "x = fl (f r * fw_dt r)" by auto
  with assms(2) show "0 \<le> x" by (simp add: rounds_nonneg [OF assms(1)])
qed

lemma sum_of_mono:
  assumes "rounds fl" "\<And>r. r \<in> set rows \<Longrightarrow> f r \<le> g r \<and> 0 \<le> fw_dt r"
  shows "sum_of fl f rows \<le> sum_of fl g rows"
proof -
  have "fl (f r * fw_dt r) \<le> fl (g r * fw_dt r)" if "r \<in> set rows" for r
    by (rule rounds_le [OF assms(1)]) (use assms(2) [OF that] in \<open>simp add: mult_right_mono\<close>)
  then show ?thesis
    unfolding sum_of_def
    by (intro sql_sum_mono [OF assms(1)]) (simp add: list_all2_map1 list_all2_map2 list_all2_same)
qed

section \<open>What a reading says\<close>

text \<open>Stored readings: generation and consumption are not negative and the arithmetic represents them.\<close>

definition metered :: "(rat \<Rightarrow> rat) \<Rightarrow> tables \<Rightarrow> bool" where
  "metered fl T \<longleftrightarrow> (\<forall>m \<in> set (t_meter_readings T).
     0 \<le> num (m_solar_kw m) \<and> 0 \<le> num (m_consumption_kw m) \<and> fl (num (m_solar_kw m)) = num (m_solar_kw m))"

lemma with_lead_le:
  "sorted (map m_time ms) \<Longrightarrow> \<forall>m \<in> set ms. m_time m \<le> finish \<Longrightarrow> (m, l) \<in> set (with_lead finish ms) \<Longrightarrow>
     m \<in> set ms \<and> m_time m \<le> l \<and> l \<le> finish"
  by (induction finish ms rule: with_lead.induct) auto

lemma with_lead_times: "map fst (with_lead finish ms) = ms"
  by (induction finish ms rule: with_lead.induct) auto

definition row_ok :: "(rat \<Rightarrow> rat) \<Rightarrow> flow_row \<Rightarrow> bool" where
  "row_ok fl r \<longleftrightarrow> 0 \<le> fw_dt r \<and> 0 \<le> fw_solar r \<and> fl (fw_solar r) = fw_solar r \<and> 0 \<le> fw_cons r \<and>
     0 \<le> fw_charge r \<and> 0 \<le> fw_discharge r \<and> fw_solar_home r = min (fw_solar r) (fw_cons r) \<and>
     fw_solar_storage r = min (fl (fw_solar r - fw_solar_home r)) (fw_charge r) \<and>
     fw_storage_home r = min (fw_discharge r) (fl (fw_cons r - fw_solar_home r))"

lemma CTE_rows_ok:
  assumes "rounds fl" "metered fl T" "r \<in> set (energyReadingsCTE fl house start finish T)"
  shows "row_ok fl r"
proof -
  let ?ms = "sort_key m_time
    (filter (\<lambda>m. m_house_id m = house \<and> start \<le> m_time m \<and> m_time m < finish) (t_meter_readings T))"
  obtain m l where ml: "(m, l) \<in> set (with_lead finish ?ms)" and r: "r = flow_of fl house start finish T (m, l)"
    using assms(3) by (auto simp: energyReadingsCTE_def)
  have m: "m \<in> set (t_meter_readings T)" "m_time m \<le> l" using with_lead_le [OF _ _ ml] by auto
  have "0 \<le> fl (min (of_int (l - m_time m) / 10 ^ 9) maxReadingSeconds / 3600)"
    by (rule rounds_nonneg [OF assms(1)]) (use m(2) in \<open>simp add: maxReadingSeconds_def\<close>)
  with m(1) assms(1,2) show ?thesis
    unfolding r flow_of_def row_ok_def metered_def Let_def prod.case
    by (auto intro!: sql_sum_nonneg [OF assms(1)])
qed

lemma row_ok_flows:
  assumes "rounds fl" "row_ok fl r"
  shows "0 \<le> fw_solar_home r" "0 \<le> fw_solar_storage r" "0 \<le> fw_storage_home r"
    "0 \<le> fl (fl (fw_solar r - fw_solar_home r) - fw_solar_storage r)"
    "0 \<le> fl (fl (fw_cons r - fw_solar_home r) - fw_storage_home r)"
    "0 \<le> fl (fw_charge r - fw_solar_storage r)" "0 \<le> fl (fw_discharge r - fw_storage_home r)"
    "fl (fl (fw_solar r - fw_solar_home r) - fw_solar_storage r) \<le> fw_solar r"
proof -
  have home: "0 \<le> fw_solar_home r" "fw_solar_home r \<le> fw_solar r" "fw_solar_home r \<le> fw_cons r"
    using assms(2) by (auto simp: row_ok_def)
  have a: "0 \<le> fl (fw_solar r - fw_solar_home r)" "0 \<le> fl (fw_cons r - fw_solar_home r)"
    using home by (auto intro!: rounds_nonneg [OF assms(1)])
  have fs: "fl (fw_solar r) = fw_solar r" using assms(2) by (simp add: row_ok_def)
  show "0 \<le> fw_solar_home r" by (rule home)
  show s: "0 \<le> fw_solar_storage r" using a assms(2) by (auto simp: row_ok_def)
  show "0 \<le> fw_storage_home r" using a assms(2) by (auto simp: row_ok_def)
  show "0 \<le> fl (fl (fw_solar r - fw_solar_home r) - fw_solar_storage r)"
    "0 \<le> fl (fl (fw_cons r - fw_solar_home r) - fw_storage_home r)"
    "0 \<le> fl (fw_charge r - fw_solar_storage r)" "0 \<le> fl (fw_discharge r - fw_storage_home r)"
    using assms(2) by (auto simp: row_ok_def intro!: rounds_nonneg [OF assms(1)])
  have "fl (fw_solar r - fw_solar_home r) \<le> fl (fw_solar r)" using home by (intro rounds_le [OF assms(1)]) auto
  then have "fl (fw_solar r - fw_solar_home r) - fw_solar_storage r \<le> fw_solar r"
    using s fs by linarith
  from rounds_le [OF assms(1) this]
  show "fl (fl (fw_solar r - fw_solar_home r) - fw_solar_storage r) \<le> fw_solar r" by (simp only: fs)
qed

text \<open>Under any rounding no total and no flow is negative, and no more is exported than generated.\<close>

lemma energySums_signs:
  assumes "rounds fl" "\<And>r. r \<in> set rows \<Longrightarrow> row_ok fl r" "energySums fl rows = (t, f, h)"
  shows "0 \<le> et_GeneratedKwh t \<and> 0 \<le> et_ConsumedKwh t \<and> 0 \<le> et_ExportedKwh t \<and> 0 \<le> et_ImportedKwh t \<and>
    0 \<le> et_StorageChargedKwh t \<and> 0 \<le> et_StorageDischargedKwh t \<and>
    0 \<le> ef_SolarToHomeKwh f \<and> 0 \<le> ef_SolarToStorageKwh f \<and> 0 \<le> ef_SolarToGridKwh f \<and>
    0 \<le> ef_GridToHomeKwh f \<and> 0 \<le> ef_GridToStorageKwh f \<and> 0 \<le> ef_StorageToHomeKwh f \<and>
    0 \<le> ef_StorageToGridKwh f \<and> 0 \<le> h \<and> ef_SolarToGridKwh f \<le> et_GeneratedKwh t"
proof -
  note ok = assms(2) row_ok_flows [OF assms(1) assms(2)]
  have dt: "0 \<le> fw_dt r" if "r \<in> set rows" for r using assms(2) [OF that] by (simp add: row_ok_def)
  have sum: "0 \<le> sum_of fl g rows" if "\<And>r. r \<in> set rows \<Longrightarrow> 0 \<le> g r" for g
    using that dt by (intro sum_of_nonneg [OF assms(1)]) auto
  have base: "0 \<le> fw_solar r" "0 \<le> fw_cons r" "0 \<le> fw_charge r" "0 \<le> fw_discharge r" if "r \<in> set rows" for r
    using assms(2) [OF that] by (auto simp: row_ok_def)
  have "sum_of fl (\<lambda>r. fl (fl (fw_solar r - fw_solar_home r) - fw_solar_storage r)) rows \<le> sum_of fl fw_solar rows"
    using ok dt by (intro sum_of_mono [OF assms(1)]) auto
  moreover have "0 \<le> sql_sum fl (map fw_dt rows)" using dt by (intro sql_sum_nonneg [OF assms(1)]) auto
  ultimately show ?thesis
    using assms(3) by (auto simp: energySums_def intro!: sum base ok)
qed

text \<open>In exact arithmetic what leaves a source arrives somewhere.\<close>

lemma energySums_balance:
  assumes "energySums id rows = (t, f, h)"
  shows "ef_SolarToHomeKwh f + ef_SolarToStorageKwh f + ef_SolarToGridKwh f = et_GeneratedKwh t"
    "ef_SolarToHomeKwh f + ef_StorageToHomeKwh f + ef_GridToHomeKwh f = et_ConsumedKwh t"
    "ef_SolarToStorageKwh f + ef_GridToStorageKwh f = et_StorageChargedKwh t"
    "ef_StorageToHomeKwh f + ef_StorageToGridKwh f = et_StorageDischargedKwh t"
  using assms
  by (auto simp: energySums_def sum_of_exact sum_list_addf [symmetric] algebra_simps)

text \<open>The buckets of a series partition the readings, so their sums add up.\<close>

lemma sum_list_one: "distinct bs \<Longrightarrow> b \<in> set bs \<Longrightarrow> (\<Sum>x\<leftarrow>bs. if b = x then (c :: rat) else 0) = c"
proof (induction bs)
  case (Cons x bs)
  have "(\<Sum>x\<leftarrow>bs. if b = x then c else 0) = 0" if "b \<notin> set bs" for bs
    using that by (induction bs) auto
  with Cons show ?case by auto
qed simp

lemma sum_buckets:
  assumes "distinct bs" "\<And>r. r \<in> set rows \<Longrightarrow> key r \<in> set bs"
  shows "(\<Sum>b\<leftarrow>bs. \<Sum>r\<leftarrow>filter (\<lambda>r. key r = b) rows. (g r :: rat)) = (\<Sum>r\<leftarrow>rows. g r)"
  using assms(2)
proof (induction rows)
  case (Cons r rows)
  have "(\<Sum>x\<leftarrow>filter (\<lambda>x. key x = b) (r # rows). g x) =
      (if key r = b then g r else 0) + (\<Sum>x\<leftarrow>filter (\<lambda>x. key x = b) rows. g x)" for b
    by simp
  then show ?case
    using Cons sum_list_one [OF assms(1), of "key r" "g r"] by (simp add: sum_list_addf)
qed simp

lemma series_adds_up:
  assumes "energySeriesSQL id bucket house start finish now T = (Inr bs, T')"
  shows "(\<Sum>b\<leftarrow>bs. et_GeneratedKwh (eb_Energy b)) = sum_of id fw_solar (energyReadingsCTE id house start finish T)"
    "(\<Sum>b\<leftarrow>bs. et_ConsumedKwh (eb_Energy b)) = sum_of id fw_cons (energyReadingsCTE id house start finish T)"
    "(\<Sum>b\<leftarrow>bs. eb_CoveredHours b) = (\<Sum>r\<leftarrow>energyReadingsCTE id house start finish T. fw_dt r)"
    "sorted (map eb_Start bs)" "distinct (map eb_Start bs)"
proof -
  let ?rows = "energyReadingsCTE id house start finish T"
  let ?keys = "sort (remdups (map (\<lambda>r. bucket (fw_time r)) ?rows))"
  let ?mk = "\<lambda>b. case energySums id (filter (\<lambda>r. bucket (fw_time r) = b) ?rows) of (totals, flows, covered) \<Rightarrow>
    \<lparr>eb_Start = b, eb_Energy = totals, eb_CoveredHours = covered\<rparr>"
  have bs: "bs = map ?mk ?keys" using assms unfolding energySeriesSQL_def Let_def by blast
  have d: "distinct ?keys" by simp
  have k: "\<And>r. r \<in> set ?rows \<Longrightarrow> bucket (fw_time r) \<in> set ?keys" by simp
  show "(\<Sum>b\<leftarrow>bs. et_GeneratedKwh (eb_Energy b)) = sum_of id fw_solar ?rows"
    "(\<Sum>b\<leftarrow>bs. et_ConsumedKwh (eb_Energy b)) = sum_of id fw_cons ?rows"
    "(\<Sum>b\<leftarrow>bs. eb_CoveredHours b) = (\<Sum>r\<leftarrow>?rows. fw_dt r)"
    unfolding bs sum_of_exact
    by (simp_all add: energySums_def comp_def sum_of_exact sql_sum_exact sum_buckets [OF d k])
  have "map eb_Start bs = ?keys" unfolding bs by (simp add: comp_def energySums_def)
  then show "sorted (map eb_Start bs)" "distinct (map eb_Start bs)" by simp_all
qed

text \<open>No stretch of time is counted twice.\<close>

lemma sum_list_divide: "(\<Sum>x\<leftarrow>xs. f x) / (c :: rat) = (\<Sum>x\<leftarrow>xs. f x / c)"
  by (induction xs) (simp_all add: add_divide_distrib)

lemma with_lead_span:
  "(\<Sum>(m, l)\<leftarrow>with_lead finish ms. (of_int (l - m_time m) :: rat)) =
     (case ms of [] \<Rightarrow> 0 | m # _ \<Rightarrow> of_int (finish - m_time m))"
  by (induction finish ms rule: with_lead.induct) auto

lemma covered_bound:
  assumes "start \<le> finish"
  shows "(\<Sum>r\<leftarrow>energyReadingsCTE id house start finish T. fw_dt r) \<le> of_int (finish - start) / 10 ^ 9 / 3600"
proof -
  let ?ms = "sort_key m_time
    (filter (\<lambda>m. m_house_id m = house \<and> start \<le> m_time m \<and> m_time m < finish) (t_meter_readings T))"
  have "(\<Sum>r\<leftarrow>energyReadingsCTE id house start finish T. fw_dt r) \<le>
      (\<Sum>(m, l)\<leftarrow>with_lead finish ?ms. of_int (l - m_time m) / 10 ^ 9 / 3600)"
    unfolding energyReadingsCTE_def map_map comp_def
  proof (rule sum_list_mono)
    fix x assume "x \<in> set (with_lead finish ?ms)"
    have "min (of_int (snd x - m_time (fst x)) / 10 ^ 9) maxReadingSeconds / 3600 \<le>
        (of_int (snd x - m_time (fst x)) :: rat) / 10 ^ 9 / 3600"
      by (intro divide_right_mono min.cobounded1) simp
    then show "fw_dt (flow_of id house start finish T x) \<le> (case x of (m, l) \<Rightarrow> of_int (l - m_time m) / 10 ^ 9 / 3600)"
      by (simp add: flow_of_def Let_def split_def)
  qed
  also have "\<dots> = (\<Sum>(m, l)\<leftarrow>with_lead finish ?ms. of_int (l - m_time m)) / 10 ^ 9 / 3600"
    unfolding sum_list_divide by (simp add: split_def)
  also have "\<dots> \<le> of_int (finish - start) / 10 ^ 9 / 3600"
  proof -
    have "start \<le> m_time m" if "m \<in> set ?ms" for m using that by auto
    then have "(case ?ms of [] \<Rightarrow> 0 | m # _ \<Rightarrow> (of_int (finish - m_time m) :: rat)) \<le> of_int (finish - start)"
      using assms by (cases ?ms) auto
    then show ?thesis unfolding with_lead_span by (simp add: divide_right_mono)
  qed
  finally show ?thesis .
qed


definition energy_tables :: tables where
  "energy_tables = sample_tables\<lparr>
     t_meter_readings := map (\<lambda>n. meter_row_of ((sample_reading ''b1'' n)\<lparr>mr_EventTime := n * 10 ^ 10\<rparr>)) [1, 2]\<rparr>"


end
