(* ===== verification/Query.thy ===== *)
theory Query
  imports HouseReader GoStd Energy
begin

text \<open>
  \<^verbatim>\<open>internal/query\<close>: the read API over houses and readings.  Requests are validated, houses are read in keyset
  pages behind opaque tokens, and the optional owner scope is enforced.  The time zone database is a
  parameter.
\<close>

section \<open>Validation\<close>

definition defaultPageSize :: int where "defaultPageSize = 50"
definition maxPageSize :: int where "maxPageSize = 200"
definition maxRange :: int where "maxRange = 31 * 24 * ns_hour"
definition minBucketWidth :: int where "minBucketWidth = 5 * ns_minute"
definition maxBucketWidth :: int where "maxBucketWidth = 24 * ns_hour"
definition maxBuckets :: int where "maxBuckets = 5000"

definition pageSize :: "int \<Rightarrow> go_error + int" where
  "pageSize requested =
     (if requested < 0 then Inl (NewValidationError ''page_size'' ''must not be negative'')
      else if requested = 0 then Inr defaultPageSize
      else if requested > maxPageSize then Inr maxPageSize
      else Inr requested)"

definition encodePageToken :: "string \<Rightarrow> string" where
  "encodePageToken lastHouseID = b64_EncodeToString lastHouseID"

definition decodePageToken :: "string \<Rightarrow> go_error + string" where
  "decodePageToken token =
     (if token = [] then Inr []
      else case b64_DecodeString token of
        None \<Rightarrow> Inl (NewValidationError ''page_token'' ''is not a token returned by this service'')
      | Some d \<Rightarrow>
          if d = [] then Inl (NewValidationError ''page_token'' ''is not a token returned by this service'') else Inr d)"

text \<open>The zero time, and a difference of times as a saturated duration.\<close>

definition zero_time :: int where "zero_time = - 62135596800 * ns_second"

definition time_Sub :: "int \<Rightarrow> int \<Rightarrow> int" where
  "time_Sub t u = (if t - u > 2 ^ 63 - 1 then 2 ^ 63 - 1 else if t - u < - (2 ^ 63) then - (2 ^ 63) else t - u)"

definition validateRange :: "string \<Rightarrow> int \<Rightarrow> int \<Rightarrow> go_error option" where
  "validateRange houseID start finish =
     (if houseID = [] then Some (NewValidationError ''house_id'' ''is required'')
      else if start = zero_time then Some (NewValidationError ''start_time'' ''is required'')
      else if finish = zero_time then Some (NewValidationError ''end_time'' ''is required'')
      else if \<not> finish > start then Some (NewValidationError ''end_time'' ''must be after start_time'')
      else if time_Sub finish start > maxRange
      then Some (NewValidationError ''end_time'' ''range must not exceed 31 days'')
      else None)"

text \<open>Go's division truncates towards zero; the remainder has the sign of the dividend.\<close>

definition go_quot :: "int \<Rightarrow> int \<Rightarrow> int" where
  "go_quot a b = sgn a * sgn b * (\<bar>a\<bar> div \<bar>b\<bar>)"

definition go_rem :: "int \<Rightarrow> int \<Rightarrow> int" where
  "go_rem a b = a - b * go_quot a b"

definition validateBuckets :: "int \<Rightarrow> int \<Rightarrow> int \<Rightarrow> go_error option" where
  "validateBuckets start finish width =
     (if width < minBucketWidth \<or> width > maxBucketWidth
      then Some (NewValidationError ''bucket_width'' ''must be between 5 minutes and 1 day'')
      else let span = time_Sub finish start;
               buckets = (if go_rem span width \<noteq> 0 then go_quot span width + 1 else go_quot span width) in
        if buckets > maxBuckets
        then Some (NewValidationError ''bucket_width''
               (''range needs '' @ show_int buckets @ '' buckets; at most '' @ show_int maxBuckets @ '' are allowed''))
        else None)"

definition timeZone :: "(string \<Rightarrow> bool) \<Rightarrow> string \<Rightarrow> go_error + string" where
  "timeZone loadLocation name =
     (if name = [] then Inr ''UTC''
      else if name = ''Local'' then Inl (NewValidationError ''time_zone'' ''must be an IANA time zone name'')
      else if \<not> loadLocation name then Inl (NewValidationError ''time_zone'' ''must be an IANA time zone name'')
      else Inr name)"

section \<open>Houses\<close>

record House =
  ho_HouseInfoRow :: HouseInfoRow
  ho_Online :: bool
  ho_LastHeartbeatAt :: "int option"

record ListHousesParams =
  lp_OwnerUserID :: string
  lp_GridID :: string
  lp_PageSize :: int
  lp_PageToken :: string

record ListHousesResult =
  lr_Houses :: "House list"
  lr_NextPageToken :: string

definition withStatus :: "go_std \<Rightarrow> HouseInfoRow \<Rightarrow> (world, House) act" where
  "withStatus std row w =
     (case onRedis (GetHouseStatus std (hi_HouseID row)) w of
        (Inl e, w') \<Rightarrow>
          if errors_Is e RedisErrNotFound
          then (Inr \<lparr>ho_HouseInfoRow = row, ho_Online = False, ho_LastHeartbeatAt = None\<rparr>, w')
          else (Inl (Errorf_w ''house status: '' e), w')
      | (Inr status, w') \<Rightarrow>
          (Inr \<lparr>ho_HouseInfoRow = row, ho_Online = True, ho_LastHeartbeatAt = Some (hs_LastHeartbeatAt status)\<rparr>, w'))"

fun withStatuses :: "go_std \<Rightarrow> HouseInfoRow list \<Rightarrow> (world, House list) act" where
  "withStatuses std [] = ret []"
| "withStatuses std (r # rs) =
     andThen (withStatus std r) (\<lambda>h. andThen (withStatuses std rs) (\<lambda>hs. ret (h # hs)))"

definition Query_ListHouses :: "go_std \<Rightarrow> ListHousesParams \<Rightarrow> (world, ListHousesResult) act" where
  "Query_ListHouses std p =
     andThen (liftE (pageSize (lp_PageSize p))) (\<lambda>size.
     andThen (liftE (decodePageToken (lp_PageToken p))) (\<lambda>after.
     andThen (onPg (wrapErr (Errorf_w ''list houses: '')
                (Store_ListHouses \<lparr>hf_OwnerUserID = lp_OwnerUserID p, hf_GridID = lp_GridID p,
                   hf_AfterHouseID = after, hf_Limit = size + 1\<rparr>))) (\<lambda>rows.
     let page = (if int (length rows) > size then take (nat size) rows else rows);
         token = (if int (length rows) > size then encodePageToken (hi_HouseID (page ! nat (size - 1))) else []) in
     andThen (withStatuses std page) (\<lambda>houses.
     ret \<lparr>lr_Houses = houses, lr_NextPageToken = token\<rparr>))))"

definition ownedHouse :: "string \<Rightarrow> string \<Rightarrow> (world, HouseInfoRow \<times> FlexibleAssetRow list) act" where
  "ownedHouse houseID ownerUserID =
     andThen (onPg (wrapErr (\<lambda>e. if errors_Is e ErrNotFound then e else Errorf_w ''get house: '' e)
                (Store_GetHouse houseID))) (\<lambda>(row, assets).
     if ownerUserID \<noteq> [] \<and> (hi_OwnerUserID row = None \<or> hi_OwnerUserID row \<noteq> Some ownerUserID)
     then throw (house_not_found houseID)
     else ret (row, assets))"

definition Query_GetHouse :: "go_std \<Rightarrow> string \<Rightarrow> string \<Rightarrow> (world, House \<times> FlexibleAssetRow list) act" where
  "Query_GetHouse std houseID ownerUserID =
     (if houseID = [] then throw (NewValidationError ''house_id'' ''is required'')
      else andThen (ownedHouse houseID ownerUserID) (\<lambda>(row, assets).
        andThen (withStatus std row) (\<lambda>h. ret (h, assets))))"

definition latest_error :: "string \<Rightarrow> go_error \<Rightarrow> go_error" where
  "latest_error houseID e =
     (if errors_Is e RedisErrNotFound
      then Errorf_w (''no reading yet for house '' @ go_quote houseID @ '': '') (sentinel_error ErrNotFound ''domain: not found'')
      else Errorf_w ''latest reading: '' e)"

definition GetLatestReading :: "string \<Rightarrow> string \<Rightarrow> (world, MeterProjection) act" where
  "GetLatestReading houseID ownerUserID =
     (if houseID = [] then throw (NewValidationError ''house_id'' ''is required'')
      else andThen (ownedHouse houseID ownerUserID) (\<lambda>(row, assets).
        onRedis (wrapErr (latest_error houseID) (GetLatest (hi_GridID row) (hi_HouseID row)))))"

section \<open>Energy\<close>

record AveragePower =
  ap_SolarKw :: rat
  ap_ConsumptionKw :: rat
  ap_ExportKw :: rat
  ap_ImportKw :: rat

record EnergyBucket =
  bk_Start :: int
  bk_Energy :: EnergyTotals
  bk_AveragePower :: AveragePower

record EnergySeriesParams =
  sp_HouseID :: string
  sp_OwnerUserID :: string
  sp_Start :: int
  sp_End :: int
  sp_BucketWidth :: int
  sp_TimeZone :: string

record EnergySummaryParams =
  up_HouseID :: string
  up_OwnerUserID :: string
  up_Start :: int
  up_End :: int

record QueryEnergySummary =
  qs_Row :: EnergySummaryRow
  qs_SelfConsumptionPct :: "rat option"

definition averagePower :: "(rat \<Rightarrow> rat) \<Rightarrow> EnergyBucketRow \<Rightarrow> AveragePower" where
  "averagePower fl r =
     (if eb_CoveredHours r \<le> 0
      then \<lparr>ap_SolarKw = 0, ap_ConsumptionKw = 0, ap_ExportKw = 0, ap_ImportKw = 0\<rparr>
      else \<lparr>ap_SolarKw = fl (et_GeneratedKwh (eb_Energy r) / eb_CoveredHours r),
            ap_ConsumptionKw = fl (et_ConsumedKwh (eb_Energy r) / eb_CoveredHours r),
            ap_ExportKw = fl (et_ExportedKwh (eb_Energy r) / eb_CoveredHours r),
            ap_ImportKw = fl (et_ImportedKwh (eb_Energy r) / eb_CoveredHours r)\<rparr>)"

text \<open>What the service is built with: the standard library, the time zones, the arithmetic and \<^verbatim>\<open>time_bucket\<close>.\<close>

record query_env =
  qe_std :: go_std
  qe_loadLocation :: "string \<Rightarrow> bool"
  qe_fl :: "rat \<Rightarrow> rat"
  qe_time_bucket :: "rat \<Rightarrow> string \<Rightarrow> int \<Rightarrow> int"

definition guardE :: "go_error option \<Rightarrow> ('s, unit) act" where
  "guardE c = liftE (checkE c (Inr ()))"

definition GetEnergySeries :: "query_env \<Rightarrow> EnergySeriesParams \<Rightarrow> (world, EnergyBucket list) act" where
  "GetEnergySeries env p =
     andThen (guardE (validateRange (sp_HouseID p) (sp_Start p) (sp_End p))) (\<lambda>_.
     andThen (guardE (validateBuckets (sp_Start p) (sp_End p) (sp_BucketWidth p))) (\<lambda>_.
     andThen (liftE (timeZone (qe_loadLocation env) (sp_TimeZone p))) (\<lambda>tz.
     andThen (ownedHouse (sp_HouseID p) (sp_OwnerUserID p)) (\<lambda>_.
     andThen (onPg (wrapErr (Errorf_w ''energy series: '')
                (EnergySeries (qe_fl env) (qe_time_bucket env) (sp_HouseID p) (sp_Start p) (sp_End p)
                   (sp_BucketWidth p) tz))) (\<lambda>rows.
     ret (map (\<lambda>r. \<lparr>bk_Start = eb_Start r, bk_Energy = eb_Energy r, bk_AveragePower = averagePower (qe_fl env) r\<rparr>) rows))))))"

definition selfConsumption :: "(rat \<Rightarrow> rat) \<Rightarrow> EnergySummaryRow \<Rightarrow> rat option" where
  "selfConsumption fl row =
     (let generated = et_GeneratedKwh (es_Totals row) in
      if generated > 0
      then Some (fl (fl (fl (generated - ef_SolarToGridKwh (es_Flows row)) / generated) * 100))
      else None)"

definition GetEnergySummary :: "query_env \<Rightarrow> EnergySummaryParams \<Rightarrow> (world, QueryEnergySummary) act" where
  "GetEnergySummary env p =
     andThen (guardE (validateRange (up_HouseID p) (up_Start p) (up_End p))) (\<lambda>_.
     andThen (ownedHouse (up_HouseID p) (up_OwnerUserID p)) (\<lambda>_.
     andThen (onPg (wrapErr (Errorf_w ''energy summary: '')
                (EnergySummary (qe_fl env) (up_HouseID p) (up_Start p) (up_End p)))) (\<lambda>row.
     ret \<lparr>qs_Row = row, qs_SelfConsumptionPct = selfConsumption (qe_fl env) row\<rparr>)))"

section \<open>Owner scope\<close>

text \<open>The owner of a house as the tables have it.\<close>

definition owned_by :: "tables \<Rightarrow> string \<Rightarrow> string \<Rightarrow> bool" where
  "owned_by T houseID user \<longleftrightarrow> (\<exists>h \<in> set (t_houses T). h_house_id h = houseID \<and> owner_of T h = Some user)"

lemma keeps_onSql_read: "(\<And>now T. snd (q now T) = T) \<Longrightarrow> keeps id (onSql g (stmt q))"
  by (rule keeping) simp

lemma keeps_Store_GetHouse: "keeps id (Store_GetHouse houseID)"
  unfolding Store_GetHouse_def
  by (intro keeps_andThen keeps_ret keeps_onSql_read)
     (simp_all add: getHouseSQL_def houseAssetsSQL_def split: option.splits)

lemma Store_GetHouse_Inr:
  assumes "Store_GetHouse houseID p = (Inr (row, assets), q)"
  obtains h where "h \<in> set (t_houses (pg_tables p))" "h_house_id h = houseID" "row = houseSource (pg_tables p) h"
proof -
  obtain q1 where s: "stmt (getHouseSQL houseID) p = (Inr row, q1)"
    using assms by (auto simp: Store_GetHouse_def andThen_Inr_iff onSql_Inr_iff)
  obtain h where "find (\<lambda>h. h_house_id h = houseID) (t_houses (pg_tables p)) = Some h" "row = houseSource (pg_tables p) h"
    using stmt_InrD [OF s] by (auto simp: getHouseSQL_def split: option.splits)
  then show thesis using that by (auto dest: find_Some_in)
qed


lemma ownedHouse_scope:
  assumes "ownedHouse houseID owner w = (Inr (row, assets), w')" "owner \<noteq> []"
  shows "owned_by (pg_tables (w_pg w)) houseID owner"
proof -
  obtain p where s: "Store_GetHouse houseID (w_pg w) = (Inr (row, assets), p)" and o: "hi_OwnerUserID row = Some owner"
    using assms by (auto simp: ownedHouse_def andThen_Inr_iff inversion split: if_splits)
  from s obtain h where "h \<in> set (t_houses (pg_tables (w_pg w)))" "h_house_id h = houseID"
    "row = houseSource (pg_tables (w_pg w)) h" by (rule Store_GetHouse_Inr)
  with o show ?thesis by (auto simp: owned_by_def houseSource_def)
qed

lemma not_found_is [simp]: "errors_Is (house_not_found h) ErrNotFound"
  by (simp add: house_not_found_def)

lemma ownedHouse_hidden:
  assumes "pg_quiet (w_pg w)" "\<not> owned_by (pg_tables (w_pg w)) houseID owner" "owner \<noteq> []"
  shows "fst (ownedHouse houseID owner w) = Inl (house_not_found houseID)"
proof (cases "find (\<lambda>h. h_house_id h = houseID) (t_houses (pg_tables (w_pg w)))")
  case None
  with assms(1) show ?thesis
    by (simp add: ownedHouse_def andThen_def onPg_def wrapErr_def Store_GetHouse_def onSql_stmt_quiet getHouseSQL_def
        get_house_error_def)
next
  case (Some h)
  then have "h \<in> set (t_houses (pg_tables (w_pg w)))" "h_house_id h = houseID" by (auto dest: find_Some_in)
  with assms(2) have "owner_of (pg_tables (w_pg w)) h \<noteq> Some owner" by (auto simp: owned_by_def)
  with Some assms(1,3) show ?thesis
    by (auto simp: ownedHouse_def andThen_def onPg_def wrapErr_def Store_GetHouse_def onSql_stmt_quiet getHouseSQL_def
        houseAssetsSQL_def houseSource_def)
qed

lemma andThen_fst_Inl: "fst (m s) = Inl e \<Longrightarrow> fst (andThen m k s) = Inl e"
  by (auto simp: andThen_def split: prod.splits)

lemma guardE_apply: "guardE c s = (checkE c (Inr ()), s)"
  by (simp add: guardE_def)

lemma withStatuses_rows:
  "withStatuses std rows w = (Inr hs, w') \<Longrightarrow> map ho_HouseInfoRow hs = rows"
proof (induction rows arbitrary: w hs)
  case (Cons r rows)
  obtain h w1 hs' where h: "withStatus std r w = (Inr h, w1)" and t: "withStatuses std rows w1 = (Inr hs', w')" "hs = h # hs'"
    using Cons.prems by (auto simp: andThen_Inr_iff)
  have "ho_HouseInfoRow h = r"
    using h by (auto simp: withStatus_def split: prod.splits sum.splits if_splits)
  with Cons.IH [OF t(1)] t(2) show ?case by simp
qed simp

lemma Store_ListHouses_Inr:
  "Store_ListHouses f p = (Inr rows, q) \<Longrightarrow>
     rows = take (nat (hf_Limit f)) (filter (\<lambda>h. hf_AfterHouseID f < hi_HouseID h)
       (filter (selected f) (sort_key hi_HouseID (map (houseSource (pg_tables p)) (t_houses (pg_tables p))))))"
  by (auto simp: Store_ListHouses_def onSql_Inr_iff listHousesSQL_def dest!: stmt_InrD)

lemma Query_ListHouses_Inr:
  assumes "Query_ListHouses std p w = (Inr res, w')"
  obtains size after rows q where "pageSize (lp_PageSize p) = Inr size" "decodePageToken (lp_PageToken p) = Inr after"
    "Store_ListHouses \<lparr>hf_OwnerUserID = lp_OwnerUserID p, hf_GridID = lp_GridID p, hf_AfterHouseID = after,
       hf_Limit = size + 1\<rparr> (w_pg w) = (Inr rows, q)"
    "map ho_HouseInfoRow (lr_Houses res) = (if int (length rows) > size then take (nat size) rows else rows)"
    "lr_NextPageToken res =
       (if int (length rows) > size then encodePageToken (hi_HouseID (take (nat size) rows ! nat (size - 1))) else [])"
  using assms that unfolding Query_ListHouses_def
  by (auto simp: andThen_Inr_iff wrapErr_Inr_iff onPg_iff Let_def dest!: withStatuses_rows split: if_splits)



section \<open>Pages\<close>

text \<open>The houses a filter selects, in order.\<close>

definition selected_houses :: "string \<Rightarrow> string \<Rightarrow> tables \<Rightarrow> HouseInfoRow list" where
  "selected_houses owner grid T =
     filter (selected \<lparr>hf_OwnerUserID = owner, hf_GridID = grid, hf_AfterHouseID = [], hf_Limit = 0\<rparr>)
       (sort_key hi_HouseID (map (houseSource T) (t_houses T)))"

interpretation listed: keyset_pages
  "\<lambda>(T, owner, grid, n) after. take n (filter (\<lambda>h. after < hi_HouseID h) (selected_houses owner grid T))"
  "\<lambda>(T, owner, grid, n). selected_houses owner grid T" hi_HouseID "\<lambda>(T, owner, grid, n). tables_ok T \<and> 0 < (n :: nat)"
proof (unfold_locales, goal_cases)
  case (1 s after)
  then show ?case by (cases s) (auto intro!: exI [of _ "snd (snd (snd s))"])
next
  case (2 s)
  have "sorted (map hi_HouseID (selected_houses owner grid T))" for owner grid T
    unfolding selected_houses_def by (intro sorted_filter) simp
  with 2 show ?case by (cases s) simp
next
  case (3 s)
  obtain T owner grid n where s: "s = (T, owner, grid, n)" by (metis prod.exhaust)
  have "distinct (map hi_HouseID (map (houseSource T) (t_houses T)))"
    using 3 s by (simp add: tables_ok_def houseSource_def comp_def)
  then have "distinct (map hi_HouseID (sort_key hi_HouseID (map (houseSource T) (t_houses T))))"
    by (auto simp: distinct_map comp_def inj_on_def)
  then show ?case using s by (simp add: selected_houses_def distinct_map_filter)
qed

lemma token_roundtrip: "i \<noteq> [] \<Longrightarrow> decodePageToken (encodePageToken i) = Inr i"
  by (simp add: decodePageToken_def encodePageToken_def b64_encode_empty b64_roundtrip)

lemma encodePageToken_Nil: "encodePageToken i = [] \<longleftrightarrow> i = []"
  by (simp add: encodePageToken_def b64_encode_empty)

lemma pageSize_positive: "pageSize n = Inr k \<Longrightarrow> 0 < k \<and> k \<le> maxPageSize"
  by (auto simp: pageSize_def defaultPageSize_def maxPageSize_def split: if_splits)

text \<open>Reading changes neither the tables nor, on the house's way through Redis, the database.\<close>

lemma Query_ListHouses_reads:
  assumes "Query_ListHouses std p w = (r, w')"
  shows "pg_tables (w_pg w') = pg_tables (w_pg w)"
proof -
  have st: "w_pg w2 = w_pg w1" if "withStatus std row w1 = (x, w2)" for row w1 x w2
    using that by (auto simp: withStatus_def onRedis_def split: prod.splits sum.splits if_splits)
  have sts: "w_pg w2 = w_pg w1" if "withStatuses std rows w1 = (x, w2)" for rows w1 x w2
    using that
  proof (induction rows arbitrary: w1 x)
    case (Cons row rows)
    then show ?case by (auto simp: andThen_def dest!: st split: prod.splits sum.splits)
  qed simp
  have "pg_tables q = pg_tables p" if "Store_ListHouses f p = (x, q)" for f p x q
    using that by (auto simp: Store_ListHouses_def onSql_def listHousesSQL_def split: prod.splits dest!: stmt_tables)
  then have l: "pg_tables (w_pg w2) = pg_tables (w_pg w1)" if "onPg (wrapErr g (Store_ListHouses f)) w1 = (x, w2)" for g f w1 x w2
    using that by (auto simp: onPg_def wrapErr_def split: prod.splits)
  show ?thesis
    using assms unfolding Query_ListHouses_def Let_def
    by (auto simp: andThen_def dest!: l sts split: prod.splits sum.splits)
qed

text \<open>One page: the next rows after the cursor, and a token for their last one exactly when more follow.\<close>

lemma list_page:
  assumes "Query_ListHouses std p w = (Inr res, w')" "decodePageToken (lp_PageToken p) = Inr after"
  defines "rest \<equiv> filter (\<lambda>h. after < hi_HouseID h) (selected_houses (lp_OwnerUserID p) (lp_GridID p) (pg_tables (w_pg w)))"
  obtains n where "0 < n" "map ho_HouseInfoRow (lr_Houses res) = take n rest"
    "lr_NextPageToken res = [] \<Longrightarrow> take n rest = rest"
    "lr_NextPageToken res \<noteq> [] \<Longrightarrow> take n rest \<noteq> [] \<and> lr_NextPageToken res = encodePageToken (hi_HouseID (last (take n rest)))"
proof -
  from assms(1) show thesis
  proof (rule Query_ListHouses_Inr)
    fix size after' rows q
    assume size: "pageSize (lp_PageSize p) = Inr size" and tok: "decodePageToken (lp_PageToken p) = Inr after'"
      and st: "Store_ListHouses \<lparr>hf_OwnerUserID = lp_OwnerUserID p, hf_GridID = lp_GridID p, hf_AfterHouseID = after',
        hf_Limit = size + 1\<rparr> (w_pg w) = (Inr rows, q)"
      and hs: "map ho_HouseInfoRow (lr_Houses res) = (if int (length rows) > size then take (nat size) rows else rows)"
      and nx: "lr_NextPageToken res =
        (if int (length rows) > size then encodePageToken (hi_HouseID (take (nat size) rows ! nat (size - 1))) else [])"
    have pos: "0 < nat size" "nat (size + 1) = Suc (nat size)" using pageSize_positive [OF size] by auto
    have rows: "rows = take (Suc (nat size)) rest"
      using Store_ListHouses_Inr [OF st] tok assms(2) pos(2)
      by (simp add: rest_def selected_houses_def selected_def)
    have page: "map ho_HouseInfoRow (lr_Houses res) = take (nat size) rest"
      using hs rows pos by (auto simp: min_def split: if_splits)
    have more: "int (length rows) > size \<longleftrightarrow> length rest > nat size" using rows pos by auto
    show thesis
    proof (rule that [OF pos(1) page])
      assume e: "lr_NextPageToken res = []"
      show "take (nat size) rest = rest"
      proof (rule ccontr)
        assume "take (nat size) rest \<noteq> rest"
        then have m: "length rest > nat size" by simp
        let ?h = "take (nat size) rows ! nat (size - 1)"
        have "?h \<in> set rest" using m pos rows by (auto simp: nth_append min_def intro!: nth_mem)
        then have "hi_HouseID ?h \<noteq> []" by (auto simp: rest_def)
        with e nx more m show False by (simp add: encodePageToken_Nil)
      qed
    next
      assume "lr_NextPageToken res \<noteq> []"
      with nx more have m: "length rest > nat size" by (auto split: if_splits)
      have "take (nat size) rows = take (nat size) rest" using rows by (simp add: min_def)
      moreover have "last (take (nat size) rest) = take (nat size) rest ! nat (size - 1)"
        using m pos last_conv_nth [of "take (nat size) rest"] by (force simp: nat_diff_distrib' min_def)
      ultimately show "take (nat size) rest \<noteq> [] \<and>
          lr_NextPageToken res = encodePageToken (hi_HouseID (last (take (nat size) rest)))"
        using nx more m pos by auto
    qed
  qed
qed

text \<open>A client that follows the tokens: \<open>None\<close> when its patience of \<open>n\<close> pages runs out first.\<close>

fun walk :: "nat \<Rightarrow> go_std \<Rightarrow> ListHousesParams \<Rightarrow> world \<Rightarrow> (go_error + HouseInfoRow list) option" where
  "walk 0 std p w = None"
| "walk (Suc n) std p w =
     (case Query_ListHouses std p w of
        (Inl e, w') \<Rightarrow> Some (Inl e)
      | (Inr res, w') \<Rightarrow>
          (if lr_NextPageToken res = [] then Some (Inr (map ho_HouseInfoRow (lr_Houses res)))
           else map_option (map_sum id ((@) (map ho_HouseInfoRow (lr_Houses res))))
                  (walk n std (p\<lparr>lp_PageToken := lr_NextPageToken res\<rparr>) w')))"

lemma walk_from:
  assumes "tables_ok (pg_tables (w_pg w))" "decodePageToken (lp_PageToken p) = Inr after"
    and "length (filter (\<lambda>h. after < hi_HouseID h) (selected_houses (lp_OwnerUserID p) (lp_GridID p) (pg_tables (w_pg w)))) < n"
  shows "\<exists>r. walk n std p w = Some r \<and>
    (\<forall>rows. r = Inr rows \<longrightarrow>
       rows = filter (\<lambda>h. after < hi_HouseID h) (selected_houses (lp_OwnerUserID p) (lp_GridID p) (pg_tables (w_pg w))))"
  using assms
proof (induction n arbitrary: p w after)
  case (Suc n)
  obtain r w' where q: "Query_ListHouses std p w = (r, w')" by force
  let ?T = "pg_tables (w_pg w)"
  let ?all = "selected_houses (lp_OwnerUserID p) (lp_GridID p) ?T"
  let ?rest = "\<lambda>a. filter (\<lambda>h. a < hi_HouseID h) ?all"
  show ?case
  proof (cases r)
    case (Inl e)
    with q show ?thesis by simp
  next
    case (Inr res)
    have q': "Query_ListHouses std p w = (Inr res, w')" using q Inr by simp
    obtain k where k: "0 < k" "map ho_HouseInfoRow (lr_Houses res) = take k (?rest after)"
      and last_page: "lr_NextPageToken res = [] \<Longrightarrow> take k (?rest after) = ?rest after"
      and next_page: "lr_NextPageToken res \<noteq> [] \<Longrightarrow> take k (?rest after) \<noteq> [] \<and>
        lr_NextPageToken res = encodePageToken (hi_HouseID (last (take k (?rest after))))"
      using list_page [OF q' Suc.prems(2)] by metis
    show ?thesis
    proof (cases "lr_NextPageToken res = []")
      case True
      with q' k(2) last_page show ?thesis by simp
    next
      case False
      let ?cur = "hi_HouseID (last (take k (?rest after)))"
      have ne: "take k (?rest after) \<noteq> []" and tok: "lr_NextPageToken res = encodePageToken ?cur"
        using next_page False by auto
      have "last (take k (?rest after)) \<in> set (?rest after)" using ne by (meson in_set_takeD last_in_set)
      then have "?cur \<noteq> []" by auto
      then have dec: "decodePageToken (lr_NextPageToken res) = Inr ?cur" using tok token_roundtrip by simp
      have T: "pg_tables (w_pg w') = ?T" using Query_ListHouses_reads [OF q'] .
      have "case (?T, lp_OwnerUserID p, lp_GridID p, k) of (T, owner, grid, n) \<Rightarrow> tables_ok T \<and> 0 < n"
        using Suc.prems(1) k(1) by simp
      from listed.page_rest [OF this, of after]
      have rest: "?rest after = take k (?rest after) @ ?rest ?cur" using ne by simp
      have "length (?rest ?cur) < n"
        using Suc.prems(3) ne arg_cong [OF rest, of length] by (cases "take k (?rest after)") auto
      then obtain r' where "walk n std (p\<lparr>lp_PageToken := lr_NextPageToken res\<rparr>) w' = Some r'"
        and r': "\<And>rows. r' = Inr rows \<Longrightarrow> rows = ?rest ?cur"
        using Suc.IH [of w' "p\<lparr>lp_PageToken := lr_NextPageToken res\<rparr>" ?cur] Suc.prems(1) dec T by auto
      then show ?thesis
        using False q' k(2) rest by (cases r') auto
    qed
  qed
qed simp

text \<open>
  C32. Paging is complete.  From the first page on, a client that follows the tokens is answered within as many
  pages as there are houses plus one; unless a page fails it has then seen every house that matches its
  filter, in order and once each, whatever page size it asked for; and a token the service hands out is
  always accepted back.
\<close>

theorem list_houses_complete:
  assumes "tables_ok (pg_tables (w_pg w))" "lp_PageToken p = []" "length (t_houses (pg_tables (w_pg w))) < n"
  shows "\<exists>r. walk n std p w = Some r \<and>
    (\<forall>rows. r = Inr rows \<longrightarrow>
       rows = filter (\<lambda>h. hi_HouseID h \<noteq> []) (selected_houses (lp_OwnerUserID p) (lp_GridID p) (pg_tables (w_pg w))) \<and>
       distinct rows \<and> sorted (map hi_HouseID rows)) \<and>
    (i \<noteq> [] \<longrightarrow> decodePageToken (encodePageToken i) = Inr i)"
proof -
  let ?T = "pg_tables (w_pg w)"
  let ?all = "selected_houses (lp_OwnerUserID p) (lp_GridID p) ?T"
  have ne: "([] < s) = (s \<noteq> [])" for s :: string by (cases s) simp_all
  have "length ?all \<le> length (t_houses ?T)"
    unfolding selected_houses_def by (metis length_filter_le length_map length_sort)
  then have len: "length (filter (\<lambda>h. [] < hi_HouseID h) ?all) < n"
    using assms(3) length_filter_le [of "\<lambda>h. [] < hi_HouseID h" ?all] by linarith
  have good: "case (?T, lp_OwnerUserID p, lp_GridID p, 1::nat) of (T, owner, grid, n) \<Rightarrow> tables_ok T \<and> 0 < n"
    using assms(1) by simp
  have "sorted (map hi_HouseID ?all)" "distinct (map hi_HouseID ?all)"
    using listed.sorted_rows [OF good] listed.distinct_rows [OF good] by simp_all
  then have "sorted (map hi_HouseID (filter P ?all))" "distinct (filter P ?all)" for P
    by (simp_all add: sorted_filter distinct_map)
  with walk_from [OF assms(1) _ len] assms(2) token_roundtrip show ?thesis
    unfolding ne by (fastforce simp: decodePageToken_def)
qed


section \<open>Examples\<close>

definition owned_tables :: tables where
  "owned_tables = sample_tables\<lparr>
     t_meter_registrations := [\<lparr>r_id = ''1'', r_user_id = ''u1'', r_meter_id = ''meter-g1-house1'', r_registration_id = ''r1'',
       r_approval_status = ''APPROVED'', r_role = ''PRIMARY_OWNER'', r_created_at = 0, r_updated_at = 0\<rparr>]\<rparr>"

definition owned_world :: world where
  "owned_world = \<lparr>w_pg = quiet_pg owned_tables 0, w_redis = empty_redis []\<rparr>"

definition list_params :: ListHousesParams where
  "list_params = \<lparr>lp_OwnerUserID = ''u1'', lp_GridID = [], lp_PageSize = 1, lp_PageToken = []\<rparr>"

lemmas owned_eval = owned_world_def owned_tables_def sample_tables_def empty_tables_def empty_redis_def

lemma owned_by_sample: "owned_by owned_tables ''g1-house1'' u \<longleftrightarrow> u = ''u1''"
  by (auto simp: owned_by_def owner_of_def approved_owner_def owned_eval)


lemma walk_sample: "\<exists>rows. walk 2 std list_params owned_world = Some (Inr rows)"
  by (simp add: numeral_2_eq_2 Query_ListHouses_def list_params_def pageSize_def maxPageSize_def decodePageToken_def
      andThen_def onPg_def wrapErr_def Store_ListHouses_def onSql_stmt_quiet listHousesSQL_def selected_def houseSource_def
      owner_of_def approved_owner_def withStatus_def onRedis_def GetHouseStatus_def onCmd_quiet redis_HGETALL_def live_def
      redis_not_found_def owned_eval Let_def)

theorem list_houses_complete_witness:
  "\<exists>rows. walk 2 sample_std list_params owned_world = Some (Inr rows) \<and> map hi_HouseID rows = [''g1-house1'']"
proof -
  obtain rows where w: "walk 2 sample_std list_params owned_world = Some (Inr rows)" using walk_sample by blast
  have "tables_ok (pg_tables (w_pg owned_world))" "length (t_houses (pg_tables (w_pg owned_world))) < 2"
    by (simp_all add: owned_eval tables_ok_def)
  from list_houses_complete [OF this(1) _ this(2), of list_params sample_std "''x''"] w
  have "rows = filter (\<lambda>h. hi_HouseID h \<noteq> []) (selected_houses ''u1'' [] owned_tables)"
    by (simp add: list_params_def owned_world_def)
  then have "map hi_HouseID rows = [''g1-house1'']"
    by (simp add: selected_houses_def selected_def houseSource_def owner_of_def approved_owner_def owned_eval)
  with w show ?thesis by (intro exI [of _ rows] conjI)
qed


text \<open>The self-consumption of a summary, however the arithmetic rounds, is a percentage.\<close>

lemma selfConsumption_percent:
  assumes "rounds fl" "metered fl T" "energySums fl (energyReadingsCTE fl house start finish T) = (t, f, h)"
    and "es_Totals row = t" "es_Flows row = f" "selfConsumption fl row = Some pct" "fl (et_GeneratedKwh t) = et_GeneratedKwh t"
  shows "0 \<le> pct \<and> pct \<le> 100"
proof -
  let ?g = "et_GeneratedKwh t" and ?x = "ef_SolarToGridKwh f"
  have g: "0 < ?g" and pct: "pct = fl (fl (fl (?g - ?x) / ?g) * 100)"
    using assms(4-6) by (auto simp: selfConsumption_def Let_def split: if_splits)
  have x: "0 \<le> ?x" "?x \<le> ?g" using energySums_signs [OF assms(1) CTE_rows_ok [OF assms(1,2)] assms(3)] by auto
  have d: "0 \<le> fl (?g - ?x)" by (rule rounds_nonneg [OF assms(1)]) (use x in simp)
  have "fl (?g - ?x) \<le> fl ?g" by (rule rounds_le [OF assms(1)]) (use x in simp)
  then have "fl (?g - ?x) / ?g \<le> 1" using assms(7) g by simp
  from rounds_le [OF assms(1) this] have q: "fl (fl (?g - ?x) / ?g) \<le> 1" using assms(1) by (simp add: rounds_def)
  have q0: "0 \<le> fl (fl (?g - ?x) / ?g)" by (rule rounds_nonneg [OF assms(1)]) (use d g in simp)
  have "fl (fl (fl (?g - ?x) / ?g) * 100) \<le> fl 100" by (rule rounds_le [OF assms(1)]) (use q in simp)
  then have "pct \<le> 100" using pct assms(1) by (simp add: rounds_def)
  moreover have "0 \<le> pct" unfolding pct by (rule rounds_nonneg [OF assms(1)]) (use q0 in simp)
  ultimately show ?thesis by simp
qed

lemma foldl_rounded: "rounds fl \<Longrightarrow> fl a = a \<Longrightarrow> fl (foldl (\<lambda>a x. fl (a + x)) a xs) = foldl (\<lambda>a x. fl (a + x)) a xs"
  by (induction xs arbitrary: a) (simp_all add: rounds_def)

lemma sql_sum_rounded: "rounds fl \<Longrightarrow> fl (sql_sum fl xs) = sql_sum fl xs"
  using foldl_rounded [of fl 0 xs] by (simp add: sql_sum_def rounds_def)

lemma ceil_quot:
  assumes "0 < width" "0 \<le> d"
  shows "(if go_rem d width \<noteq> 0 then go_quot d width + 1 else go_quot d width) * width \<ge> d"
proof -
  have q: "go_quot d width = d div width" using assms by (cases "d = 0") (simp_all add: go_quot_def)
  have "d \<le> width * (d div width) + width"
    using pos_mod_bound [OF assms(1), of d] mult_div_mod_eq [of width d] by linarith
  then show ?thesis
    by (simp add: go_rem_def q algebra_simps)
qed

text \<open>An accepted series needs at most 5000 buckets of at least five minutes over at most 31 days.\<close>

lemma validateBuckets_bound:
  assumes "validateRange houseID start finish = None" "validateBuckets start finish width = None"
  shows "5 * ns_minute \<le> width \<and> width \<le> 24 * ns_hour \<and> 0 < finish - start \<and> finish - start \<le> 31 * 24 * ns_hour \<and>
    finish - start \<le> 5000 * width"
proof -
  let ?n = "if go_rem (finish - start) width \<noteq> 0 then go_quot (finish - start) width + 1 else go_quot (finish - start) width"
  have r: "start < finish" "time_Sub finish start \<le> maxRange"
    using assms(1) by (auto simp: validateRange_def split: if_splits)
  then have sub: "time_Sub finish start = finish - start" by (simp add: time_Sub_def maxRange_def split: if_splits)
  have w: "minBucketWidth \<le> width" "width \<le> maxBucketWidth" "?n \<le> maxBuckets"
    using assms(2) by (auto simp: validateBuckets_def Let_def sub split: if_splits)
  then have pos: "0 < width" by (simp add: minBucketWidth_def)
  have "finish - start \<le> ?n * width" using ceil_quot [OF pos, of "finish - start"] r by simp
  also have "\<dots> \<le> maxBuckets * width" using w(3) pos by (intro mult_right_mono) auto
  finally show ?thesis using r w sub by (simp add: maxBuckets_def minBucketWidth_def maxBucketWidth_def maxRange_def)
qed

end
