(* ===== verification/Registration.thy ===== *)
theory Registration
  imports World GoStd
begin

text \<open>
  Meter registration with the utility: \<^verbatim>\<open>internal/registration\<close>, its store in
  \<^verbatim>\<open>internal/store/postgres/meter_registration.go\<close> and \<^verbatim>\<open>meter_registration_status.go\<close>, and the activation command
  of \<^verbatim>\<open>internal/actuation\<close>.  The utility is a service: its answers are inputs.  The poll of a request runs in the
  background; the operations return the polls they start, and a poll is run against what the context and
  the utility show at each round.
\<close>

section \<open>The store\<close>

record RegistrationRecord =
  rr_ID :: string
  rr_UserID :: string
  rr_MeterID :: string
  rr_RegistrationID :: string
  rr_Role :: string
  rr_ApprovalStatus :: string

definition approval_statuses :: "string set" where
  "approval_statuses = {''DEWA_APPROVAL_PENDING'', ''REJECTED'', ''APPROVED'', ''EXPIRED''}"

definition owner_roles :: "string set" where
  "owner_roles = {''PRIMARY_OWNER'', ''VIEWER'', ''OPERATOR''}"

text \<open>
  What the server adds: \<open>uuid_in\<close> reads a UUID (\<open>None\<close> when the text is none) and \<open>uuid_new\<close> is the generated
  key of a new row.
\<close>

record uuids =
  uuid_in :: "string \<Rightarrow> string option"
  uuid_new :: "tables \<Rightarrow> string"

definition invalid_text :: "string \<Rightarrow> sql_error" where
  "invalid_text what = PgError ''22P02'' (''invalid input value for '' @ what)"

definition saveRegistrationSQL :: "uuids \<Rightarrow> RegistrationRecord \<Rightarrow> int \<Rightarrow> tables \<Rightarrow> (sql_error + unit) \<times> tables" where
  "saveRegistrationSQL u rec now T =
     (case uuid_in u (rr_UserID rec) of
        None \<Rightarrow> (Inl (invalid_text ''uuid''), T)
      | Some user \<Rightarrow>
          if \<not> text_ok (rr_MeterID rec) \<or> \<not> text_ok (rr_RegistrationID rec)
          then (Inl (PgError ''22021'' ''invalid byte sequence''), T)
          else if rr_Role rec \<notin> owner_roles then (Inl (invalid_text ''enum meter_owner_role''), T)
          else if rr_ApprovalStatus rec \<notin> approval_statuses then (Inl (invalid_text ''enum meter_approval_status''), T)
          else if \<exists>r \<in> set (t_meter_registrations T). r_registration_id r = rr_RegistrationID rec
          then (Inr (), T\<lparr>t_meter_registrations :=
                  update_where (\<lambda>r. r_registration_id r = rr_RegistrationID rec)
                    (\<lambda>r. r\<lparr>r_approval_status := rr_ApprovalStatus rec, r_updated_at := now\<rparr>) (t_meter_registrations T)\<rparr>)
          else if \<exists>r \<in> set (t_meter_registrations T). r_meter_id r = rr_MeterID rec \<and> r_role r = rr_Role rec
          then (Inl (PgError pgUniqueViolation ''duplicate key value violates unique constraint unique_primary_owner_per_meter''), T)
          else (Inr (), T\<lparr>t_meter_registrations := t_meter_registrations T @
                  [\<lparr>r_id = uuid_new u T, r_user_id = user, r_meter_id = rr_MeterID rec,
                    r_registration_id = rr_RegistrationID rec, r_approval_status = rr_ApprovalStatus rec,
                    r_role = rr_Role rec, r_created_at = now, r_updated_at = now\<rparr>]\<rparr>))"

definition updateRegistrationSQL :: "string \<Rightarrow> string \<Rightarrow> int \<Rightarrow> tables \<Rightarrow> (sql_error + nat) \<times> tables" where
  "updateRegistrationSQL registrationID status now T =
     (if \<not> text_ok registrationID then (Inl (PgError ''22021'' ''invalid byte sequence''), T)
      else if status \<notin> approval_statuses then (Inl (invalid_text ''enum meter_approval_status''), T)
      else (Inr (length (filter (\<lambda>r. r_registration_id r = registrationID) (t_meter_registrations T))),
            T\<lparr>t_meter_registrations :=
               update_where (\<lambda>r. r_registration_id r = registrationID)
                 (\<lambda>r. r\<lparr>r_approval_status := status, r_updated_at := now\<rparr>) (t_meter_registrations T)\<rparr>))"

text \<open>The row a query for \<open>key\<close> in one column scans; of several rows the server returns the first.\<close>

definition selectRegistrationSQL ::
    "(registrations_row \<Rightarrow> string) \<Rightarrow> string \<Rightarrow> int \<Rightarrow> tables \<Rightarrow> (sql_error + RegistrationRecord) \<times> tables" where
  "selectRegistrationSQL column key now T =
     (if \<not> text_ok key then (Inl (PgError ''22021'' ''invalid byte sequence''), T)
      else case find (\<lambda>r. column r = key) (t_meter_registrations T) of
        None \<Rightarrow> (Inl NoRows, T)
      | Some r \<Rightarrow> (Inr \<lparr>rr_ID = r_id r, rr_UserID = r_user_id r, rr_MeterID = r_meter_id r,
                       rr_RegistrationID = r_registration_id r, rr_Role = r_role r,
                       rr_ApprovalStatus = r_approval_status r\<rparr>, T))"

text \<open>A statement issued with a context that is already done is not sent.\<close>

definition stmtCtx :: "infra option \<Rightarrow> (int \<Rightarrow> tables \<Rightarrow> (sql_error + 'a) \<times> tables) \<Rightarrow> pg \<Rightarrow> (sql_error + 'a) \<times> pg" where
  "stmtCtx ctx q p = (case ctx of Some i \<Rightarrow> (Inl (Infra i), p) | None \<Rightarrow> stmt q p)"

definition SaveMeterRegistration :: "uuids \<Rightarrow> RegistrationRecord \<Rightarrow> (pg, unit) act" where
  "SaveMeterRegistration u rec0 =
     (let rec1 = (if rr_Role rec0 = [] then rec0\<lparr>rr_Role := ''PRIMARY_OWNER''\<rparr> else rec0);
          rec2 = (if rr_ApprovalStatus rec1 = [] then rec1\<lparr>rr_ApprovalStatus := ''DEWA_APPROVAL_PENDING''\<rparr> else rec1)
      in onSql (sqlErrorf ''save meter registration: '') (stmt (saveRegistrationSQL u rec2)))"

definition UpdateMeterRegistrationStatus :: "infra option \<Rightarrow> string \<Rightarrow> string \<Rightarrow> (pg, unit) act" where
  "UpdateMeterRegistrationStatus ctx registrationID status =
     andThen (onSql (sqlErrorf ''update meter registration status: '')
                (stmtCtx ctx (updateRegistrationSQL registrationID status))) (\<lambda>affected.
     if affected = 0 then throw (errors_New (''meter registration '' @ go_quote registrationID @ '' not found''))
     else ret ())"

definition GetByRegistrationID :: "infra option \<Rightarrow> string \<Rightarrow> (pg, RegistrationRecord) act" where
  "GetByRegistrationID ctx registrationID =
     onSql (sqlErrorf (''get registration by ID '' @ go_quote registrationID @ '': ''))
       (stmtCtx ctx (selectRegistrationSQL r_registration_id registrationID))"

definition GetRegistrationByMeterID :: "string \<Rightarrow> (pg, RegistrationRecord) act" where
  "GetRegistrationByMeterID meterID =
     onSql (sqlErrorf (''get registration by meter ID '' @ go_quote meterID @ '': ''))
       (stmt (selectRegistrationSQL r_meter_id meterID))"

definition GetRegistrationByUserID :: "uuids \<Rightarrow> string \<Rightarrow> (pg, RegistrationRecord) act" where
  "GetRegistrationByUserID u userID =
     onSql (sqlErrorf (''get registration by user ID '' @ go_quote userID @ '': ''))
       (stmt (\<lambda>now T. case uuid_in u userID of
          None \<Rightarrow> (Inl (invalid_text ''uuid''), T)
        | Some user \<Rightarrow> selectRegistrationSQL r_user_id user now T))"

section \<open>The utility's interface\<close>

record LinkRequest =
  lq_RegistrationID :: string
  lq_MeterID :: string
  lq_UserReference :: string

record LinkResponse =
  ls_RequestID :: string
  ls_Status :: string
  ls_Message :: string

record LinkRequestDetail =
  ld_RegistrationID :: string
  ld_MeterID :: string
  ld_Status :: string

record http_response =
  ht_StatusCode :: int
  ht_Body :: bytes

text \<open>
  The parts of \<^verbatim>\<open>net/http\<close> and \<^verbatim>\<open>encoding/json\<close> the client uses: whether a request to an address can be built, and
  the decoders of the two bodies.
\<close>

record http_std =
  ht_newRequest :: "string \<Rightarrow> go_error option"
  ht_decodeLink :: "bytes \<Rightarrow> go_error + LinkResponse"
  ht_decodeDetail :: "bytes \<Rightarrow> go_error + LinkRequestDetail"
  ht_pathEscape :: "string \<Rightarrow> string"

record Client =
  cl_baseURL :: string

definition NewClient :: "string \<Rightarrow> Client" where
  "NewClient baseURL = \<lparr>cl_baseURL = TrimRight (CHR ''/'') baseURL\<rparr>"

definition http_ok :: "int \<Rightarrow> bool" where
  "http_ok code \<longleftrightarrow> 200 \<le> code \<and> code < 300"

text \<open>\<^verbatim>\<open>CreateLinkRequest\<close>; \<open>reply\<close> is what \<^verbatim>\<open>httpClient.Do\<close> returned.\<close>

definition CreateLinkRequest :: "http_std \<Rightarrow> Client \<Rightarrow> go_error + http_response \<Rightarrow> go_error + LinkResponse" where
  "CreateLinkRequest h c reply =
     checkE (map_option (Errorf_w ''create DEWA link request: '') (ht_newRequest h (cl_baseURL c @ ''/api/link-requests'')))
       (bindE (failWith (Errorf_w ''send DEWA link request: '') reply) (\<lambda>resp.
          if \<not> http_ok (ht_StatusCode resp)
          then Inl (errors_New (''DEWA returned HTTP status '' @ show_int (ht_StatusCode resp)))
          else failWith (Errorf_w ''decode DEWA link response: '') (ht_decodeLink h (ht_Body resp))))"

section \<open>Polling\<close>

record Poller =
  po_client :: "Client option"
  po_interval :: int
  po_timeout :: int

definition defaultPollInterval :: int where "defaultPollInterval = 4 * ns_second"
definition defaultPollTimeout :: int where "defaultPollTimeout = 10 * ns_minute"

definition NewPoller :: "Client \<Rightarrow> Poller" where
  "NewPoller c = \<lparr>po_client = Some c, po_interval = defaultPollInterval, po_timeout = defaultPollTimeout\<rparr>"

definition getStatus :: "http_std \<Rightarrow> string \<Rightarrow> go_error + http_response \<Rightarrow> go_error + LinkRequestDetail" where
  "getStatus h endpoint reply =
     checkE (map_option (Errorf_w ''create DEWA status request: '') (ht_newRequest h endpoint))
       (bindE (failWith (Errorf_w ''get DEWA registration status: '') reply) (\<lambda>resp.
          if \<not> http_ok (ht_StatusCode resp)
          then Inl (errors_New (''DEWA status endpoint returned HTTP status '' @ show_int (ht_StatusCode resp)))
          else bindE (failWith (Errorf_w ''decode DEWA status response: '') (ht_decodeDetail h (ht_Body resp))) (\<lambda>detail.
            if TrimSpace (ld_Status detail) = []
            then Inl (errors_New ''DEWA status response contains an empty status'')
            else Inr detail)))"

text \<open>The text of a duration, as \<^verbatim>\<open>%s\<close> prints it.\<close>

definition fraction_text :: "nat \<Rightarrow> int \<Rightarrow> string" where
  "fraction_text w v = (let f = trim_zeros (pad w v) in if f = [] then [] else CHR ''.'' # f)"

definition Duration_String :: "int \<Rightarrow> string" where
  "Duration_String d =
     (let n = \<bar>d\<bar>; sign = (if d < 0 then ''-'' else []); secs = n div ns_second in
      if n = 0 then ''0s''
      else sign @
        (if n < ns_microsecond then show_int n @ ''ns''
         else if n < ns_millisecond then show_int (n div 1000) @ fraction_text 3 (n mod 1000) @ [CHR 0xC2, CHR 0xB5, CHR ''s'']
         else if n < ns_second then show_int (n div 1000000) @ fraction_text 6 (n mod 1000000) @ ''ms''
         else (if 3600 \<le> secs then show_int (secs div 3600) @ ''h'' else []) @
              (if 60 \<le> secs then show_int (secs div 60 mod 60) @ ''m'' else []) @
              show_int (secs mod 60) @ fraction_text 9 (n mod ns_second) @ ''s''))"

definition pollingError :: "Poller \<Rightarrow> infra \<Rightarrow> go_error" where
  "pollingError p err =
     (if err = CtxDeadline
      then Errorf_w (''DEWA registration polling timed out after '' @ Duration_String (po_timeout p) @ '': '') (infra_error err)
      else Errorf_w ''DEWA registration polling stopped: '' (infra_error err))"

text \<open>
  One round of the loop: the context before the request, the answer, the context after a failed request, and
  the context when the wait for the next tick ends (\<open>None\<close> when it is the tick).
\<close>

record poll_round =
  pr_before :: "infra option"
  pr_reply :: "go_error + http_response"
  pr_after :: "infra option"
  pr_wait :: "infra option"

text \<open>The loop over the rounds that happen; \<open>None\<close> when it is still polling after them.\<close>

fun pollLoop :: "http_std \<Rightarrow> unicode \<Rightarrow> Poller \<Rightarrow> string \<Rightarrow> poll_round list \<Rightarrow> (go_error + LinkRequestDetail) option" where
  "pollLoop h u p endpoint [] = None"
| "pollLoop h u p endpoint (r # rs) =
     (case pr_before r of
        Some err \<Rightarrow> Some (Inl (pollingError p err))
      | None \<Rightarrow>
          let wait = (case pr_wait r of Some err \<Rightarrow> Some (Inl (pollingError p err)) | None \<Rightarrow> pollLoop h u p endpoint rs) in
          (case getStatus h endpoint (pr_reply r) of
             Inr response \<Rightarrow>
               (let status = ToUpper u (TrimSpace (ld_Status response)) in
                if status = ''APPROVED'' then Some (Inr (response\<lparr>ld_Status := ''APPROVED''\<rparr>))
                else if status = ''REJECTED'' then Some (Inr (response\<lparr>ld_Status := ''REJECTED''\<rparr>))
                else if status \<in> {''PENDING'', ''PROCESSING''} then wait
                else Some (Inl (errors_New (''unexpected DEWA registration status: '' @ go_quote (ld_Status response)))))
           | Inl e \<Rightarrow>
               (case pr_after r of Some err \<Rightarrow> Some (Inl (pollingError p err)) | None \<Rightarrow> wait)))"

definition PollLinkRequest ::
    "http_std \<Rightarrow> unicode \<Rightarrow> Poller option \<Rightarrow> string \<Rightarrow> poll_round list \<Rightarrow> (go_error + LinkRequestDetail) option" where
  "PollLinkRequest h u poller requestID rounds =
     (case poller of
        None \<Rightarrow> Some (Inl (errors_New ''registration client is not configured''))
      | Some p \<Rightarrow>
          (case po_client p of
             None \<Rightarrow> Some (Inl (errors_New ''registration client is not configured''))
           | Some c \<Rightarrow>
               if TrimSpace requestID = [] then Some (Inl (errors_New ''request ID is required''))
               else if po_interval p < 3 * ns_second \<or> po_interval p > 5 * ns_second
               then Some (Inl (errors_New ''poll interval must be between 3 and 5 seconds''))
               else if po_timeout p \<le> 0 then Some (Inl (errors_New ''poll timeout must be positive''))
               else pollLoop h u p (TrimRight (CHR ''/'') (cl_baseURL c) @ ''/api/link-requests/'' @ ht_pathEscape h requestID)
                      rounds))"

end
