(* ===== verification/RegistrationService.thy ===== *)
theory RegistrationService
  imports Registration HouseReader Samples
begin

text \<open>
  \<^verbatim>\<open>internal/registration/service.go\<close> and \<^verbatim>\<open>internal/actuation\<close>: a claim of a meter is stored, sent to the utility
  and polled; an approval activates the meter.  A poll runs in the background, so the operations only note
  the polls they start, and \<open>runPollLoop\<close> runs one of them.
\<close>

section \<open>Actuation commands\<close>

datatype json_value =
    JNull | JBool bool | JNumber float64 | JString string | JArray "json_value list" | JObject "(string \<times> json_value) list"

record Command =
  cm_Action :: string
  cm_HouseID :: string
  cm_MeterID :: string
  cm_AssetID :: string
  cm_Timestamp :: string
  cm_PowerKw :: int
  cm_Metadata :: "(string \<times> json_value) list"

record KafkaActuationProducer =
  kp_topic :: string

record kafka_message =
  km_Topic :: string
  km_Key :: bytes
  km_Value :: bytes

text \<open>
  \<^verbatim>\<open>ProduceSync\<close> of the Kafka client, a third-party package: the message is written and acknowledged, written without an
  acknowledgement, or not written.
\<close>

datatype produced = Acked | Unacked go_error | Refused go_error

record poll =
  pl_RequestID :: string
  pl_RegistrationID :: string
  pl_Cancelled :: bool

record reg_state =
  rg_pg :: pg
  rg_messages :: "kafka_message list"
  rg_polls :: "poll list"

definition onReg :: "(pg, 'a) act \<Rightarrow> (reg_state, 'a) act" where
  "onReg m s = (case m (rg_pg s) of (r, p) \<Rightarrow> (r, s\<lparr>rg_pg := p\<rparr>))"

fun ProduceSync :: "produced \<Rightarrow> kafka_message \<Rightarrow> (reg_state, unit) act" where
  "ProduceSync Acked m s = (Inr (), s\<lparr>rg_messages := rg_messages s @ [m]\<rparr>)"
| "ProduceSync (Unacked e) m s = (Inl e, s\<lparr>rg_messages := rg_messages s @ [m]\<rparr>)"
| "ProduceSync (Refused e) m s = (Inl e, s)"

text \<open>What the service uses of the standard library, the database and the machine.\<close>

record reg_env =
  re_uuids :: uuids
  re_http :: http_std
  re_unicode :: unicode
  re_marshal :: "Command \<Rightarrow> go_error + bytes"

definition SendCommand :: "reg_env \<Rightarrow> KafkaActuationProducer \<Rightarrow> int \<Rightarrow> produced \<Rightarrow> Command \<Rightarrow> (reg_state, unit) act" where
  "SendCommand env k now reply cmd0 =
     (let cmd = (if cm_Timestamp cmd0 = [] then cmd0\<lparr>cm_Timestamp := Format_RFC3339 now\<rparr> else cmd0) in
      andThen (liftE (failWith (Errorf_w ''failed to marshall actuation command '') (re_marshal env cmd))) (\<lambda>value.
      wrapErr (Errorf_w ''failed to send actuation message to kafka: '')
        (ProduceSync reply \<lparr>km_Topic = kp_topic k, km_Key = cm_MeterID cmd, km_Value = value\<rparr>)))"

definition SendActivateMeter :: "reg_env \<Rightarrow> KafkaActuationProducer \<Rightarrow> int \<Rightarrow> produced \<Rightarrow> string \<Rightarrow> (reg_state, unit) act" where
  "SendActivateMeter env k now reply meterID =
     SendCommand env k now reply
       \<lparr>cm_Action = ''ACTIVATE_METER'', cm_HouseID = [], cm_MeterID = meterID, cm_AssetID = [], cm_Timestamp = [],
        cm_PowerKw = 0, cm_Metadata = []\<rparr>"

section \<open>The service\<close>

record Service =
  sv_client :: "Client option"
  sv_poller :: "Poller option"
  sv_store :: bool
  sv_dispatcher :: "KafkaActuationProducer option"

definition NewService :: "Client option \<Rightarrow> Poller option \<Rightarrow> bool \<Rightarrow> KafkaActuationProducer option \<Rightarrow> Service" where
  "NewService client poller store dispatcher =
     \<lparr>sv_client = client, sv_poller = poller, sv_store = store, sv_dispatcher = dispatcher\<rparr>"

text \<open>
  The goroutine that polls a request the utility has given an identifier.  Where the call of \<^verbatim>\<open>runPollLoop\<close> is itself a
  \<^verbatim>\<open>go\<close> statement, the goroutine around it returns at once and its \<^verbatim>\<open>defer cancel()\<close> cancels the poll's context.
\<close>

definition startPoll :: "Service \<Rightarrow> bool \<Rightarrow> LinkResponse \<Rightarrow> string \<Rightarrow> (reg_state, unit) act" where
  "startPoll svc cancelled resp registrationID s =
     (Inr (),
      if ls_RequestID resp \<noteq> [] \<and> sv_poller svc \<noteq> None
      then s\<lparr>rg_polls := rg_polls s @
               [\<lparr>pl_RequestID = ls_RequestID resp, pl_RegistrationID = registrationID, pl_Cancelled = cancelled\<rparr>]\<rparr>
      else s)"

definition pending_claim :: "LinkRequest \<Rightarrow> RegistrationRecord" where
  "pending_claim request =
     \<lparr>rr_ID = [], rr_UserID = lq_UserReference request, rr_MeterID = lq_MeterID request,
      rr_RegistrationID = lq_RegistrationID request, rr_Role = ''PRIMARY_OWNER'',
      rr_ApprovalStatus = ''DEWA_APPROVAL_PENDING''\<rparr>"

text \<open>\<open>reply\<close> is the answer to the link request, should it be sent.  A missing store is a nil dereference.\<close>

definition Registration_RegisterHouse ::
    "reg_env \<Rightarrow> Service \<Rightarrow> go_error + http_response \<Rightarrow> LinkRequest \<Rightarrow> (reg_state, LinkResponse) act" where
  "Registration_RegisterHouse env svc reply request =
     (case sv_client svc of
        None \<Rightarrow> throw (errors_New ''registration client is not configured'')
      | Some c \<Rightarrow>
          if TrimSpace (lq_RegistrationID request) = [] then throw (errors_New ''registration ID is required'')
          else if TrimSpace (lq_MeterID request) = [] then throw (errors_New ''meter ID is required'')
          else if TrimSpace (lq_UserReference request) = [] then throw (errors_New ''user reference is required'')
          else if \<not> sv_store svc then throw (errors_New ''nil pointer dereference'')
          else
            andThen (wrapErr (Errorf_w ''failed to save initial registration state: '')
                       (onReg (SaveMeterRegistration (re_uuids env) (pending_claim request)))) (\<lambda>_.
            andThen (liftE (failWith (Errorf_w ''register house with DEWA: '')
                       (CreateLinkRequest (re_http env) c reply))) (\<lambda>response.
            andThen (startPoll svc False response (lq_RegistrationID request)) (\<lambda>_.
            ret response))))"

text \<open>\<^verbatim>\<open>_ = call\<close>.\<close>

definition ignoring :: "('s, 'a) act \<Rightarrow> ('s, unit) act" where
  "ignoring m s = (Inr (), snd (m s))"

definition ReverifyRegistration ::
    "reg_env \<Rightarrow> Service \<Rightarrow> go_error + http_response \<Rightarrow> LinkRequest \<Rightarrow> (reg_state, LinkResponse) act" where
  "ReverifyRegistration env svc reply payload =
     (case sv_client svc of
        None \<Rightarrow> throw (errors_New ''client or store not configured'')
      | Some c \<Rightarrow>
          if \<not> sv_store svc then throw (errors_New ''client or store not configured'')
          else (\<lambda>s. case onReg (GetByRegistrationID None (lq_RegistrationID payload)) s of
            (Inl err, s1) \<Rightarrow>
              andThen (liftE (failWith (Errorf_w ''reverification creation failed: '')
                         (CreateLinkRequest (re_http env) c reply))) (\<lambda>resp.
              andThen (ignoring (onReg (SaveMeterRegistration (re_uuids env) (pending_claim payload)))) (\<lambda>_.
              andThen (startPoll svc True resp (lq_RegistrationID payload)) (\<lambda>_.
              ret resp))) s1
          | (Inr existing, s1) \<Rightarrow>
              andThen (liftE (failWith (Errorf_w ''reverification request failed: '')
                         (CreateLinkRequest (re_http env) c reply))) (\<lambda>resp.
              andThen (ignoring (onReg (UpdateMeterRegistrationStatus None (lq_RegistrationID payload)
                                          ''DEWA_APPROVAL_PENDING''))) (\<lambda>_.
              andThen (startPoll svc True resp (lq_RegistrationID payload)) (\<lambda>_.
              ret resp))) s1))"

text \<open>
  What happens around one poll: the rounds, the context of the poll when the status is stored and when the
  registration is read back, and the answer of the broker.
\<close>

record poll_run =
  pn_rounds :: "poll_round list"
  pn_update :: "infra option"
  pn_get :: "infra option"
  pn_now :: int
  pn_reply :: produced

definition newStatus :: "unicode \<Rightarrow> go_error + LinkRequestDetail \<Rightarrow> string" where
  "newStatus u r =
     (case r of
        Inl err \<Rightarrow> if Contains (err_text err) ''timed out'' then ''EXPIRED'' else ''REJECTED''
      | Inr finalResp \<Rightarrow> ToUpper u (TrimSpace (ld_Status finalResp)))"

text \<open>Everything after the poll; its errors are only logged.\<close>

definition afterPoll :: "reg_env \<Rightarrow> Service \<Rightarrow> poll_run \<Rightarrow> string \<Rightarrow> string \<Rightarrow> (reg_state, unit) act" where
  "afterPoll env svc run registrationID status =
     andThen (onReg (UpdateMeterRegistrationStatus (pn_update run) registrationID status)) (\<lambda>_.
     case sv_dispatcher svc of
       None \<Rightarrow> ret ()
     | Some k \<Rightarrow>
         if status \<noteq> ''APPROVED'' then ret ()
         else andThen (onReg (GetByRegistrationID (pn_get run) registrationID)) (\<lambda>record.
              SendActivateMeter env k (pn_now run) (pn_reply run) (rr_MeterID record)))"

text \<open>\<open>None\<close> when the utility is still being polled after the rounds of the run.\<close>

definition runPollLoop :: "reg_env \<Rightarrow> Service \<Rightarrow> poll \<Rightarrow> poll_run \<Rightarrow> reg_state \<Rightarrow> reg_state option" where
  "runPollLoop env svc p run s =
     (if sv_poller svc = None \<or> \<not> sv_store svc then Some s
      else case PollLinkRequest (re_http env) (re_unicode env) (sv_poller svc) (pl_RequestID p) (pn_rounds run) of
        None \<Rightarrow> None
      | Some r \<Rightarrow> Some (snd (afterPoll env svc run (pl_RegistrationID p) (newStatus (re_unicode env) r) s)))"

definition whenStored :: "Service \<Rightarrow> (reg_state, 'a) act \<Rightarrow> (reg_state, 'a) act" where
  "whenStored svc m = (if sv_store svc then m else throw (errors_New ''store not configured''))"

definition GetRegistration :: "Service \<Rightarrow> string \<Rightarrow> (reg_state, RegistrationRecord) act" where
  "GetRegistration svc registrationID = whenStored svc (onReg (GetByRegistrationID None registrationID))"

definition GetByMeterID :: "Service \<Rightarrow> string \<Rightarrow> (reg_state, RegistrationRecord) act" where
  "GetByMeterID svc meterID = whenStored svc (onReg (GetRegistrationByMeterID meterID))"

definition GetRegistrationByUser :: "reg_env \<Rightarrow> Service \<Rightarrow> string \<Rightarrow> (reg_state, RegistrationRecord) act" where
  "GetRegistrationByUser env svc userReference =
     whenStored svc (onReg (GetRegistrationByUserID (re_uuids env) userReference))"

abbreviation registrations :: "reg_state \<Rightarrow> registrations_row list" where
  "registrations s \<equiv> t_meter_registrations (pg_tables (rg_pg s))"

section \<open>What a poll reports\<close>

lemma getStatus_Inr:
  assumes "getStatus h endpoint reply = Inr d"
  obtains resp where "reply = Inr resp" "http_ok (ht_StatusCode resp)" "ht_decodeDetail h (ht_Body resp) = Inr d"
  using assms by (auto simp: getStatus_def inversion)

lemma pollLoop_Inr:
  "pollLoop h u p endpoint rs = Some (Inr d) \<Longrightarrow>
     \<exists>r \<in> set rs. \<exists>d0. getStatus h endpoint (pr_reply r) = Inr d0 \<and>
       ToUpper u (TrimSpace (ld_Status d0)) = ld_Status d \<and> ld_Status d \<in> {''APPROVED'', ''REJECTED''}"
proof (induction rs)
  case (Cons r rs)
  then show ?case
    by (auto simp: Let_def split: option.splits sum.splits if_splits)
qed simp

lemma PollLinkRequest_Inr:
  assumes "PollLinkRequest h u po req rounds = Some (Inr d)"
  obtains r resp d0 where "r \<in> set rounds" "pr_reply r = Inr resp" "http_ok (ht_StatusCode resp)"
    "ht_decodeDetail h (ht_Body resp) = Inr d0" "ToUpper u (TrimSpace (ld_Status d0)) = ld_Status d"
    "ld_Status d \<in> {''APPROVED'', ''REJECTED''}"
proof -
  obtain p endpoint where "pollLoop h u p endpoint rounds = Some (Inr d)"
    using assms by (auto simp: PollLinkRequest_def split: option.splits if_splits)
  from pollLoop_Inr [OF this] that show thesis by (metis getStatus_Inr)
qed

lemma upper_status [simp]:
  "ToUpper u (TrimSpace ''APPROVED'') = ''APPROVED''" "ToUpper u (TrimSpace ''REJECTED'') = ''REJECTED''"
  by (code_simp)+

lemma newStatus_values:
  assumes "PollLinkRequest h u po req rounds = Some r"
  shows "newStatus u r \<in> {''APPROVED'', ''REJECTED'', ''EXPIRED''}"
proof (cases r)
  case (Inr d)
  with assms PollLinkRequest_Inr show ?thesis by (fastforce simp: newStatus_def)
qed (simp add: newStatus_def)

section \<open>The registrations a call can leave\<close>

text \<open>
  Rows after a call: the rows before it with at most status and time changed, statuses other than \<open>S\<close> kept for
  registrations other than \<open>reg\<close>, and at most one new row.
\<close>

definition restated :: "string \<Rightarrow> string \<Rightarrow> registrations_row \<Rightarrow> registrations_row \<Rightarrow> bool" where
  "restated reg status r r' \<longleftrightarrow>
     r' = r\<lparr>r_approval_status := r_approval_status r', r_updated_at := r_updated_at r'\<rparr> \<and>
     (r_approval_status r' = r_approval_status r \<or> (r_registration_id r = reg \<and> r_approval_status r' = status))"

definition restates :: "string \<Rightarrow> string \<Rightarrow> registrations_row list \<Rightarrow> registrations_row list \<Rightarrow> bool" where
  "restates reg status = list_all2 (restated reg status)"

lemma restated_refl [simp]: "restated reg status r r"
  by (simp add: restated_def)

lemma restates_refl [simp]: "restates reg status rs rs"
  by (simp add: restates_def list.rel_refl)

lemma restates_update:
  "restates reg status rs
     (update_where (\<lambda>r. r_registration_id r = reg) (\<lambda>r. r\<lparr>r_approval_status := status, r_updated_at := now\<rparr>) rs)"
  by (induction rs) (auto simp: restates_def restated_def)

lemma restated_same:
  assumes "restated reg status r r'"
  shows "r_id r' = r_id r" "r_user_id r' = r_user_id r" "r_meter_id r' = r_meter_id r"
    "r_registration_id r' = r_registration_id r" "r_role r' = r_role r"
proof -
  obtain a t where "r' = r\<lparr>r_approval_status := a, r_updated_at := t\<rparr>" using assms by (auto simp: restated_def)
  then show "r_id r' = r_id r" "r_user_id r' = r_user_id r" "r_meter_id r' = r_meter_id r"
    "r_registration_id r' = r_registration_id r" "r_role r' = r_role r" by simp_all
qed

lemma restates_in:
  assumes "restates reg status rs rs'" "r' \<in> set rs'"
  obtains r where "r \<in> set rs" "restated reg status r r'"
  using assms unfolding restates_def by (metis list_all2_conv_all_nth in_set_conv_nth)

lemma restates_from:
  assumes "restates reg status rs rs'" "r \<in> set rs"
  obtains r' where "r' \<in> set rs'" "restated reg status r r'"
  using assms unfolding restates_def by (metis list_all2_conv_all_nth in_set_conv_nth)

lemma restates_maps:
  assumes "restates reg status rs rs'"
  shows "map r_registration_id rs' = map r_registration_id rs"
    "map (\<lambda>r. (r_meter_id r, r_role r)) rs' = map (\<lambda>r. (r_meter_id r, r_role r)) rs"
  using assms unfolding restates_def
  by (induction rule: list_all2_induct) (auto dest: restated_same)

lemma stmtCtx_tables:
  "stmtCtx ctx q p = (r, p') \<Longrightarrow> pg_tables p' = pg_tables p \<or> pg_tables p' = snd (q (pg_clock p) (pg_tables p))"
  by (auto simp: stmtCtx_def dest: stmt_tables split: option.splits)

lemma UpdateMeterRegistrationStatus_tables:
  assumes "UpdateMeterRegistrationStatus ctx reg status p = (r, p')"
  shows "restates reg status (t_meter_registrations (pg_tables p)) (t_meter_registrations (pg_tables p'))"
    "(pg_tables p')\<lparr>t_meter_registrations := []\<rparr> = (pg_tables p)\<lparr>t_meter_registrations := []\<rparr>"
proof -
  obtain r1 where s: "stmtCtx ctx (updateRegistrationSQL reg status) p = (r1, p')"
    using assms by (auto simp: UpdateMeterRegistrationStatus_def andThen_def onSql_def split: prod.splits sum.splits if_splits)
  from stmtCtx_tables [OF s]
  show "restates reg status (t_meter_registrations (pg_tables p)) (t_meter_registrations (pg_tables p'))"
    "(pg_tables p')\<lparr>t_meter_registrations := []\<rparr> = (pg_tables p)\<lparr>t_meter_registrations := []\<rparr>"
    by (auto simp: updateRegistrationSQL_def restates_update)
qed

lemma selectRegistrationSQL_reads [simp]: "snd (selectRegistrationSQL column key now T) = T"
  by (auto simp: selectRegistrationSQL_def split: option.splits)

lemma GetByRegistrationID_tables: "GetByRegistrationID ctx reg p = (r, p') \<Longrightarrow> pg_tables p' = pg_tables p"
  by (auto simp: GetByRegistrationID_def onSql_def split: prod.splits dest: stmtCtx_tables)

lemma GetByRegistrationID_Inr:
  assumes "GetByRegistrationID ctx reg p = (Inr rec, p')"
  obtains r where "r \<in> set (t_meter_registrations (pg_tables p))" "r_registration_id r = reg" "rr_MeterID rec = r_meter_id r"
proof -
  have "stmtCtx ctx (selectRegistrationSQL r_registration_id reg) p = (Inr rec, p')"
    using assms by (simp add: GetByRegistrationID_def onSql_Inr_iff)
  then have "stmt (selectRegistrationSQL r_registration_id reg) p = (Inr rec, p')"
    by (simp add: stmtCtx_def split: option.splits)
  then have s: "selectRegistrationSQL r_registration_id reg (pg_clock p) (pg_tables p) = (Inr rec, pg_tables p')"
    by (blast dest: stmt_InrD)
  show thesis
  proof (cases "find (\<lambda>r. r_registration_id r = reg) (t_meter_registrations (pg_tables p))")
    case None
    with s show thesis by (simp add: selectRegistrationSQL_def split: if_splits)
  next
    case (Some r)
    with s have "rr_MeterID rec = r_meter_id r" by (auto simp: selectRegistrationSQL_def split: if_splits)
    with find_Some_in [OF Some] that show thesis by blast
  qed
qed

text \<open>A save restates the registration or appends a row that clashes with none.\<close>

definition new_claim :: "uuids \<Rightarrow> RegistrationRecord \<Rightarrow> registrations_row list \<Rightarrow> registrations_row \<Rightarrow> bool" where
  "new_claim u rec rs r \<longleftrightarrow>
     r_registration_id r = rr_RegistrationID rec \<and> r_meter_id r = rr_MeterID rec \<and> r_role r = rr_Role rec \<and>
     uuid_in u (rr_UserID rec) = Some (r_user_id r) \<and> r_approval_status r = rr_ApprovalStatus rec \<and>
     r_registration_id r \<notin> r_registration_id ` set rs \<and>
     (r_meter_id r, r_role r) \<notin> (\<lambda>r. (r_meter_id r, r_role r)) ` set rs"

lemma saveRegistrationSQL_cases:
  assumes "saveRegistrationSQL u rec now T = (res, T')"
  obtains (refused) e where "res = Inl e" "T' = T"
  | (again) "res = Inr ()" "rr_RegistrationID rec \<in> r_registration_id ` set (t_meter_registrations T)"
      "restates (rr_RegistrationID rec) (rr_ApprovalStatus rec) (t_meter_registrations T) (t_meter_registrations T')"
  | (first) r where "res = Inr ()" "t_meter_registrations T' = t_meter_registrations T @ [r]"
      "new_claim u rec (t_meter_registrations T) r"
proof (cases "fst (saveRegistrationSQL u rec now T)")
  case (Inl e)
  with assms have "T' = T" by (auto simp: saveRegistrationSQL_def split: option.splits if_splits)
  with Inl assms that(1) show thesis by simp
next
  case (Inr a)
  then obtain user where user: "uuid_in u (rr_UserID rec) = Some user"
    by (auto simp: saveRegistrationSQL_def split: option.splits)
  show thesis
  proof (cases "\<exists>r \<in> set (t_meter_registrations T). r_registration_id r = rr_RegistrationID rec")
    case True
    then have "rr_RegistrationID rec \<in> r_registration_id ` set (t_meter_registrations T)" by (metis image_eqI)
    with True Inr assms user show thesis
      by (intro that(2)) (auto simp: saveRegistrationSQL_def restates_update split: if_splits)
  next
    case False
    with Inr assms user show thesis
      by (intro that(3)) (auto simp: saveRegistrationSQL_def new_claim_def split: if_splits)
  qed
qed

lemma SaveMeterRegistration_pending:
  "SaveMeterRegistration u (pending_claim q) =
     onSql (sqlErrorf ''save meter registration: '') (stmt (saveRegistrationSQL u (pending_claim q)))"
  by (simp add: SaveMeterRegistration_def pending_claim_def)

lemma SaveMeterRegistration_cases:
  assumes "SaveMeterRegistration u (pending_claim q) p = (res, p')"
  obtains (same) e where "res = Inl e" "pg_tables p' = pg_tables p"
  | (again) "lq_RegistrationID q \<in> r_registration_id ` set (t_meter_registrations (pg_tables p))"
      "restates (lq_RegistrationID q) ''DEWA_APPROVAL_PENDING'' (t_meter_registrations (pg_tables p))
         (t_meter_registrations (pg_tables p'))"
  | (first) r where "t_meter_registrations (pg_tables p') = t_meter_registrations (pg_tables p) @ [r]"
      "new_claim u (pending_claim q) (t_meter_registrations (pg_tables p)) r"
proof -
  obtain r1 where s: "stmt (saveRegistrationSQL u (pending_claim q)) p = (r1, p')" "res = failWith (sqlErrorf ''save meter registration: '') r1"
    using assms by (auto simp: SaveMeterRegistration_pending onSql_def split: prod.splits)
  let ?q = "saveRegistrationSQL u (pending_claim q) (pg_clock p) (pg_tables p)"
  have ran: thesis if "pg_tables p' = snd ?q" "r1 = fst ?q \<or> (\<exists>e. r1 = Inl e)"
  proof (rule saveRegistrationSQL_cases [of u "pending_claim q" "pg_clock p" "pg_tables p" "fst ?q" "snd ?q"])
    show "?q = (fst ?q, snd ?q)" by simp
  next
    fix e assume e: "fst ?q = Inl e" "snd ?q = pg_tables p"
    with that obtain e' where "r1 = Inl e'" by auto
    with that e s(2) show thesis by (intro same [of "sqlErrorf ''save meter registration: '' e'"]) simp_all
  next
    assume "rr_RegistrationID (pending_claim q) \<in> r_registration_id ` set (t_meter_registrations (pg_tables p))"
      "restates (rr_RegistrationID (pending_claim q)) (rr_ApprovalStatus (pending_claim q))
         (t_meter_registrations (pg_tables p)) (t_meter_registrations (snd ?q))"
    with that show thesis by (intro again) (simp_all add: pending_claim_def)
  next
    fix r assume "t_meter_registrations (snd ?q) = t_meter_registrations (pg_tables p) @ [r]"
      "new_claim u (pending_claim q) (t_meter_registrations (pg_tables p)) r"
    with that show thesis by (intro first [of r]) simp_all
  qed
  from s(1) show thesis
  proof (cases rule: stmt_cases)
    case run then show thesis by (intro ran) simp_all
  next
    case (failed i) with s(2) show thesis by (intro same) simp_all
  next
    case (lost i) then show thesis by (intro ran) simp_all
  qed
qed
text \<open>The keys of the table.\<close>

definition rows_ok :: "registrations_row list \<Rightarrow> bool" where
  "rows_ok R \<longleftrightarrow> distinct (map r_registration_id R) \<and> distinct (map (\<lambda>r. (r_meter_id r, r_role r)) R)"

lemma rows_ok_restates: "restates reg status R R' \<Longrightarrow> rows_ok R \<Longrightarrow> rows_ok R'"
  by (simp add: rows_ok_def restates_maps)

lemma rows_ok_new: "rows_ok R \<Longrightarrow> new_claim u rec R r \<Longrightarrow> rows_ok (R @ [r])"
  by (auto simp: rows_ok_def new_claim_def)

section \<open>What each step does\<close>

lemma onReg_iff [inversion]:
  "onReg m s = (r, s') \<longleftrightarrow> m (rg_pg s) = (r, rg_pg s') \<and> rg_messages s' = rg_messages s \<and> rg_polls s' = rg_polls s"
  by (cases s; cases s') (auto simp: onReg_def split: prod.splits)

definition polls_of :: "go_error + LinkResponse \<Rightarrow> string \<Rightarrow> bool \<Rightarrow> poll list \<Rightarrow> bool" where
  "polls_of r reg cancelled ps \<longleftrightarrow>
     ps = [] \<or> (\<exists>resp. r = Inr resp \<and> ps = [\<lparr>pl_RequestID = ls_RequestID resp, pl_RegistrationID = reg, pl_Cancelled = cancelled\<rparr>])"

lemma startPoll_effect:
  assumes "andThen (startPoll svc cancelled resp reg) (\<lambda>_. ret resp) s = (r, s')"
  obtains ps where "r = Inr resp" "rg_polls s' = rg_polls s @ ps" "polls_of r reg cancelled ps" "rg_pg s' = rg_pg s"
    "rg_messages s' = rg_messages s"
  using assms by (auto simp: andThen_def startPoll_def polls_of_def split: if_splits)

lemma claim_effect:
  assumes "Registration_RegisterHouse env svc reply q s = (r, s')"
    "lq_RegistrationID q \<notin> r_registration_id ` set (registrations s)"
  obtains (nothing) e where "r = Inl e" "registrations s' = registrations s" "rg_polls s' = rg_polls s" "rg_messages s' = rg_messages s"
  | (claimed) row ps where "registrations s' = registrations s @ [row]"
      "new_claim (re_uuids env) (pending_claim q) (registrations s) row"
      "rg_polls s' = rg_polls s @ ps" "polls_of r (lq_RegistrationID q) False ps" "rg_messages s' = rg_messages s"
proof -
  let ?save = "wrapErr (Errorf_w ''failed to save initial registration state: '')
                 (onReg (SaveMeterRegistration (re_uuids env) (pending_claim q)))"
  show thesis
  proof (cases "\<exists>c. sv_client svc = Some c \<and> TrimSpace (lq_RegistrationID q) \<noteq> [] \<and> TrimSpace (lq_MeterID q) \<noteq> [] \<and>
      TrimSpace (lq_UserReference q) \<noteq> [] \<and> sv_store svc")
    case False
    with assms(1) have "(\<exists>e. r = Inl e) \<and> s' = s"
      by (auto simp: Registration_RegisterHouse_def split: option.splits if_splits)
    then show thesis by (elim conjE exE) (rule nothing, simp_all)
  next
    case True
    then obtain c where run: "andThen ?save (\<lambda>_.
        andThen (liftE (failWith (Errorf_w ''register house with DEWA: '') (CreateLinkRequest (re_http env) c reply))) (\<lambda>response.
        andThen (startPoll svc False response (lq_RegistrationID q)) (\<lambda>_. ret response))) s = (r, s')"
      using assms(1) by (auto simp: Registration_RegisterHouse_def)
    obtain r1 s1 where s1: "SaveMeterRegistration (re_uuids env) (pending_claim q) (rg_pg s) = (r1, rg_pg s1)"
        "rg_messages s1 = rg_messages s" "rg_polls s1 = rg_polls s"
      and sv: "?save s = (failWith (Errorf_w ''failed to save initial registration state: '') r1, s1)"
      by (cases "onReg (SaveMeterRegistration (re_uuids env) (pending_claim q)) s") (auto simp: wrapErr_def onReg_iff)
    have rest: "\<exists>ps. rg_polls s' = rg_polls s @ ps \<and> polls_of r (lq_RegistrationID q) False ps \<and> rg_pg s' = rg_pg s1 \<and>
        rg_messages s' = rg_messages s"
    proof (cases r1)
      case (Inl e)
      with run sv s1 show ?thesis by (auto simp: andThen_def polls_of_def)
    next
      case (Inr u)
      show ?thesis
      proof (cases "CreateLinkRequest (re_http env) c reply")
        case (Inl e) with Inr run sv s1 show ?thesis by (auto simp: andThen_def polls_of_def)
      next
        case (Inr resp)
        with \<open>r1 = Inr u\<close> run sv have "andThen (startPoll svc False resp (lq_RegistrationID q)) (\<lambda>_. ret resp) s1 = (r, s')"
          by (simp add: andThen_def)
        then show ?thesis by (rule startPoll_effect) (use s1 in auto)
      qed
    qed
    from s1(1) show thesis
    proof (cases rule: SaveMeterRegistration_cases)
      case (same e)
      with run sv have "s' = s1" and r: "\<exists>e. r = Inl e" by (auto simp: andThen_def)
      with same s1 show thesis by (elim exE) (rule nothing, simp_all)
    next
      case again with assms(2) show thesis by simp
    next
      case (first row)
      with rest show thesis by (auto intro: claimed)
    qed
  qed
qed

lemma reverify_effect:
  assumes "ReverifyRegistration env svc reply q s = (r, s')"
  obtains (nothing) e where "r = Inl e" "registrations s' = registrations s" "rg_polls s' = rg_polls s" "rg_messages s' = rg_messages s"
  | (restated) ps where
      "restates (lq_RegistrationID q) ''DEWA_APPROVAL_PENDING'' (registrations s) (registrations s')"
      "rg_polls s' = rg_polls s @ ps" "polls_of r (lq_RegistrationID q) True ps" "rg_messages s' = rg_messages s"
  | (claimed) row ps where "registrations s' = registrations s @ [row]"
      "new_claim (re_uuids env) (pending_claim q) (registrations s) row"
      "rg_polls s' = rg_polls s @ ps" "polls_of r (lq_RegistrationID q) True ps" "rg_messages s' = rg_messages s"
proof (cases "\<exists>c. sv_client svc = Some c \<and> sv_store svc")
  case False
  with assms have "(\<exists>e. r = Inl e) \<and> s' = s"
    by (auto simp: ReverifyRegistration_def split: option.splits if_splits)
  then show thesis by (elim conjE exE) (rule nothing, simp_all)
next
  case True
  then obtain c where c: "sv_client svc = Some c" "sv_store svc" by blast
  obtain found s1 where get: "onReg (GetByRegistrationID None (lq_RegistrationID q)) s = (found, s1)"
    by (cases "onReg (GetByRegistrationID None (lq_RegistrationID q)) s")
  then have s1: "registrations s1 = registrations s" "rg_polls s1 = rg_polls s" "rg_messages s1 = rg_messages s"
    by (auto simp: onReg_iff dest: GetByRegistrationID_tables)
  have rest: "rg_polls s' = rg_polls s \<and> rg_messages s' = rg_messages s \<and> registrations s' = registrations s \<and> (\<exists>e. r = Inl e) \<or>
      (\<exists>p r2 ps. m (rg_pg s1) = (r2, p) \<and> rg_pg s' = p \<and> rg_polls s' = rg_polls s @ ps \<and>
         polls_of r (lq_RegistrationID q) True ps \<and> rg_messages s' = rg_messages s)"
    if run: "andThen (liftE (failWith w (CreateLinkRequest (re_http env) c reply))) (\<lambda>resp.
       andThen (ignoring (onReg m)) (\<lambda>_.
       andThen (startPoll svc True resp (lq_RegistrationID q)) (\<lambda>_. ret resp))) s1 = (r, s')"
    for w and m :: "(pg, unit) act"
  proof (cases "CreateLinkRequest (re_http env) c reply")
    case (Inl e)
    with run s1 show ?thesis by (auto simp: andThen_def)
  next
    case (Inr resp)
    obtain r2 s2 where m: "onReg m s1 = (r2, s2)" by (cases "onReg m s1")
    with Inr run have "andThen (startPoll svc True resp (lq_RegistrationID q)) (\<lambda>_. ret resp) s2 = (r, s')"
      by (simp add: andThen_def ignoring_def)
    then show ?thesis by (rule startPoll_effect) (use m s1 in \<open>auto simp: onReg_iff\<close>)
  qed
  show thesis
  proof (cases found)
    case (Inl err)
    with assms c get have "andThen (liftE (failWith (Errorf_w ''reverification creation failed: '')
        (CreateLinkRequest (re_http env) c reply))) (\<lambda>resp.
       andThen (ignoring (onReg (SaveMeterRegistration (re_uuids env) (pending_claim q)))) (\<lambda>_.
       andThen (startPoll svc True resp (lq_RegistrationID q)) (\<lambda>_. ret resp))) s1 = (r, s')"
      by (simp add: ReverifyRegistration_def)
    from rest [OF this] show thesis
    proof (elim disjE conjE exE)
      fix p r2 ps
      assume sv: "SaveMeterRegistration (re_uuids env) (pending_claim q) (rg_pg s1) = (r2, p)" "rg_pg s' = p"
        and ps: "rg_polls s' = rg_polls s @ ps" "polls_of r (lq_RegistrationID q) True ps" "rg_messages s' = rg_messages s"
      from sv(1) show thesis
      proof (cases rule: SaveMeterRegistration_cases)
        case (same e) with sv(2) s1 ps show thesis by (intro restated) simp_all
      next
        case again with sv(2) s1 ps show thesis by (intro restated) simp_all
      next
        case (first row) with sv(2) s1 ps show thesis by (intro claimed) simp_all
      qed
    qed (rule nothing)
  next
    case (Inr existing)
    with assms c get have "andThen (liftE (failWith (Errorf_w ''reverification request failed: '')
        (CreateLinkRequest (re_http env) c reply))) (\<lambda>resp.
       andThen (ignoring (onReg (UpdateMeterRegistrationStatus None (lq_RegistrationID q) ''DEWA_APPROVAL_PENDING''))) (\<lambda>_.
       andThen (startPoll svc True resp (lq_RegistrationID q)) (\<lambda>_. ret resp))) s1 = (r, s')"
      by (simp add: ReverifyRegistration_def)
    from rest [OF this] show thesis
    proof (elim disjE conjE exE)
      fix p r2 ps
      assume up: "UpdateMeterRegistrationStatus None (lq_RegistrationID q) ''DEWA_APPROVAL_PENDING'' (rg_pg s1) = (r2, p)" "rg_pg s' = p"
        and ps: "rg_polls s' = rg_polls s @ ps" "polls_of r (lq_RegistrationID q) True ps" "rg_messages s' = rg_messages s"
      from UpdateMeterRegistrationStatus_tables(1) [OF up(1)] up(2) s1 ps show thesis by (intro restated) simp_all
    qed (rule nothing)
  qed
qed

lemma SendActivateMeter_effect:
  assumes "SendActivateMeter env k now reply meterID s = (r, s')"
  obtains "s' = s" | v where "s' = s\<lparr>rg_messages := rg_messages s @ [\<lparr>km_Topic = kp_topic k, km_Key = meterID, km_Value = v\<rparr>]\<rparr>"
proof -
  let ?m = "re_marshal env \<lparr>cm_Action = ''ACTIVATE_METER'', cm_HouseID = [], cm_MeterID = meterID, cm_AssetID = [],
    cm_Timestamp = Format_RFC3339 now, cm_PowerKw = 0, cm_Metadata = []\<rparr>"
  show thesis
  proof (cases ?m)
    case (Inl e) with assms show thesis by (intro that(1)) (simp add: SendActivateMeter_def SendCommand_def andThen_def)
  next
    case (Inr v)
    then have "s' = snd (ProduceSync reply \<lparr>km_Topic = kp_topic k, km_Key = meterID, km_Value = v\<rparr> s)"
      using assms by (auto simp: SendActivateMeter_def SendCommand_def andThen_def wrapErr_def split: prod.splits)
    then show thesis by (cases reply) (auto intro: that)
  qed
qed

lemma Update_approved_row:
  assumes "UpdateMeterRegistrationStatus ctx reg status p = (Inr u, p')" "r \<in> set (t_meter_registrations (pg_tables p'))"
    "r_registration_id r = reg"
  shows "r_approval_status r = status"
proof -
  obtain n where "stmtCtx ctx (updateRegistrationSQL reg status) p = (Inr n, p')"
    using assms(1) by (auto simp: UpdateMeterRegistrationStatus_def andThen_Inr_iff onSql_Inr_iff split: if_splits)
  then have "stmt (updateRegistrationSQL reg status) p = (Inr n, p')" by (simp add: stmtCtx_def split: option.splits)
  then have q: "updateRegistrationSQL reg status (pg_clock p) (pg_tables p) = (Inr n, pg_tables p')" by (blast dest: stmt_InrD)
  then have "text_ok reg \<and> status \<in> approval_statuses"
    by (cases "text_ok reg"; cases "status \<in> approval_statuses") (simp_all add: updateRegistrationSQL_def)
  with arg_cong [OF q, of "\<lambda>x. t_meter_registrations (snd x)"]
  have "t_meter_registrations (pg_tables p') = update_where (\<lambda>r. r_registration_id r = reg)
      (\<lambda>r. r\<lparr>r_approval_status := status, r_updated_at := pg_clock p\<rparr>) (t_meter_registrations (pg_tables p))"
    by (simp add: updateRegistrationSQL_def)
  with assms(2) have "r \<in> (\<lambda>r. r\<lparr>r_approval_status := status, r_updated_at := pg_clock p\<rparr>) `
      {r \<in> set (t_meter_registrations (pg_tables p)). r_registration_id r = reg} \<union>
      {r \<in> set (t_meter_registrations (pg_tables p)). r_registration_id r \<noteq> reg}"
    by (simp only: set_update_where)
  then show ?thesis using assms(3) by (elim UnE imageE) simp_all
qed

lemma afterPoll_effect:
  assumes "afterPoll env svc run reg status s = (r, s')"
  obtains ms where "restates reg status (registrations s) (registrations s')" "rg_polls s' = rg_polls s"
    "rg_messages s' = rg_messages s @ ms"
    "ms = [] \<or> (status = ''APPROVED'' \<and> (\<exists>m row. ms = [m] \<and> row \<in> set (registrations s') \<and>
       r_registration_id row = reg \<and> r_approval_status row = ''APPROVED'' \<and> km_Key m = r_meter_id row))"
proof -
  obtain r1 s1 where up: "onReg (UpdateMeterRegistrationStatus (pn_update run) reg status) s = (r1, s1)"
    by (cases "onReg (UpdateMeterRegistrationStatus (pn_update run) reg status) s")
  then have s1: "restates reg status (registrations s) (registrations s1)" "rg_polls s1 = rg_polls s" "rg_messages s1 = rg_messages s"
    by (auto simp: onReg_iff dest: UpdateMeterRegistrationStatus_tables(1))
  note quiet = that [of "[]"]
  show thesis
  proof (cases "\<exists>u k. r1 = Inr u \<and> status = ''APPROVED'' \<and> sv_dispatcher svc = Some k")
    case False
    with assms up have "s' = s1" by (auto simp: afterPoll_def andThen_def split: sum.splits option.splits if_splits)
    with s1 quiet show thesis by simp
  next
    case True
    then obtain u k where k: "r1 = Inr u" "status = ''APPROVED''" "sv_dispatcher svc = Some k" by blast
    obtain r2 s2 where get: "onReg (GetByRegistrationID (pn_get run) reg) s1 = (r2, s2)"
      by (cases "onReg (GetByRegistrationID (pn_get run) reg) s1")
    then have s2: "registrations s2 = registrations s1" "rg_polls s2 = rg_polls s1" "rg_messages s2 = rg_messages s1"
      by (auto simp: onReg_iff dest: GetByRegistrationID_tables)
    show thesis
    proof (cases r2)
      case (Inl e)
      with assms up k get have "s' = s2" by (simp add: afterPoll_def andThen_def)
      with s1 s2 quiet show thesis by simp
    next
      case (Inr rec)
      then have "GetByRegistrationID (pn_get run) reg (rg_pg s1) = (Inr rec, rg_pg s2)" using get by (simp add: onReg_iff)
      then obtain row where row: "row \<in> set (registrations s1)" "r_registration_id row = reg" "rr_MeterID rec = r_meter_id row"
        by (rule GetByRegistrationID_Inr)
      have "UpdateMeterRegistrationStatus (pn_update run) reg status (rg_pg s) = (Inr u, rg_pg s1)"
        using up k(1) by (simp add: onReg_iff)
      then have "r_approval_status row = ''APPROVED''" using Update_approved_row row(1,2) k(2) by blast
      moreover have "SendActivateMeter env k (pn_now run) (pn_reply run) (rr_MeterID rec) s2 = (r, s')"
        using assms up k get Inr by (simp add: afterPoll_def andThen_def)
      then show thesis
      proof (cases rule: SendActivateMeter_effect)
        case 1 with s1 s2 quiet show thesis by simp
      next
        case (2 v)
        with row s1 s2 k(2) calculation show thesis by (intro that [of "[_]"]) auto
      qed
    qed
  qed
qed

text \<open>The messages a poll's approval leaves in the command topic.\<close>

definition activation :: "reg_env \<Rightarrow> KafkaActuationProducer \<Rightarrow> poll_run \<Rightarrow> string \<Rightarrow> kafka_message list" where
  "activation env k run meter =
     (case re_marshal env \<lparr>cm_Action = ''ACTIVATE_METER'', cm_HouseID = [], cm_MeterID = meter, cm_AssetID = [],
             cm_Timestamp = Format_RFC3339 (pn_now run), cm_PowerKw = 0, cm_Metadata = []\<rparr> of
        Inl e \<Rightarrow> []
      | Inr v \<Rightarrow> (case pn_reply run of Refused e \<Rightarrow> [] | _ \<Rightarrow> [\<lparr>km_Topic = kp_topic k, km_Key = meter, km_Value = v\<rparr>]))"

lemma SendActivateMeter_appends:
  "snd (SendActivateMeter env k (pn_now run) (pn_reply run) meter s) =
     s\<lparr>rg_messages := rg_messages s @ activation env k run meter\<rparr>"
  by (cases "pn_reply run")
     (simp_all add: activation_def SendActivateMeter_def SendCommand_def andThen_def wrapErr_def split: sum.splits)

lemma onReg_apply: "onReg m s = (fst (m (rg_pg s)), s\<lparr>rg_pg := snd (m (rg_pg s))\<rparr>)"
  by (simp add: onReg_def split: prod.splits)

lemma deadline_expires: "newStatus u (Inl (pollingError p CtxDeadline)) = ''EXPIRED''"
proof -
  have "''DEWA registration polling timed out after '' = ''DEWA registration polling '' @ ''timed out'' @ '' after ''" by simp
  then have "Contains ''DEWA registration polling timed out after '' ''timed out''" by (simp only: Contains_middle)
  then have "Contains (err_text (pollingError p CtxDeadline)) ''timed out''"
    unfolding pollingError_def if_P [OF refl] err_text_Errorf_w by (intro Contains_append_right)
  then show ?thesis by (simp only: newStatus_def sum.case if_True)
qed

lemma status_known: "PollLinkRequest h u po req rounds = Some r \<Longrightarrow> newStatus u r \<in> approval_statuses"
  using newStatus_values [of h u po req rounds r] by (auto simp: approval_statuses_def)

lemma stmtCtx_None: "stmtCtx None q = stmt q"
  by (rule ext) (simp add: stmtCtx_def)

lemma Update_quiet:
  assumes "pg_quiet p" "row \<in> set (t_meter_registrations (pg_tables p))" "r_registration_id row = reg" "text_ok reg"
    "status \<in> approval_statuses"
  shows "UpdateMeterRegistrationStatus None reg status p =
    (Inr (), p\<lparr>pg_tables := (pg_tables p)\<lparr>t_meter_registrations :=
       update_where (\<lambda>r. r_registration_id r = reg) (\<lambda>r. r\<lparr>r_approval_status := status, r_updated_at := pg_clock p\<rparr>)
         (t_meter_registrations (pg_tables p))\<rparr>\<rparr>)"
proof -
  have "filter (\<lambda>r. r_registration_id r = reg) (t_meter_registrations (pg_tables p)) \<noteq> []"
    using assms(2,3) by (auto simp: filter_empty_conv)
  with assms show ?thesis
    by (simp add: UpdateMeterRegistrationStatus_def stmtCtx_None onSql_stmt_quiet updateRegistrationSQL_def andThen_def)
qed

lemma Get_quiet:
  assumes "pg_quiet p" "rows_ok (t_meter_registrations (pg_tables p))" "row \<in> set (t_meter_registrations (pg_tables p))"
    "r_registration_id row = reg" "text_ok reg"
  shows "\<exists>rec. GetByRegistrationID None reg p = (Inr rec, p) \<and> rr_MeterID rec = r_meter_id row"
proof -
  have "find (\<lambda>r. r_registration_id r = reg) (t_meter_registrations (pg_tables p)) = Some row"
    using find_distinct_key [of r_registration_id "t_meter_registrations (pg_tables p)" row] assms(2,3,4) by (simp add: rows_ok_def)
  with assms(1,5) show ?thesis
    by (simp add: GetByRegistrationID_def stmtCtx_None onSql_stmt_quiet selectRegistrationSQL_def)
qed

text \<open>
  C37. The outcome of a poll.  With a live context and a database that answers, the registration gets the status the poll
  ended with, the time of the change and nothing else; a command is sent to its meter exactly when that
  status is an approval; a poll that ran out of time leaves \<^verbatim>\<open>EXPIRED\<close>.  With a context already cancelled nothing
  is written and nothing sent, whatever the utility answered.
\<close>

theorem runPollLoop_outcome:
  assumes "sv_poller svc = Some po" "sv_store svc" "sv_dispatcher svc = Some k"
    and "PollLinkRequest (re_http env) (re_unicode env) (Some po) (pl_RequestID p) (pn_rounds run) = Some r"
    and "pg_quiet (rg_pg s)" "rows_ok (registrations s)" "row \<in> set (registrations s)"
    and "r_registration_id row = pl_RegistrationID p" "text_ok (pl_RegistrationID p)" "pn_get run = None"
  shows "\<exists>s' status. runPollLoop env svc p run s = Some s' \<and>
    (pn_update run = None \<longrightarrow>
       registrations s' = update_where (\<lambda>r. r_registration_id r = pl_RegistrationID p)
          (\<lambda>r. r\<lparr>r_approval_status := status, r_updated_at := pg_clock (rg_pg s)\<rparr>) (registrations s) \<and>
       rg_messages s' = rg_messages s @ (if status = ''APPROVED'' then activation env k run (r_meter_id row) else [])) \<and>
    (pn_update run \<noteq> None \<longrightarrow> s' = s) \<and>
    (case r of Inr d \<Rightarrow> status = ld_Status d \<and> status \<in> {''APPROVED'', ''REJECTED''}
     | Inl e \<Rightarrow> status \<in> {''EXPIRED'', ''REJECTED''} \<and> (e = pollingError po CtxDeadline \<longrightarrow> status = ''EXPIRED''))"
proof -
  let ?reg = "pl_RegistrationID p"
  define status where "status = newStatus (re_unicode env) r"
  define s' where "s' = snd (afterPoll env svc run ?reg status s)"
  then have s': "afterPoll env svc run ?reg status s = (fst (afterPoll env svc run ?reg status s), s')" by simp
  have run: "runPollLoop env svc p run s = Some s'"
    using assms(1,2,4) by (simp add: runPollLoop_def status_def s'_def)
  have known: "status \<in> approval_statuses" using status_known [OF assms(4)] by (simp add: status_def)
  have case_r: "case r of Inr d \<Rightarrow> status = ld_Status d \<and> status \<in> {''APPROVED'', ''REJECTED''}
     | Inl e \<Rightarrow> status \<in> {''EXPIRED'', ''REJECTED''} \<and> (e = pollingError po CtxDeadline \<longrightarrow> status = ''EXPIRED'')"
  proof (cases r)
    case (Inl e)
    then show ?thesis by (auto simp: status_def deadline_expires) (simp add: newStatus_def split: if_splits)
  next
    case (Inr d)
    then obtain "ld_Status d \<in> {''APPROVED'', ''REJECTED''}" using PollLinkRequest_Inr assms(4) by metis
    with Inr show ?thesis by (auto simp: status_def newStatus_def)
  qed
  define p1 where "p1 = (rg_pg s)\<lparr>pg_tables := (pg_tables (rg_pg s))\<lparr>t_meter_registrations :=
       update_where (\<lambda>r. r_registration_id r = ?reg) (\<lambda>r. r\<lparr>r_approval_status := status, r_updated_at := pg_clock (rg_pg s)\<rparr>)
         (registrations s)\<rparr>\<rparr>"
  show ?thesis
  proof (intro exI [of _ s'] exI [of _ status] conjI impI run case_r)
    assume live: "pn_update run = None"
    have up: "onReg (UpdateMeterRegistrationStatus (pn_update run) ?reg status) s = (Inr (), s\<lparr>rg_pg := p1\<rparr>)"
      using Update_quiet [OF assms(5,7,8,9) known] live by (simp add: onReg_apply p1_def)
    let ?row = "row\<lparr>r_approval_status := status, r_updated_at := pg_clock (rg_pg s)\<rparr>"
    have "rows_ok (t_meter_registrations (pg_tables p1))"
      using rows_ok_restates [OF restates_update assms(6)] by (simp add: p1_def)
    moreover have "?row \<in> set (t_meter_registrations (pg_tables p1))"
      using in_update_where [OF assms(7)] assms(8) by (simp add: p1_def)
    moreover have "pg_quiet p1" using assms(5) by (simp add: p1_def)
    ultimately obtain rec where rec: "GetByRegistrationID None ?reg p1 = (Inr rec, p1)" "rr_MeterID rec = r_meter_id row"
      using Get_quiet [of p1 ?row ?reg] assms(8,9) by auto
    have get: "onReg (GetByRegistrationID (pn_get run) ?reg) (s\<lparr>rg_pg := p1\<rparr>) = (Inr rec, s\<lparr>rg_pg := p1\<rparr>)"
      using rec(1) assms(10) by (simp add: onReg_apply)
    have "afterPoll env svc run ?reg status s =
        (if status = ''APPROVED'' then SendActivateMeter env k (pn_now run) (pn_reply run) (r_meter_id row) (s\<lparr>rg_pg := p1\<rparr>)
         else (Inr (), s\<lparr>rg_pg := p1\<rparr>))"
      by (simp add: afterPoll_def andThen_def up get assms(3) rec(2))
    then have s'_eq: "s' = s\<lparr>rg_pg := p1, rg_messages := rg_messages s @
        (if status = ''APPROVED'' then activation env k run (r_meter_id row) else [])\<rparr>"
      by (simp add: s'_def SendActivateMeter_appends)
    show "registrations s' = update_where (\<lambda>r. r_registration_id r = ?reg)
          (\<lambda>r. r\<lparr>r_approval_status := status, r_updated_at := pg_clock (rg_pg s)\<rparr>) (registrations s)"
      "rg_messages s' = rg_messages s @ (if status = ''APPROVED'' then activation env k run (r_meter_id row) else [])"
      by (simp_all add: s'_eq p1_def)
  next
    assume "pn_update run \<noteq> None"
    then obtain i where "pn_update run = Some i" by blast
    then have "onReg (UpdateMeterRegistrationStatus (pn_update run) ?reg status) s = (Inl (sqlErrorf ''update meter registration status: '' (Infra i)), s)"
      by (simp add: onReg_def UpdateMeterRegistrationStatus_def stmtCtx_def onSql_def andThen_def)
    with s' show "s' = s" by (simp add: afterPoll_def andThen_def)
  qed
qed

section \<open>An example, and what the claims do not guard against\<close>

definition sample_env_reg :: reg_env where
  "sample_env_reg =
     \<lparr>re_uuids = \<lparr>uuid_in = Some, uuid_new = \<lambda>_. ''id''\<rparr>,
      re_http = \<lparr>ht_newRequest = \<lambda>_. None,
                 ht_decodeLink = \<lambda>_. Inr \<lparr>ls_RequestID = ''q1'', ls_Status = ''PENDING'', ls_Message = []\<rparr>,
                 ht_decodeDetail = \<lambda>b. Inr \<lparr>ld_RegistrationID = ''r1'', ld_MeterID = ''m1'', ld_Status = b\<rparr>,
                 ht_pathEscape = id\<rparr>,
      re_unicode = \<lparr>uc_upper = id, uc_lower = id\<rparr>, re_marshal = \<lambda>c. Inr (cm_Action c)\<rparr>"

definition sample_service :: Service where
  "sample_service =
     (let c = NewClient ''http://dewa/'' in
      NewService (Some c) (Some (NewPoller c)) True (Some \<lparr>kp_topic = ''iot.actuation.commands''\<rparr>))"

definition sample_reply :: "string \<Rightarrow> go_error + http_response" where
  "sample_reply body = Inr \<lparr>ht_StatusCode = 200, ht_Body = body\<rparr>"

definition sample_run :: poll_run where
  "sample_run =
     \<lparr>pn_rounds = [\<lparr>pr_before = None, pr_reply = sample_reply ''pending'', pr_after = None, pr_wait = None\<rparr>,
                   \<lparr>pr_before = None, pr_reply = sample_reply '' Approved'', pr_after = None, pr_wait = None\<rparr>],
      pn_update = None, pn_get = None, pn_now = 0, pn_reply = Acked\<rparr>"

definition sample_claim :: LinkRequest where
  "sample_claim = \<lparr>lq_RegistrationID = ''r1'', lq_MeterID = ''m1'', lq_UserReference = ''u1''\<rparr>"

definition sample_claimed :: "(go_error + LinkResponse) \<times> reg_state" where
  "sample_claimed =
     Registration_RegisterHouse sample_env_reg sample_service (sample_reply []) sample_claim
       \<lparr>rg_pg = quiet_pg empty_tables 0, rg_messages = [], rg_polls = []\<rparr>"

definition sample_poll :: poll where
  "sample_poll = \<lparr>pl_RequestID = ''q1'', pl_RegistrationID = ''r1'', pl_Cancelled = False\<rparr>"

definition sample_polled :: "reg_state option" where
  "sample_polled =
     runPollLoop sample_env_reg sample_service sample_poll sample_run ((snd sample_claimed)\<lparr>rg_polls := []\<rparr>)"

definition sample_row :: "string \<Rightarrow> registrations_row" where
  "sample_row status =
     \<lparr>r_id = ''id'', r_user_id = ''u1'', r_meter_id = ''m1'', r_registration_id = ''r1'', r_approval_status = status,
      r_role = ''PRIMARY_OWNER'', r_created_at = 0, r_updated_at = 0\<rparr>"

lemma sample_texts:
  "text_ok ''r1''" "text_ok ''m1''" "TrimSpace ''r1'' \<noteq> []" "TrimSpace ''m1'' \<noteq> []" "TrimSpace ''u1'' \<noteq> []"
  "''PRIMARY_OWNER'' \<in> owner_roles" "''DEWA_APPROVAL_PENDING'' \<in> approval_statuses"
  by code_simp+

lemma sample_accepts:
  "CreateLinkRequest (re_http sample_env_reg) c (sample_reply b) = Inr \<lparr>ls_RequestID = ''q1'', ls_Status = ''PENDING'', ls_Message = []\<rparr>"
  by (simp add: CreateLinkRequest_def sample_env_reg_def sample_reply_def http_ok_def)

lemma sample_save:
  "SaveMeterRegistration (re_uuids sample_env_reg) (pending_claim sample_claim) (quiet_pg empty_tables 0) =
     (Inr (), quiet_pg (empty_tables\<lparr>t_meter_registrations := [sample_row ''DEWA_APPROVAL_PENDING'']\<rparr>) 0)"
  unfolding SaveMeterRegistration_pending
  by (simp add: onSql_stmt_quiet saveRegistrationSQL_def sample_env_reg_def sample_claim_def
      sample_row_def pending_claim_def empty_tables_def quiet_pg_def sample_texts)

lemma sample_claimed_eq:
  "sample_claimed =
     (Inr \<lparr>ls_RequestID = ''q1'', ls_Status = ''PENDING'', ls_Message = []\<rparr>,
      \<lparr>rg_pg = quiet_pg (empty_tables\<lparr>t_meter_registrations := [sample_row ''DEWA_APPROVAL_PENDING'']\<rparr>) 0,
       rg_messages = [], rg_polls = [sample_poll]\<rparr>)"
proof -
  have c: "sv_client sample_service = Some (NewClient ''http://dewa/'')" "sv_store sample_service" "sv_poller sample_service \<noteq> None"
    by (simp_all add: sample_service_def NewService_def Let_def)
  have q: "lq_RegistrationID sample_claim = ''r1''" "lq_MeterID sample_claim = ''m1''" "lq_UserReference sample_claim = ''u1''"
    by (simp_all add: sample_claim_def)
  show ?thesis
    unfolding sample_claimed_def Registration_RegisterHouse_def c q
    by (simp add: c sample_texts onReg_def sample_save sample_accepts andThen_def wrapErr_def startPoll_def sample_poll_def)
qed

lemma sample_PollLinkRequest:
  "\<exists>po r. sv_poller sample_service = Some po \<and>
     PollLinkRequest (re_http sample_env_reg) (re_unicode sample_env_reg) (Some po) ''q1'' (pn_rounds sample_run) = Some (Inr r) \<and>
     ld_Status r = ''APPROVED''"
proof -
  let ?u = "re_unicode sample_env_reg"
  have u: "ToUpper ?u (TrimSpace ''pending'') = ''PENDING''" "ToUpper ?u (TrimSpace '' Approved'') = ''APPROVED''"
    "TrimSpace ''pending'' \<noteq> []" "TrimSpace '' Approved'' \<noteq> []" "TrimSpace ''q1'' \<noteq> []"
    by code_simp+
  have d: "getStatus (re_http sample_env_reg) e (sample_reply b) = Inr \<lparr>ld_RegistrationID = ''r1'', ld_MeterID = ''m1'', ld_Status = b\<rparr>"
    if "TrimSpace b \<noteq> []" for e b
    using that by (simp add: getStatus_def sample_env_reg_def sample_reply_def http_ok_def)
  have l: "pollLoop (re_http sample_env_reg) ?u po e (pn_rounds sample_run) =
      Some (Inr \<lparr>ld_RegistrationID = ''r1'', ld_MeterID = ''m1'', ld_Status = ''APPROVED''\<rparr>)" for po e
    by (simp add: sample_run_def d u Let_def)
  show ?thesis
    by (simp add: sample_service_def NewService_def Let_def NewPoller_def PollLinkRequest_def u l defaultPollInterval_def
        defaultPollTimeout_def)
qed

lemma sample_polled_approved:
  "\<exists>s'. sample_polled = Some s' \<and> registrations s' = [sample_row ''APPROVED''] \<and> map km_Key (rg_messages s') = [''m1''] \<and>
     pg_quiet (rg_pg s')"
proof -
  obtain po r where po: "sv_poller sample_service = Some po" "ld_Status r = ''APPROVED''"
    "PollLinkRequest (re_http sample_env_reg) (re_unicode sample_env_reg) (Some po) ''q1'' (pn_rounds sample_run) = Some (Inr r)"
    using sample_PollLinkRequest by blast
  have "newStatus (re_unicode sample_env_reg) (Inr r) = ''APPROVED''" by (simp add: newStatus_def po)
  moreover have "sv_dispatcher sample_service = Some \<lparr>kp_topic = ''iot.actuation.commands''\<rparr>" "sv_store sample_service"
    by (simp_all add: sample_service_def NewService_def Let_def)
  moreover have "pn_update sample_run = None" "pn_get sample_run = None" "pn_reply sample_run = Acked" "pn_now sample_run = 0"
    by (simp_all add: sample_run_def)
  moreover let ?p = "\<lambda>st. quiet_pg (empty_tables\<lparr>t_meter_registrations := [sample_row st]\<rparr>) 0"
  have "UpdateMeterRegistrationStatus None ''r1'' ''APPROVED'' (?p ''DEWA_APPROVAL_PENDING'') = (Inr (), ?p ''APPROVED'')"
    using Update_quiet [of "?p ''DEWA_APPROVAL_PENDING''" "sample_row ''DEWA_APPROVAL_PENDING''" "''r1''" "''APPROVED''"]
    by (simp add: sample_texts sample_row_def approval_statuses_def quiet_pg_def)
  moreover obtain rec where "GetByRegistrationID None ''r1'' (?p ''APPROVED'') = (Inr rec, ?p ''APPROVED'')" "rr_MeterID rec = ''m1''"
    using Get_quiet [of "?p ''APPROVED''" "sample_row ''APPROVED''" "''r1''"]
    by (auto simp: sample_texts sample_row_def rows_ok_def)
  moreover have "re_marshal sample_env_reg c = Inr (cm_Action c)" for c by (simp add: sample_env_reg_def)
  moreover have "pl_RequestID sample_poll = ''q1''" "pl_RegistrationID sample_poll = ''r1''" by (simp_all add: sample_poll_def)
  ultimately show ?thesis
    by (simp add: sample_polled_def runPollLoop_def po sample_claimed_eq afterPoll_def andThen_def onReg_apply
        SendActivateMeter_def SendCommand_def wrapErr_def)
qed

theorem runPollLoop_outcome_witness:
  "\<exists>s'. runPollLoop sample_env_reg sample_service sample_poll sample_run (snd sample_claimed) = Some s' \<and>
     map r_approval_status (registrations s') = [''APPROVED'']"
proof -
  obtain po r where po: "sv_poller sample_service = Some po" "ld_Status r = ''APPROVED''"
    "PollLinkRequest (re_http sample_env_reg) (re_unicode sample_env_reg) (Some po) (pl_RequestID sample_poll) (pn_rounds sample_run) = Some (Inr r)"
    using sample_PollLinkRequest by (auto simp: sample_poll_def)
  have st: "sv_store sample_service" "sv_dispatcher sample_service = Some \<lparr>kp_topic = ''iot.actuation.commands''\<rparr>"
    by (simp_all add: sample_service_def NewService_def Let_def)
  have row: "pg_quiet (rg_pg (snd sample_claimed))" "rows_ok (registrations (snd sample_claimed))"
    "sample_row ''DEWA_APPROVAL_PENDING'' \<in> set (registrations (snd sample_claimed))"
    "r_registration_id (sample_row ''DEWA_APPROVAL_PENDING'') = pl_RegistrationID sample_poll"
    "text_ok (pl_RegistrationID sample_poll)" "pn_get sample_run = None" "pn_update sample_run = None"
    by (simp_all add: sample_claimed_eq rows_ok_def sample_row_def sample_poll_def sample_texts sample_run_def)
  show ?thesis
    using runPollLoop_outcome [OF po(1) st po(3) row(1-6)] row(4,7) po(2) by (auto simp: sample_claimed_eq)
qed

text \<open>The meter named in the utility's answer plays no part: an approval of another meter approves the registration.\<close>

definition with_meter :: "string \<Rightarrow> reg_env \<Rightarrow> reg_env" where
  "with_meter m env = env\<lparr>re_http := (re_http env)\<lparr>ht_decodeDetail :=
     \<lambda>b. map_sum id (\<lambda>d. d\<lparr>ld_MeterID := m\<rparr>) (ht_decodeDetail (re_http env) b)\<rparr>\<rparr>"

lemma getStatus_with_meter:
  "getStatus (re_http (with_meter m env)) e reply = map_sum id (\<lambda>d. d\<lparr>ld_MeterID := m\<rparr>) (getStatus (re_http env) e reply)"
  by (cases reply; cases "ht_newRequest (re_http env) e")
     (auto simp: with_meter_def getStatus_def checkE_def bindE_def failWith_def map_sum_def split: sum.splits)

lemma pollLoop_with_meter:
  "pollLoop (re_http (with_meter m env)) u p e rs =
     map_option (map_sum id (\<lambda>d. d\<lparr>ld_MeterID := m\<rparr>)) (pollLoop (re_http env) u p e rs)"
  by (induction rs) (auto simp: getStatus_with_meter Let_def split: option.splits sum.splits)

theorem approval_ignores_meter:
  "runPollLoop (with_meter m env) svc p run s = runPollLoop env svc p run s"
proof -
  have e: "re_unicode (with_meter m env) = re_unicode env" "re_marshal (with_meter m env) = re_marshal env"
    "ht_pathEscape (re_http (with_meter m env)) = ht_pathEscape (re_http env)"
    by (simp_all add: with_meter_def)
  have "PollLinkRequest (re_http (with_meter m env)) u po req rs =
      map_option (map_sum id (\<lambda>d. d\<lparr>ld_MeterID := m\<rparr>)) (PollLinkRequest (re_http env) u po req rs)" for u po req rs
    by (simp add: PollLinkRequest_def pollLoop_with_meter e split: option.splits)
  moreover have "newStatus u (map_sum id (\<lambda>d. d\<lparr>ld_MeterID := m\<rparr>) r) = newStatus u r" for u r
    by (cases r) (simp_all add: newStatus_def)
  moreover have "afterPoll (with_meter m env) svc run reg st = afterPoll env svc run reg st" for reg st
  proof -
    have "SendActivateMeter (with_meter m env) = SendActivateMeter env"
      by (intro ext) (simp add: SendActivateMeter_def SendCommand_def e)
    then show ?thesis by (cases "sv_dispatcher svc") (simp_all add: afterPoll_def)
  qed
  ultimately show ?thesis by (simp add: runPollLoop_def e split: option.splits)
qed

text \<open>
  A meter can be claimed once: whatever became of the first claim, a later one under another identifier is refused
  before the utility is asked.
\<close>

theorem second_claim_refused:
  assumes "pg_quiet (rg_pg s)" "old \<in> set (registrations s)" "r_meter_id old = lq_MeterID q" "r_role old = ''PRIMARY_OWNER''"
    and "lq_RegistrationID q \<notin> r_registration_id ` set (registrations s)"
  shows "isl (fst (Registration_RegisterHouse env svc reply q s)) \<and> snd (Registration_RegisterHouse env svc reply q s) = s"
proof -
  have "\<exists>e. saveRegistrationSQL u (pending_claim q) now (pg_tables (rg_pg s)) = (Inl e, pg_tables (rg_pg s))" for u now
    using assms(2-5) by (auto simp: saveRegistrationSQL_def pending_claim_def image_iff split: option.splits)
  then obtain e where "saveRegistrationSQL (re_uuids env) (pending_claim q) (pg_clock (rg_pg s)) (pg_tables (rg_pg s)) =
      (Inl e, pg_tables (rg_pg s))" by blast
  then have "onReg (SaveMeterRegistration (re_uuids env) (pending_claim q)) s = (Inl (sqlErrorf ''save meter registration: '' e), s)"
    using assms(1) by (simp add: SaveMeterRegistration_pending onReg_def onSql_stmt_quiet)
  then show ?thesis
    by (simp add: Registration_RegisterHouse_def andThen_def wrapErr_def split: option.splits)
qed

end
