(* ===== verification/RegistrationHistory.thy ===== *)
theory RegistrationHistory
  imports RegistrationService
begin

text \<open>
  Histories of meter registration: claims, reverifications, polls and the other writers of the database in any
  order, and what holds of every owner and every activation command whatever happened.
\<close>

section \<open>Histories\<close>

text \<open>
  A link request the utility has accepted and the registration it was sent for; \<open>lk_claim\<close> marks the ones of
  \<^verbatim>\<open>RegisterHouse\<close>.  A verdict is the end of a poll with an answer.
\<close>

record link =
  lk_claim :: bool
  lk_request :: LinkRequest
  lk_response :: LinkResponse

record verdict =
  vd_RegistrationID :: string
  vd_RequestID :: string
  vd_rounds :: "poll_round list"

record history =
  hs_state :: reg_state
  hs_links :: "link list"
  hs_verdicts :: "verdict list"

text \<open>
  A claim comes with a registration identifier made for it, as \<^verbatim>\<open>uuid.New\<close> does; a reverification with the one its
  caller gives.  Anything else, other components and the passing of time included, leaves the registrations alone.
\<close>

inductive reg_step :: "reg_env \<Rightarrow> Service \<Rightarrow> history \<Rightarrow> history \<Rightarrow> bool" for env svc where
  claim:
    "Registration_RegisterHouse env svc reply request (hs_state h) = (r, s') \<Longrightarrow>
     lq_RegistrationID request \<notin> r_registration_id ` set (registrations (hs_state h)) \<Longrightarrow>
     reg_step env svc h
       (h\<lparr>hs_state := s',
          hs_links := hs_links h @ (case r of Inl e \<Rightarrow> []
                                    | Inr resp \<Rightarrow> [\<lparr>lk_claim = True, lk_request = request, lk_response = resp\<rparr>])\<rparr>)"
| reverify:
    "ReverifyRegistration env svc reply request (hs_state h) = (r, s') \<Longrightarrow>
     reg_step env svc h
       (h\<lparr>hs_state := s',
          hs_links := hs_links h @ (case r of Inl e \<Rightarrow> []
                                    | Inr resp \<Rightarrow> [\<lparr>lk_claim = False, lk_request = request, lk_response = resp\<rparr>])\<rparr>)"
| poll:
    "p \<in> set (rg_polls (hs_state h)) \<Longrightarrow>
     runPollLoop env svc p run ((hs_state h)\<lparr>rg_polls := remove1 p (rg_polls (hs_state h))\<rparr>) = Some s' \<Longrightarrow>
     reg_step env svc h
       (h\<lparr>hs_state := s',
          hs_verdicts := hs_verdicts h @
            [\<lparr>vd_RegistrationID = pl_RegistrationID p, vd_RequestID = pl_RequestID p, vd_rounds = pn_rounds run\<rparr>]\<rparr>)"
| other:
    "t_meter_registrations (pg_tables p) = registrations (hs_state h) \<Longrightarrow>
     reg_step env svc h (h\<lparr>hs_state := (hs_state h)\<lparr>rg_pg := p\<rparr>\<rparr>)"

text \<open>The utility answered a status query of the poll with \<^verbatim>\<open>APPROVED\<close>.\<close>

definition approves :: "reg_env \<Rightarrow> verdict \<Rightarrow> bool" where
  "approves env v \<longleftrightarrow>
     (\<exists>r \<in> set (vd_rounds v). \<exists>resp d.
        pr_reply r = Inr resp \<and> http_ok (ht_StatusCode resp) \<and> ht_decodeDetail (re_http env) (ht_Body resp) = Inr d \<and>
        ToUpper (re_unicode env) (TrimSpace (ld_Status d)) = ''APPROVED'')"

lemma newStatus_approved:
  assumes "PollLinkRequest (re_http env) (re_unicode env) po req rounds = Some r" "newStatus (re_unicode env) r = ''APPROVED''"
  shows "approves env \<lparr>vd_RegistrationID = reg, vd_RequestID = req', vd_rounds = rounds\<rparr>"
proof (cases r)
  case (Inr d)
  obtain x resp d0 where "x \<in> set rounds" "pr_reply x = Inr resp" "http_ok (ht_StatusCode resp)"
    "ht_decodeDetail (re_http env) (ht_Body resp) = Inr d0" "ToUpper (re_unicode env) (TrimSpace (ld_Status d0)) = ld_Status d"
    "ld_Status d \<in> {''APPROVED'', ''REJECTED''}"
    using PollLinkRequest_Inr assms(1) Inr by metis
  moreover have "ld_Status d = ''APPROVED''" using assms(2) Inr calculation(6) by (auto simp: newStatus_def)
  ultimately show ?thesis by (auto simp: approves_def)
qed (use assms in \<open>simp add: newStatus_def split: if_splits\<close>)

section \<open>The invariant\<close>

definition sent :: "history \<Rightarrow> string \<Rightarrow> string \<Rightarrow> bool" where
  "sent h reg req \<longleftrightarrow> (\<exists>l \<in> set (hs_links h). lq_RegistrationID (lk_request l) = reg \<and> ls_RequestID (lk_response l) = req)"

definition approved :: "reg_env \<Rightarrow> history \<Rightarrow> string \<Rightarrow> bool" where
  "approved env h reg \<longleftrightarrow> (\<exists>v \<in> set (hs_verdicts h). vd_RegistrationID v = reg \<and> approves env v)"

definition names :: "uuids \<Rightarrow> LinkRequest \<Rightarrow> registrations_row \<Rightarrow> bool" where
  "names u q r \<longleftrightarrow>
     r_registration_id r = lq_RegistrationID q \<and> r_meter_id r = lq_MeterID q \<and>
     uuid_in u (lq_UserReference q) = Some (r_user_id r)"

definition reg_inv :: "reg_env \<Rightarrow> history \<Rightarrow> bool" where
  "reg_inv env h \<longleftrightarrow>
     rows_ok (registrations (hs_state h)) \<and>
     (\<forall>p \<in> set (rg_polls (hs_state h)). sent h (pl_RegistrationID p) (pl_RequestID p)) \<and>
     (\<forall>v \<in> set (hs_verdicts h). sent h (vd_RegistrationID v) (vd_RequestID v)) \<and>
     (\<forall>r \<in> set (registrations (hs_state h)). r_approval_status r = ''APPROVED'' \<longrightarrow> approved env h (r_registration_id r)) \<and>
     (\<forall>l \<in> set (hs_links h). lk_claim l \<longrightarrow> (\<exists>r \<in> set (registrations (hs_state h)). names (re_uuids env) (lk_request l) r)) \<and>
     (\<forall>m \<in> set (rg_messages (hs_state h)).
        \<exists>r \<in> set (registrations (hs_state h)). km_Key m = r_meter_id r \<and> approved env h (r_registration_id r))"

text \<open>Rows keep their identity.\<close>

definition kept :: "registrations_row list \<Rightarrow> registrations_row list \<Rightarrow> bool" where
  "kept R R' \<longleftrightarrow> (\<forall>r \<in> set R. \<exists>r' \<in> set R'. r_registration_id r' = r_registration_id r \<and> r_meter_id r' = r_meter_id r \<and>
     r_user_id r' = r_user_id r)"

lemma kept_refl [simp]: "kept R R"
  by (auto simp: kept_def)

lemma kept_restates: "restates reg status R R' \<Longrightarrow> kept R R'"
  unfolding kept_def by (metis restates_from restated_same(2,3,4))

lemma kept_append: "kept R (R @ S)"
  by (auto simp: kept_def)

text \<open>The invariant passes to a later history when rows are kept and what is new is justified.\<close>

lemma reg_inv_step:
  assumes inv: "reg_inv env h"
    and links: "set (hs_links h) \<subseteq> set (hs_links h')" and verdicts: "set (hs_verdicts h) \<subseteq> set (hs_verdicts h')"
    and kept: "kept (registrations (hs_state h)) (registrations (hs_state h'))" and ok: "rows_ok (registrations (hs_state h'))"
    and polls: "\<And>p. p \<in> set (rg_polls (hs_state h')) \<Longrightarrow> p \<notin> set (rg_polls (hs_state h)) \<Longrightarrow> sent h' (pl_RegistrationID p) (pl_RequestID p)"
    and new_verdicts: "\<And>v. v \<in> set (hs_verdicts h') \<Longrightarrow> v \<notin> set (hs_verdicts h) \<Longrightarrow> sent h' (vd_RegistrationID v) (vd_RequestID v)"
    and status: "\<And>r'. r' \<in> set (registrations (hs_state h')) \<Longrightarrow> r_approval_status r' = ''APPROVED'' \<Longrightarrow>
        approved env h' (r_registration_id r') \<or>
        (\<exists>r \<in> set (registrations (hs_state h)). r_registration_id r = r_registration_id r' \<and> r_approval_status r = ''APPROVED'')"
    and claims: "\<And>l. l \<in> set (hs_links h') \<Longrightarrow> l \<notin> set (hs_links h) \<Longrightarrow> lk_claim l \<Longrightarrow>
        \<exists>r \<in> set (registrations (hs_state h')). names (re_uuids env) (lk_request l) r"
    and messages: "\<And>m. m \<in> set (rg_messages (hs_state h')) \<Longrightarrow> m \<notin> set (rg_messages (hs_state h)) \<Longrightarrow>
        \<exists>r \<in> set (registrations (hs_state h')). km_Key m = r_meter_id r \<and> approved env h' (r_registration_id r)"
  shows "reg_inv env h'"
proof -
  have s: "sent h reg req \<Longrightarrow> sent h' reg req" for reg req using links by (auto simp: sent_def)
  have a: "approved env h reg \<Longrightarrow> approved env h' reg" for reg using verdicts by (auto simp: approved_def)
  have n: "\<exists>r' \<in> set (registrations (hs_state h')). names (re_uuids env) q r'"
    if "r \<in> set (registrations (hs_state h))" "names (re_uuids env) q r" for q r
    using kept that by (fastforce simp: kept_def names_def)
  show ?thesis unfolding reg_inv_def
  proof (intro conjI ballI impI)
    show "rows_ok (registrations (hs_state h'))" by (rule ok)
  next
    fix p assume "p \<in> set (rg_polls (hs_state h'))"
    with polls [of p] s inv show "sent h' (pl_RegistrationID p) (pl_RequestID p)" unfolding reg_inv_def by blast
  next
    fix v assume "v \<in> set (hs_verdicts h')"
    with new_verdicts [of v] s inv show "sent h' (vd_RegistrationID v) (vd_RequestID v)" unfolding reg_inv_def by blast
  next
    fix r assume "r \<in> set (registrations (hs_state h'))" "r_approval_status r = ''APPROVED''"
    from status [OF this] a inv show "approved env h' (r_registration_id r)" unfolding reg_inv_def by metis
  next
    fix l assume "l \<in> set (hs_links h')" "lk_claim l"
    with claims n inv show "\<exists>r \<in> set (registrations (hs_state h')). names (re_uuids env) (lk_request l) r"
      unfolding reg_inv_def by metis
  next
    fix m assume m: "m \<in> set (rg_messages (hs_state h'))"
    show "\<exists>r \<in> set (registrations (hs_state h')). km_Key m = r_meter_id r \<and> approved env h' (r_registration_id r)"
    proof (cases "m \<in> set (rg_messages (hs_state h))")
      case True
      then obtain r where "r \<in> set (registrations (hs_state h))" "km_Key m = r_meter_id r" "approved env h (r_registration_id r)"
        using inv by (auto simp: reg_inv_def)
      with kept a show ?thesis unfolding kept_def by metis
    qed (use messages m in blast)
  qed
qed

lemma restates_approved:
  assumes "restates reg status R R'" "r' \<in> set R'" "r_approval_status r' = ''APPROVED''"
  shows "(r_registration_id r' = reg \<and> status = ''APPROVED'') \<or>
    (\<exists>r \<in> set R. r_registration_id r = r_registration_id r' \<and> r_approval_status r = ''APPROVED'')"
proof -
  obtain r where r: "r \<in> set R" "restated reg status r r'" using restates_in assms(1,2) by metis
  with assms(3) restated_same(4) [OF r(2)] show ?thesis unfolding restated_def by metis
qed

lemma sent_new:
  "lk_request l = q \<Longrightarrow> lk_response l = resp \<Longrightarrow> l \<in> set (hs_links h) \<Longrightarrow> sent h (lq_RegistrationID q) (ls_RequestID resp)"
  by (auto simp: sent_def)

lemma polls_of_sent:
  assumes "polls_of r (lq_RegistrationID q) c ps" "p \<in> set ps"
    and "hs_links h = ls @ (case r of Inl e \<Rightarrow> [] | Inr resp \<Rightarrow> [\<lparr>lk_claim = b, lk_request = q, lk_response = resp\<rparr>])"
  shows "sent h (pl_RegistrationID p) (pl_RequestID p)"
  using assms by (auto simp: polls_of_def sent_def)

text \<open>A finished poll restates its registration and sends at most one command, to the registration's meter.\<close>

lemma runPollLoop_effect:
  assumes "runPollLoop env svc p run s = Some s'"
  obtains status ms where "restates (pl_RegistrationID p) status (registrations s) (registrations s')"
    "rg_polls s' = rg_polls s" "rg_messages s' = rg_messages s @ ms" "status \<in> approval_statuses"
    "status = ''APPROVED'' \<Longrightarrow> approves env \<lparr>vd_RegistrationID = pl_RegistrationID p, vd_RequestID = pl_RequestID p,
       vd_rounds = pn_rounds run\<rparr>"
    "ms = [] \<or> (status = ''APPROVED'' \<and> (\<exists>m row. ms = [m] \<and> row \<in> set (registrations s') \<and>
       r_registration_id row = pl_RegistrationID p \<and> km_Key m = r_meter_id row))"
proof (cases "sv_poller svc = None \<or> \<not> sv_store svc")
  case True
  with assms have "s' = s" by (simp add: runPollLoop_def)
  with that [of "''REJECTED''" "[]"] show thesis by (simp add: approval_statuses_def)
next
  case False
  with assms obtain r where r: "PollLinkRequest (re_http env) (re_unicode env) (sv_poller svc) (pl_RequestID p) (pn_rounds run) = Some r"
    "s' = snd (afterPoll env svc run (pl_RegistrationID p) (newStatus (re_unicode env) r) s)"
    by (auto simp: runPollLoop_def split: option.splits)
  obtain r2 where "afterPoll env svc run (pl_RegistrationID p) (newStatus (re_unicode env) r) s = (r2, s')"
    using r(2) by (metis prod.exhaust_sel)
  then show thesis
  proof (rule afterPoll_effect)
    fix ms
    assume "restates (pl_RegistrationID p) (newStatus (re_unicode env) r) (registrations s) (registrations s')"
      "rg_polls s' = rg_polls s" "rg_messages s' = rg_messages s @ ms"
      "ms = [] \<or> (newStatus (re_unicode env) r = ''APPROVED'' \<and> (\<exists>m row. ms = [m] \<and> row \<in> set (registrations s') \<and>
        r_registration_id row = pl_RegistrationID p \<and> r_approval_status row = ''APPROVED'' \<and> km_Key m = r_meter_id row))"
    then show thesis using newStatus_approved [OF r(1)] status_known [OF r(1)]
      by (intro that [of "newStatus (re_unicode env) r" ms]) auto
  qed
qed

lemma reg_step_inv:
  assumes "reg_step env svc h h'" "reg_inv env h"
  shows "reg_inv env h'"
  using assms(1)
proof (cases rule: reg_step.cases)
  case (claim reply request r s')
  from claim(2,3) show ?thesis
  proof (cases rule: claim_effect)
    case (nothing e)
    with assms(2) claim(1) show ?thesis by (intro reg_inv_step [OF assms(2)]) (auto simp: reg_inv_def)
  next
    case (claimed row ps)
    have ok: "rows_ok (registrations (hs_state h))" using assms(2) by (simp add: reg_inv_def)
    have row: "names (re_uuids env) request row" "r_approval_status row = ''DEWA_APPROVAL_PENDING''"
      using claimed(2) by (auto simp: new_claim_def names_def pending_claim_def)
    show ?thesis unfolding claim(1)
    proof (rule reg_inv_step [OF assms(2)])
      show "rows_ok (registrations (hs_state (h\<lparr>hs_state := s', hs_links := hs_links h @ (case r of Inl e \<Rightarrow> []
          | Inr resp \<Rightarrow> [\<lparr>lk_claim = True, lk_request = request, lk_response = resp\<rparr>])\<rparr>)))"
        using rows_ok_new [OF ok claimed(2)] claimed(1) by simp
    next
      fix p assume "p \<in> set (rg_polls (hs_state (h\<lparr>hs_state := s', hs_links := hs_links h @ (case r of Inl e \<Rightarrow> []
          | Inr resp \<Rightarrow> [\<lparr>lk_claim = True, lk_request = request, lk_response = resp\<rparr>])\<rparr>)))" "p \<notin> set (rg_polls (hs_state h))"
      with claimed(3) have "p \<in> set ps" by simp
      from polls_of_sent [OF claimed(4) this] show "sent (h\<lparr>hs_state := s', hs_links := hs_links h @ (case r of Inl e \<Rightarrow> []
          | Inr resp \<Rightarrow> [\<lparr>lk_claim = True, lk_request = request, lk_response = resp\<rparr>])\<rparr>) (pl_RegistrationID p) (pl_RequestID p)"
        by simp
    qed (use row claimed(1,5) kept_append in \<open>auto split: sum.splits\<close>)
  qed
next
  case (reverify reply request r s')
  have ok: "rows_ok (registrations (hs_state h))" using assms(2) by (simp add: reg_inv_def)
  note new_poll = polls_of_sent [where h = h' and r = r and q = request and b = False and ls = "hs_links h"]
  from reverify(2) show ?thesis
  proof (cases rule: reverify_effect)
    case (nothing e)
    with assms(2) reverify(1) show ?thesis by (intro reg_inv_step [OF assms(2)]) (auto simp: reg_inv_def)
  next
    case (restated ps)
    show ?thesis
    proof (rule reg_inv_step [OF assms(2)])
      show "rows_ok (registrations (hs_state h'))" using rows_ok_restates [OF restated(1) ok] reverify(1) by simp
      show "kept (registrations (hs_state h)) (registrations (hs_state h'))" using kept_restates [OF restated(1)] reverify(1) by simp
    next
      fix p assume "p \<in> set (rg_polls (hs_state h'))" "p \<notin> set (rg_polls (hs_state h))"
      with restated(2) reverify(1) have "p \<in> set ps" by simp
      from new_poll [OF restated(3) this] reverify(1) show "sent h' (pl_RegistrationID p) (pl_RequestID p)" by simp
    next
      fix r' assume "r' \<in> set (registrations (hs_state h'))" "r_approval_status r' = ''APPROVED''"
      with restates_approved [OF restated(1), of r'] reverify(1) show "approved env h' (r_registration_id r') \<or>
          (\<exists>r \<in> set (registrations (hs_state h)). r_registration_id r = r_registration_id r' \<and> r_approval_status r = ''APPROVED'')"
        by simp
    qed (use reverify(1) restated(4) in \<open>auto split: sum.splits\<close>)
  next
    case (claimed row ps)
    have row: "r_approval_status row = ''DEWA_APPROVAL_PENDING''"
      using claimed(2) by (auto simp: new_claim_def pending_claim_def)
    show ?thesis
    proof (rule reg_inv_step [OF assms(2)])
      show "rows_ok (registrations (hs_state h'))" using rows_ok_new [OF ok claimed(2)] claimed(1) reverify(1) by simp
    next
      fix p assume "p \<in> set (rg_polls (hs_state h'))" "p \<notin> set (rg_polls (hs_state h))"
      with claimed(3) reverify(1) have "p \<in> set ps" by simp
      from new_poll [OF claimed(4) this] reverify(1) show "sent h' (pl_RegistrationID p) (pl_RequestID p)" by simp
    qed (use row reverify(1) claimed(1,5) kept_append in \<open>auto split: sum.splits\<close>)
  qed
next
  case (poll p run s')
  have ok: "rows_ok (registrations (hs_state h))" using assms(2) by (simp add: reg_inv_def)
  have sent_p: "sent h (pl_RegistrationID p) (pl_RequestID p)" using assms(2) poll(2) by (simp add: reg_inv_def)
  from poll(3) obtain status ms where step: "restates (pl_RegistrationID p) status (registrations (hs_state h)) (registrations s')"
    "set (rg_polls s') \<subseteq> set (rg_polls (hs_state h))" "rg_messages s' = rg_messages (hs_state h) @ ms"
    "status = ''APPROVED'' \<Longrightarrow> approves env \<lparr>vd_RegistrationID = pl_RegistrationID p, vd_RequestID = pl_RequestID p,
       vd_rounds = pn_rounds run\<rparr>"
    "ms = [] \<or> (status = ''APPROVED'' \<and> (\<exists>m row. ms = [m] \<and> row \<in> set (registrations s') \<and>
       r_registration_id row = pl_RegistrationID p \<and> km_Key m = r_meter_id row))"
    by (rule runPollLoop_effect) (simp add: set_remove1_subset)
  let ?v = "\<lparr>vd_RegistrationID = pl_RegistrationID p, vd_RequestID = pl_RequestID p, vd_rounds = pn_rounds run\<rparr>"
  have appr: "approved env h' (pl_RegistrationID p)" if "status = ''APPROVED''"
    using step(4) [OF that] poll(1) by (auto simp: approved_def intro: bexI [of _ ?v])
  show ?thesis
  proof (rule reg_inv_step [OF assms(2)])
    show "rows_ok (registrations (hs_state h'))" using rows_ok_restates [OF step(1) ok] poll(1) by simp
    show "kept (registrations (hs_state h)) (registrations (hs_state h'))" using kept_restates [OF step(1)] poll(1) by simp
    show "sent h' (pl_RegistrationID q) (pl_RequestID q)" if "q \<in> set (rg_polls (hs_state h'))" "q \<notin> set (rg_polls (hs_state h))" for q
      using that step(2) poll(1) by auto
    show "sent h' (vd_RegistrationID v) (vd_RequestID v)" if "v \<in> set (hs_verdicts h')" "v \<notin> set (hs_verdicts h)" for v
      using that sent_p poll(1) by (auto simp: sent_def)
  next
    fix r' assume "r' \<in> set (registrations (hs_state h'))" "r_approval_status r' = ''APPROVED''"
    with restates_approved [OF step(1), of r'] poll(1) appr show "approved env h' (r_registration_id r') \<or>
        (\<exists>r \<in> set (registrations (hs_state h)). r_registration_id r = r_registration_id r' \<and> r_approval_status r = ''APPROVED'')"
      by auto
  next
    fix m assume "m \<in> set (rg_messages (hs_state h'))" "m \<notin> set (rg_messages (hs_state h))"
    with step(3,5) poll(1) appr show "\<exists>r \<in> set (registrations (hs_state h')). km_Key m = r_meter_id r \<and> approved env h' (r_registration_id r)"
      by auto
  qed (use poll(1) in auto)
next
  case (other p)
  with assms(2) show ?thesis by (intro reg_inv_step [OF assms(2)]) (auto simp: reg_inv_def)
qed

section \<open>Ownership\<close>

definition fresh_history :: "history \<Rightarrow> bool" where
  "fresh_history h \<longleftrightarrow>
     registrations (hs_state h) = [] \<and> rg_polls (hs_state h) = [] \<and> rg_messages (hs_state h) = [] \<and>
     hs_links h = [] \<and> hs_verdicts h = []"

lemma history_inv:
  assumes "(reg_step env svc)\<^sup>*\<^sup>* h0 h" "fresh_history h0"
  shows "reg_inv env h"
  using assms(1)
proof (induction rule: rtranclp_induct)
  case base
  from assms(2) show ?case by (simp add: reg_inv_def fresh_history_def rows_ok_def)
qed (rule reg_step_inv)

lemma owner_of_unique:
  assumes "rows_ok (t_meter_registrations T)"
  shows "owner_of T house = Some user \<longleftrightarrow>
    (\<exists>r \<in> set (t_meter_registrations T). h_meter_id house = Some (r_meter_id r) \<and> approved_owner (r_meter_id r) r \<and>
       r_user_id r = user)"
proof
  assume "owner_of T house = Some user"
  then obtain m r where "h_meter_id house = Some m" "find (approved_owner m) (t_meter_registrations T) = Some r" "r_user_id r = user"
    by (auto simp: owner_of_def split: option.splits)
  with find_Some_in [OF this(2)] show "\<exists>r \<in> set (t_meter_registrations T). h_meter_id house = Some (r_meter_id r) \<and>
      approved_owner (r_meter_id r) r \<and> r_user_id r = user"
    by (auto simp: approved_owner_def)
next
  assume "\<exists>r \<in> set (t_meter_registrations T). h_meter_id house = Some (r_meter_id r) \<and> approved_owner (r_meter_id r) r \<and> r_user_id r = user"
  then obtain r where r: "r \<in> set (t_meter_registrations T)" "h_meter_id house = Some (r_meter_id r)"
    "approved_owner (r_meter_id r) r" "r_user_id r = user" by blast
  obtain r2 where r2: "find (approved_owner (r_meter_id r)) (t_meter_registrations T) = Some r2"
    using find_None_in [of "approved_owner (r_meter_id r)" "t_meter_registrations T" r] r(1,3)
    by (cases "find (approved_owner (r_meter_id r)) (t_meter_registrations T)") auto
  have "(r_meter_id r2, r_role r2) = (r_meter_id r, r_role r)"
    using find_Some_in [OF r2] r(3) by (simp add: approved_owner_def)
  then have "r2 = r"
    using assms find_Some_in [OF r2] r(1) unfolding rows_ok_def distinct_map inj_on_def by fastforce
  with r r2 show "owner_of T house = Some user" by (simp add: owner_of_def)
qed

text \<open>
  C36. A house has an owner exactly when the claim of its meter as primary owner is approved, and then only one.  Every
  approved registration was approved by the utility in a poll of a request sent for it; when that request is
  the claim itself it named the registration's meter and user.  Every activation command goes to the
  meter of a registration the utility approved.
\<close>

theorem approved_owners:
  assumes "fresh_history h0" "(reg_step env svc)\<^sup>*\<^sup>* h0 h"
  shows "(\<forall>house user. owner_of (pg_tables (rg_pg (hs_state h))) house = Some user \<longleftrightarrow>
      (\<exists>r \<in> set (registrations (hs_state h)). h_meter_id house = Some (r_meter_id r) \<and> approved_owner (r_meter_id r) r \<and>
         r_user_id r = user)) \<and>
    (\<forall>r \<in> set (registrations (hs_state h)). r_approval_status r = ''APPROVED'' \<longrightarrow>
      (\<exists>v \<in> set (hs_verdicts h). \<exists>l \<in> set (hs_links h).
         vd_RegistrationID v = r_registration_id r \<and> approves env v \<and>
         lq_RegistrationID (lk_request l) = r_registration_id r \<and> ls_RequestID (lk_response l) = vd_RequestID v \<and>
         (lk_claim l \<longrightarrow> names (re_uuids env) (lk_request l) r))) \<and>
    (\<forall>m \<in> set (rg_messages (hs_state h)). \<exists>r \<in> set (registrations (hs_state h)). km_Key m = r_meter_id r \<and>
      (\<exists>v \<in> set (hs_verdicts h). vd_RegistrationID v = r_registration_id r \<and> approves env v))"
proof -
  have inv: "reg_inv env h" using history_inv assms by blast
  have ok: "rows_ok (registrations (hs_state h))" using inv by (simp add: reg_inv_def)
  show ?thesis
  proof (intro conjI ballI impI allI)
    fix r assume r: "r \<in> set (registrations (hs_state h))" "r_approval_status r = ''APPROVED''"
    then obtain v where v: "v \<in> set (hs_verdicts h)" "vd_RegistrationID v = r_registration_id r" "approves env v"
      using inv by (auto simp: reg_inv_def approved_def)
    then obtain l where l: "l \<in> set (hs_links h)" "lq_RegistrationID (lk_request l) = r_registration_id r"
      "ls_RequestID (lk_response l) = vd_RequestID v"
      using inv by (fastforce simp: reg_inv_def sent_def)
    have "names (re_uuids env) (lk_request l) r" if claim: "lk_claim l"
    proof -
      obtain r2 where r2: "r2 \<in> set (registrations (hs_state h))" "names (re_uuids env) (lk_request l) r2"
        using inv l(1) claim by (auto simp: reg_inv_def)
      then have "r_registration_id r2 = r_registration_id r" using l(2) by (simp add: names_def)
      then have "r2 = r" using ok r2(1) r(1) unfolding rows_ok_def distinct_map inj_on_def by blast
      with r2(2) show ?thesis by simp
    qed
    with v l show "\<exists>v \<in> set (hs_verdicts h). \<exists>l \<in> set (hs_links h).
         vd_RegistrationID v = r_registration_id r \<and> approves env v \<and>
         lq_RegistrationID (lk_request l) = r_registration_id r \<and> ls_RequestID (lk_response l) = vd_RequestID v \<and>
         (lk_claim l \<longrightarrow> names (re_uuids env) (lk_request l) r)" by blast
  next
    fix m assume "m \<in> set (rg_messages (hs_state h))"
    then show "\<exists>r \<in> set (registrations (hs_state h)). km_Key m = r_meter_id r \<and>
        (\<exists>v \<in> set (hs_verdicts h). vd_RegistrationID v = r_registration_id r \<and> approves env v)"
      using inv unfolding reg_inv_def approved_def by blast
  qed (rule owner_of_unique [OF ok])
qed

definition sample_history :: history where
  "sample_history =
     \<lparr>hs_state = \<lparr>rg_pg = quiet_pg empty_tables 0, rg_messages = [], rg_polls = []\<rparr>, hs_links = [], hs_verdicts = []\<rparr>"

lemma sample_reaches:
  "\<exists>h. (reg_step sample_env_reg sample_service)\<^sup>*\<^sup>* sample_history h \<and> registrations (hs_state h) = [sample_row ''APPROVED''] \<and>
     pg_quiet (rg_pg (hs_state h))"
proof -
  let ?h1 = "sample_history\<lparr>hs_state := snd sample_claimed, hs_links := hs_links sample_history @
      (case fst sample_claimed of Inl e \<Rightarrow> [] | Inr resp \<Rightarrow> [\<lparr>lk_claim = True, lk_request = sample_claim, lk_response = resp\<rparr>])\<rparr>"
  obtain s' where s': "sample_polled = Some s'" "registrations s' = [sample_row ''APPROVED'']" "pg_quiet (rg_pg s')"
    using sample_polled_approved by blast
  let ?h2 = "?h1\<lparr>hs_state := s', hs_verdicts := hs_verdicts ?h1 @ [\<lparr>vd_RegistrationID = pl_RegistrationID sample_poll,
      vd_RequestID = pl_RequestID sample_poll, vd_rounds = pn_rounds sample_run\<rparr>]\<rparr>"
  have "reg_step sample_env_reg sample_service sample_history ?h1"
    by (rule reg_step.claim) (simp_all add: sample_claimed_def sample_history_def empty_tables_def)
  moreover have "reg_step sample_env_reg sample_service ?h1 ?h2"
    by (rule reg_step.poll) (use s'(1) in \<open>simp_all add: sample_polled_def sample_claimed_eq\<close>)
  ultimately have "(reg_step sample_env_reg sample_service)\<^sup>*\<^sup>* sample_history ?h2"
    by (rule converse_rtranclp_into_rtranclp [OF _ r_into_rtranclp])
  with s' show ?thesis by (intro exI [of _ ?h2]) simp
qed

lemma sample_fresh: "fresh_history sample_history"
  by (simp add: fresh_history_def sample_history_def empty_tables_def)

definition sample_owned_house :: houses_row where
  "sample_owned_house = \<lparr>h_house_id = ''h1'', h_grid_id = ''g1'', h_meter_id = Some ''m1'', h_device_class = ''consumer'',
     h_rated_solar_kw = None, h_last_heartbeat_at = 0\<rparr>"

theorem approved_owners_witness:
  "\<exists>h. (reg_step sample_env_reg sample_service)\<^sup>*\<^sup>* sample_history h \<and>
     owner_of (pg_tables (rg_pg (hs_state h))) sample_owned_house = Some ''u1'' \<and>
     (\<exists>v \<in> set (hs_verdicts h). vd_RegistrationID v = ''r1'' \<and> approves sample_env_reg v)"
proof -
  obtain h where run: "(reg_step sample_env_reg sample_service)\<^sup>*\<^sup>* sample_history h"
    and r: "registrations (hs_state h) = [sample_row ''APPROVED'']" using sample_reaches by blast
  note claim = approved_owners [OF sample_fresh run]
  have "owner_of (pg_tables (rg_pg (hs_state h))) sample_owned_house = Some ''u1''"
    using claim r by (auto simp: sample_owned_house_def sample_row_def approved_owner_def)
  moreover have "r_approval_status (sample_row ''APPROVED'') = ''APPROVED''" "r_registration_id (sample_row ''APPROVED'') = ''r1''"
    by (simp_all add: sample_row_def)
  then have "\<exists>v \<in> set (hs_verdicts h). vd_RegistrationID v = ''r1'' \<and> approves sample_env_reg v"
    using claim unfolding r by (metis list.set_intros(1))
  ultimately show ?thesis using run by blast
qed

end
