(* ===== verification/Grpc.thy ===== *)
theory Grpc
  imports Query RegistrationHistory
begin

text \<open>
  \<^verbatim>\<open>internal/transport/grpc\<close> and its \<^verbatim>\<open>services\<close>: the mapping of errors to status codes, the recovery
  interceptor, and the handlers of the two services.  The message types are generated from a package outside the
  repository; a record stands for each with the fields the handlers read or set, and the conversions of
  timestamps and durations are functions of the record \<open>protobuf\<close>.
\<close>

section \<open>Status codes\<close>

datatype grpc_code =
    codes_InvalidArgument | codes_Canceled | codes_DeadlineExceeded | codes_NotFound | codes_AlreadyExists | codes_Internal

record grpc_status =
  st_Code :: grpc_code
  st_Message :: string

text \<open>\<open>fromError\<close> is \<^verbatim>\<open>status.FromError\<close> of the gRPC package: the status an error already carries.\<close>

type_synonym from_error = "go_error \<Rightarrow> grpc_status option"

definition ToGRPCError :: "from_error \<Rightarrow> go_error \<Rightarrow> grpc_status" where
  "ToGRPCError fromError err =
     (case fromError err of
        Some st \<Rightarrow> st
      | None \<Rightarrow>
          if errors_Is err ErrValidation then \<lparr>st_Code = codes_InvalidArgument, st_Message = err_text err\<rparr>
          else if errors_Is err ContextCanceled then \<lparr>st_Code = codes_Canceled, st_Message = ''request canceled''\<rparr>
          else if errors_Is err ContextDeadlineExceeded
          then \<lparr>st_Code = codes_DeadlineExceeded, st_Message = ''deadline exceeded''\<rparr>
          else if errors_Is err ErrNotFound then \<lparr>st_Code = codes_NotFound, st_Message = err_text err\<rparr>
          else if errors_Is err ErrIntegrityConflict then \<lparr>st_Code = codes_AlreadyExists, st_Message = err_text err\<rparr>
          else \<lparr>st_Code = codes_Internal, st_Message = ''Internal Server Error''\<rparr>)"

text \<open>A handler call: a status or a response; \<open>Crashed\<close> is a panic.\<close>

datatype 'a reply = Replied "grpc_status + 'a" | Crashed string

definition UnaryServerRecovery :: "('s \<Rightarrow> 'a reply \<times> 's) \<Rightarrow> 's \<Rightarrow> (grpc_status + 'a) \<times> 's" where
  "UnaryServerRecovery handler s =
     (case handler s of
        (Replied r, s') \<Rightarrow> (r, s')
      | (Crashed t, s') \<Rightarrow> (Inl \<lparr>st_Code = codes_Internal, st_Message = ''internal server error''\<rparr>, s'))"

text \<open>The common end of a handler: \<open>fail\<close> on an error, which logs and converts it, and the response otherwise.\<close>

type_synonym ('s, 'a) rpc = "'s \<Rightarrow> (grpc_status + 'a) \<times> 's"

definition respond :: "from_error \<Rightarrow> ('s, 'a) act \<Rightarrow> ('a \<Rightarrow> 'b) \<Rightarrow> ('s, 'b) rpc" where
  "respond fromError m f s =
     (case m s of (Inl err, s') \<Rightarrow> (Inl (ToGRPCError fromError err), s') | (Inr x, s') \<Rightarrow> (Inr (f x), s'))"

section \<open>Messages\<close>

record Timestamp =
  ts_Seconds :: int
  ts_Nanos :: int

record PbDuration =
  du_Seconds :: int
  du_Nanos :: int

record protobuf =
  pb_New :: "int \<Rightarrow> Timestamp"
  pb_CheckValid :: "Timestamp \<Rightarrow> go_error option"
  pb_AsTime :: "Timestamp \<Rightarrow> int"
  pb_CheckDuration :: "PbDuration \<Rightarrow> go_error option"
  pb_AsDuration :: "PbDuration \<Rightarrow> int"

datatype ProtoDeviceClass =
    DEVICE_CLASS_UNSPECIFIED | DEVICE_CLASS_CONSUMER | DEVICE_CLASS_RESIDENTIAL_PROSUMER | DEVICE_CLASS_COMMERCIAL

datatype ProtoAssetType = ASSET_TYPE_UNSPECIFIED | ASSET_TYPE_BESS | ASSET_TYPE_EV

datatype MeterStatus = METER_STATUS_OFFLINE | METER_STATUS_ONLINE

record ProtoGrid =
  xg_GridId :: string
  xg_DisplayName :: string

record ProtoHouse =
  xh_HouseId :: string
  xh_Grid :: ProtoGrid
  xh_MeterId :: string
  xh_DeviceClass :: ProtoDeviceClass
  xh_RatedSolarKw :: "float64 option"
  xh_MeterStatus :: MeterStatus
  xh_LastHeartbeatAt :: "Timestamp option"

record ProtoFlexibleAsset =
  xf_AssetId :: string
  xf_AssetType :: ProtoAssetType
  xf_CapacityKwh :: float64
  xf_MaxChargeKw :: float64
  xf_MaxDischargeKw :: float64
  xf_V2GCapable :: "bool option"

record ProtoStorageReading =
  xs_AssetId :: string
  xs_AssetType :: ProtoAssetType
  xs_SocPct :: float64
  xs_PowerKw :: float64
  xs_CapacityKwh :: float64
  xs_PluggedIn :: "bool option"

record ProtoMeterReading =
  xm_MeterId :: string
  xm_MeasuredAt :: Timestamp
  xm_Seq :: int
  xm_SolarKw :: float64
  xm_ConsumptionKw :: float64
  xm_NetKw :: float64
  xm_StorageAssets :: "ProtoStorageReading list"

record ProtoEnergyTotals =
  xt_GeneratedKwh :: rat
  xt_ConsumedKwh :: rat
  xt_ExportedKwh :: rat
  xt_ImportedKwh :: rat
  xt_StorageChargedKwh :: rat
  xt_StorageDischargedKwh :: rat

record ProtoEnergyFlows =
  xw_SolarToHomeKwh :: rat
  xw_SolarToStorageKwh :: rat
  xw_SolarToGridKwh :: rat
  xw_GridToHomeKwh :: rat
  xw_GridToStorageKwh :: rat
  xw_StorageToHomeKwh :: rat
  xw_StorageToGridKwh :: rat

record ProtoAveragePower =
  xp_SolarKw :: rat
  xp_ConsumptionKw :: rat
  xp_ExportKw :: rat
  xp_ImportKw :: rat

record ProtoEnergyBucket =
  xb_StartsAt :: Timestamp
  xb_Energy :: ProtoEnergyTotals
  xb_AveragePower :: ProtoAveragePower

record ProtoEnergySummary =
  xe_Totals :: ProtoEnergyTotals
  xe_Flows :: ProtoEnergyFlows
  xe_SelfConsumptionPct :: "rat option"
  xe_PeakDemand :: "(float64 \<times> Timestamp) option"

record EnergySeriesRequest =
  er_HouseId :: string
  er_OwnerUserId :: string
  er_StartTime :: "Timestamp option"
  er_EndTime :: "Timestamp option"
  er_BucketWidth :: "PbDuration option"
  er_TimeZone :: string

section \<open>Conversions\<close>

definition toProtoDeviceClass :: "string \<Rightarrow> ProtoDeviceClass" where
  "toProtoDeviceClass c =
     (if c = DeviceClassConsumer then DEVICE_CLASS_CONSUMER
      else if c = DeviceClassResidentialProsumer then DEVICE_CLASS_RESIDENTIAL_PROSUMER
      else if c = DeviceClassCommercial then DEVICE_CLASS_COMMERCIAL
      else DEVICE_CLASS_UNSPECIFIED)"

definition toProtoAssetType :: "string \<Rightarrow> ProtoAssetType" where
  "toProtoAssetType t =
     (if t = AssetTypeBESS then ASSET_TYPE_BESS else if t = AssetTypeEV then ASSET_TYPE_EV else ASSET_TYPE_UNSPECIFIED)"

definition toProtoTotals :: "EnergyTotals \<Rightarrow> ProtoEnergyTotals" where
  "toProtoTotals t =
     \<lparr>xt_GeneratedKwh = et_GeneratedKwh t, xt_ConsumedKwh = et_ConsumedKwh t, xt_ExportedKwh = et_ExportedKwh t,
      xt_ImportedKwh = et_ImportedKwh t, xt_StorageChargedKwh = et_StorageChargedKwh t,
      xt_StorageDischargedKwh = et_StorageDischargedKwh t\<rparr>"

definition toProtoHouse :: "protobuf \<Rightarrow> House \<Rightarrow> ProtoHouse" where
  "toProtoHouse pb h =
     (let r = ho_HouseInfoRow h in
      \<lparr>xh_HouseId = hi_HouseID r, xh_Grid = \<lparr>xg_GridId = hi_GridID r, xg_DisplayName = hi_GridDisplayName r\<rparr>,
       xh_MeterId = hi_MeterID r, xh_DeviceClass = toProtoDeviceClass (hi_DeviceClass r),
       xh_RatedSolarKw = hi_RatedSolarKw r,
       xh_MeterStatus = (if ho_Online h then METER_STATUS_ONLINE else METER_STATUS_OFFLINE),
       xh_LastHeartbeatAt = map_option (pb_New pb) (ho_LastHeartbeatAt h)\<rparr>)"

definition requestTime :: "protobuf \<Rightarrow> string \<Rightarrow> Timestamp option \<Rightarrow> go_error + int" where
  "requestTime pb field ts =
     (case ts of
        None \<Rightarrow> Inr zero_time
      | Some t \<Rightarrow>
          if pb_CheckValid pb t \<noteq> None then Inl (NewValidationError field ''is not a valid timestamp'')
          else Inr (pb_AsTime pb t))"

definition requestRange :: "protobuf \<Rightarrow> Timestamp option \<Rightarrow> Timestamp option \<Rightarrow> go_error + int \<times> int" where
  "requestRange pb start finish =
     bindE (requestTime pb ''start_time'' start) (\<lambda>s.
     bindE (requestTime pb ''end_time'' finish) (\<lambda>e. Inr (s, e)))"

definition requestDuration :: "protobuf \<Rightarrow> PbDuration option \<Rightarrow> go_error + int" where
  "requestDuration pb d =
     (case d of
        None \<Rightarrow> Inr 0
      | Some x \<Rightarrow>
          if pb_CheckDuration pb x \<noteq> None then Inl (NewValidationError ''bucket_width'' ''is not a valid duration'')
          else Inr (pb_AsDuration pb x))"

section \<open>The query service\<close>

record iot_env =
  ie_query :: query_env
  ie_protobuf :: protobuf
  ie_fromError :: from_error

definition IotHandler_ListHouses :: "iot_env \<Rightarrow> ListHousesParams \<Rightarrow> (world, ProtoHouse list \<times> string) rpc" where
  "IotHandler_ListHouses env req =
     respond (ie_fromError env) (Query_ListHouses (qe_std (ie_query env)) req)
       (\<lambda>res. (map (toProtoHouse (ie_protobuf env)) (lr_Houses res), lr_NextPageToken res))"

definition IotHandler_GetHouse :: "iot_env \<Rightarrow> string \<Rightarrow> string \<Rightarrow> (world, ProtoHouse \<times> ProtoFlexibleAsset list) rpc" where
  "IotHandler_GetHouse env houseID ownerUserID =
     respond (ie_fromError env) (Query_GetHouse (qe_std (ie_query env)) houseID ownerUserID)
       (\<lambda>(house, assets).
          (toProtoHouse (ie_protobuf env) house,
           map (\<lambda>a. \<lparr>xf_AssetId = fx_AssetID a, xf_AssetType = toProtoAssetType (fx_AssetType a),
                      xf_CapacityKwh = fx_CapacityKwh a, xf_MaxChargeKw = fx_MaxChargeKw a,
                      xf_MaxDischargeKw = fx_MaxDischargeKw a, xf_V2GCapable = fx_V2GCapable a\<rparr>) assets))"

definition IotHandler_GetLatestReading :: "iot_env \<Rightarrow> string \<Rightarrow> string \<Rightarrow> (world, ProtoMeterReading) rpc" where
  "IotHandler_GetLatestReading env houseID ownerUserID =
     respond (ie_fromError env) (GetLatestReading houseID ownerUserID)
       (\<lambda>r. \<lparr>xm_MeterId = mp_MeterID r, xm_MeasuredAt = pb_New (ie_protobuf env) (mp_EventTimeUnixMs r * ns_millisecond),
             xm_Seq = mp_Seq r, xm_SolarKw = mp_SolarKw r, xm_ConsumptionKw = mp_ConsumptionKw r, xm_NetKw = mp_NetKw r,
             xm_StorageAssets =
               map (\<lambda>a. \<lparr>xs_AssetId = sp_AssetID a, xs_AssetType = toProtoAssetType (sp_AssetType a),
                          xs_SocPct = sp_SocPct a, xs_PowerKw = sp_PowerKw a, xs_CapacityKwh = sp_CapacityKwh a,
                          xs_PluggedIn = sp_PluggedIn a\<rparr>) (mp_StorageAssets r)\<rparr>)"

definition IotHandler_GetEnergySeries :: "iot_env \<Rightarrow> EnergySeriesRequest \<Rightarrow> (world, ProtoEnergyBucket list) rpc" where
  "IotHandler_GetEnergySeries env req =
     respond (ie_fromError env)
       (andThen (liftE (requestRange (ie_protobuf env) (er_StartTime req) (er_EndTime req))) (\<lambda>(start, finish).
        andThen (liftE (requestDuration (ie_protobuf env) (er_BucketWidth req))) (\<lambda>width.
        GetEnergySeries (ie_query env)
          \<lparr>sp_HouseID = er_HouseId req, sp_OwnerUserID = er_OwnerUserId req, sp_Start = start, sp_End = finish,
           sp_BucketWidth = width, sp_TimeZone = er_TimeZone req\<rparr>)))
       (map (\<lambda>b. \<lparr>xb_StartsAt = pb_New (ie_protobuf env) (bk_Start b), xb_Energy = toProtoTotals (bk_Energy b),
                   xb_AveragePower =
                     \<lparr>xp_SolarKw = ap_SolarKw (bk_AveragePower b), xp_ConsumptionKw = ap_ConsumptionKw (bk_AveragePower b),
                      xp_ExportKw = ap_ExportKw (bk_AveragePower b), xp_ImportKw = ap_ImportKw (bk_AveragePower b)\<rparr>\<rparr>))"

definition IotHandler_GetEnergySummary ::
    "iot_env \<Rightarrow> string \<Rightarrow> string \<Rightarrow> Timestamp option \<Rightarrow> Timestamp option \<Rightarrow> (world, ProtoEnergySummary) rpc" where
  "IotHandler_GetEnergySummary env houseID ownerUserID startTime endTime =
     respond (ie_fromError env)
       (andThen (liftE (requestRange (ie_protobuf env) startTime endTime)) (\<lambda>(start, finish).
        GetEnergySummary (ie_query env)
          \<lparr>up_HouseID = houseID, up_OwnerUserID = ownerUserID, up_Start = start, up_End = finish\<rparr>))
       (\<lambda>summary.
          let row = qs_Row summary; f = es_Flows row in
          \<lparr>xe_Totals = toProtoTotals (es_Totals row),
           xe_Flows =
             \<lparr>xw_SolarToHomeKwh = ef_SolarToHomeKwh f, xw_SolarToStorageKwh = ef_SolarToStorageKwh f,
              xw_SolarToGridKwh = ef_SolarToGridKwh f, xw_GridToHomeKwh = ef_GridToHomeKwh f,
              xw_GridToStorageKwh = ef_GridToStorageKwh f, xw_StorageToHomeKwh = ef_StorageToHomeKwh f,
              xw_StorageToGridKwh = ef_StorageToGridKwh f\<rparr>,
           xe_SelfConsumptionPct = qs_SelfConsumptionPct summary,
           xe_PeakDemand =
             (case (es_PeakConsumptionKw row, es_PeakTime row) of
                (Some kw, Some t) \<Rightarrow> Some (kw, pb_New (ie_protobuf env) t)
              | _ \<Rightarrow> None)\<rparr>)"

section \<open>The registration service\<close>

record registration_env =
  ge_env :: reg_env
  ge_service :: Service
  ge_fromError :: from_error

record MeterClaimResponse =
  mc_RegistrationId :: string
  mc_Status :: string
  mc_Message :: string

record RegistrationStatusResponse =
  gs_RegistrationId :: string
  gs_MeterId :: string
  gs_ApprovalStatus :: string

record DeviceAssociationResponse =
  va_IsRegistered :: bool
  va_PrimaryUserId :: string

record ReverifyResponse =
  rv_RegistrationId :: string
  rv_MeterId :: string
  rv_Status :: string
  rv_Message :: string

record RegistrationByUserResponse =
  gu_HasMeter :: bool
  gu_RegistrationId :: string
  gu_MeterId :: string
  gu_ApprovalStatus :: string

text \<open>\<open>newID\<close> is the identifier \<^verbatim>\<open>uuid.New\<close> returns and \<open>reply\<close> the utility's answer to the link request.\<close>

definition InitiateMeterClaim ::
    "registration_env \<Rightarrow> string \<Rightarrow> go_error + http_response \<Rightarrow> string \<Rightarrow> string \<Rightarrow> (reg_state, MeterClaimResponse) rpc" where
  "InitiateMeterClaim g newID reply meterID userReference =
     respond (ge_fromError g)
       (Registration_RegisterHouse (ge_env g) (ge_service g) reply
          \<lparr>lq_RegistrationID = newID, lq_MeterID = meterID, lq_UserReference = userReference\<rparr>)
       (\<lambda>resp. \<lparr>mc_RegistrationId = newID, mc_Status = ls_Status resp, mc_Message = ls_Message resp\<rparr>)"

definition GetRegistrationStatus :: "registration_env \<Rightarrow> string \<Rightarrow> (reg_state, RegistrationStatusResponse) rpc" where
  "GetRegistrationStatus g registrationID =
     respond (ge_fromError g)
       (if registrationID = [] then throw (NewValidationError ''registration_id'' ''is required'')
        else GetRegistration (ge_service g) registrationID)
       (\<lambda>r. \<lparr>gs_RegistrationId = rr_RegistrationID r, gs_MeterId = rr_MeterID r, gs_ApprovalStatus = rr_ApprovalStatus r\<rparr>)"

text \<open>\<open>orElse\<close>: every error of the call is answered with a fixed response.\<close>

definition orElse :: "'a \<Rightarrow> ('s, 'a) act \<Rightarrow> ('s, 'a) act" where
  "orElse d m s = (case m s of (Inl e, s') \<Rightarrow> (Inr d, s') | (Inr x, s') \<Rightarrow> (Inr x, s'))"

definition ValidateDeviceAssociation :: "registration_env \<Rightarrow> string \<Rightarrow> (reg_state, DeviceAssociationResponse) rpc" where
  "ValidateDeviceAssociation g meterID =
     respond (ge_fromError g)
       (if meterID = [] then throw (NewValidationError ''meter_id'' ''is required'')
        else orElse \<lparr>va_IsRegistered = False, va_PrimaryUserId = []\<rparr>
          (andThen (GetByMeterID (ge_service g) meterID) (\<lambda>record.
           if ToUpper (re_unicode (ge_env g)) (TrimSpace (rr_ApprovalStatus record)) \<noteq> ''APPROVED''
           then ret \<lparr>va_IsRegistered = False, va_PrimaryUserId = []\<rparr>
           else ret \<lparr>va_IsRegistered = True, va_PrimaryUserId = rr_UserID record\<rparr>)))
       (\<lambda>x. x)"

definition RegistrationHandler_ReverifyRegistration ::
    "registration_env \<Rightarrow> go_error + http_response \<Rightarrow> string \<Rightarrow> string \<Rightarrow> string \<Rightarrow> (reg_state, ReverifyResponse) rpc" where
  "RegistrationHandler_ReverifyRegistration g reply registrationID userRef meterID0 =
     respond (ge_fromError g)
       (andThen
          (if meterID0 = []
           then wrapErr (\<lambda>_. NewValidationError ''meter_id'' ''is required for reverification'')
                  (andThen (GetRegistration (ge_service g) registrationID) (\<lambda>record. ret (rr_MeterID record)))
           else ret meterID0) (\<lambda>meterID.
        andThen (ReverifyRegistration (ge_env g) (ge_service g) reply
                   \<lparr>lq_RegistrationID = registrationID, lq_MeterID = meterID, lq_UserReference = userRef\<rparr>) (\<lambda>resp.
        ret (meterID, resp))))
       (\<lambda>(meterID, resp). \<lparr>rv_RegistrationId = registrationID, rv_MeterId = meterID, rv_Status = ls_Status resp,
                           rv_Message = ls_Message resp\<rparr>)"

definition RegistrationHandler_GetRegistrationByUser :: "registration_env \<Rightarrow> string \<Rightarrow> (reg_state, RegistrationByUserResponse) rpc" where
  "RegistrationHandler_GetRegistrationByUser g userReference =
     respond (ge_fromError g)
       (let userRef = TrimSpace userReference in
        if userRef = [] then throw (NewValidationError ''user_reference'' ''is required'')
        else orElse \<lparr>gu_HasMeter = False, gu_RegistrationId = [], gu_MeterId = [], gu_ApprovalStatus = []\<rparr>
          (andThen (GetRegistrationByUser (ge_env g) (ge_service g) userRef) (\<lambda>record.
           ret \<lparr>gu_HasMeter = True, gu_RegistrationId = rr_RegistrationID record, gu_MeterId = rr_MeterID record,
                gu_ApprovalStatus = rr_ApprovalStatus record\<rparr>)))
       (\<lambda>x. x)"

section \<open>What the handlers guarantee\<close>

text \<open>
  With an owner given, the answer for a house of someone else is the answer for a house that does not exist: it
  depends on the requested identifier alone.
\<close>

lemma respond_Inl: "fst (m s) = Inl e \<Longrightarrow> fst (respond fe m f s) = Inl (ToGRPCError fe e)"
  by (auto simp: respond_def split: prod.splits)

theorem hidden_house_status:
  assumes "pg_quiet (w_pg w)" "owner \<noteq> []" "houseID \<noteq> []" "\<not> owned_by (pg_tables (w_pg w)) houseID owner"
    and "ie_fromError env (house_not_found houseID) = None"
  shows "fst (IotHandler_GetHouse env houseID owner w) = Inl \<lparr>st_Code = codes_NotFound, st_Message = err_text (house_not_found houseID)\<rparr>"
    "fst (IotHandler_GetLatestReading env houseID owner w) = Inl \<lparr>st_Code = codes_NotFound, st_Message = err_text (house_not_found houseID)\<rparr>"
proof -
  have c: "\<not> errors_Is (house_not_found houseID) ErrValidation" "\<not> errors_Is (house_not_found houseID) ContextCanceled"
    "\<not> errors_Is (house_not_found houseID) ContextDeadlineExceeded"
    by (simp_all add: house_not_found_def)
  have e: "ToGRPCError (ie_fromError env) (house_not_found houseID) =
      \<lparr>st_Code = codes_NotFound, st_Message = err_text (house_not_found houseID)\<rparr>"
    using assms(5) by (simp add: ToGRPCError_def c)
  have h: "fst (ownedHouse houseID owner w) = Inl (house_not_found houseID)"
    using ownedHouse_hidden assms(1,2,4) by blast
  have "fst (Query_GetHouse std houseID owner w) = Inl (house_not_found houseID)" for std
    using assms(3) andThen_fst_Inl [of "ownedHouse houseID owner" w, OF h] by (simp add: Query_GetHouse_def)
  then show "fst (IotHandler_GetHouse env houseID owner w) = Inl \<lparr>st_Code = codes_NotFound, st_Message = err_text (house_not_found houseID)\<rparr>"
    unfolding IotHandler_GetHouse_def e [symmetric] by (rule respond_Inl)
  have "fst (GetLatestReading houseID owner w) = Inl (house_not_found houseID)"
    using assms(3) andThen_fst_Inl [of "ownedHouse houseID owner" w, OF h] by (simp add: GetLatestReading_def)
  then show "fst (IotHandler_GetLatestReading env houseID owner w) = Inl \<lparr>st_Code = codes_NotFound, st_Message = err_text (house_not_found houseID)\<rparr>"
    unfolding IotHandler_GetLatestReading_def e [symmetric] by (rule respond_Inl)
qed

text \<open>Only the texts of validation, not-found and conflict errors leave the service; everything else is answered with a fixed text.\<close>

lemma status_texts:
  assumes "fromError err = None"
  shows "st_Message (ToGRPCError fromError err) = err_text err \<and>
       (errors_Is err ErrValidation \<or> errors_Is err ErrNotFound \<or> errors_Is err ErrIntegrityConflict) \<or>
     st_Message (ToGRPCError fromError err) \<in> {''request canceled'', ''deadline exceeded'', ''Internal Server Error''}"
  using assms by (simp add: ToGRPCError_def)

text \<open>A status query for a registration that does not exist is an internal error, not \<^verbatim>\<open>NotFound\<close>.\<close>

lemma unknown_registration_internal:
  assumes "sv_store (ge_service g)" "pg_quiet (rg_pg s)" "registrationID \<noteq> []" "text_ok registrationID"
    and "registrationID \<notin> r_registration_id ` set (registrations s)" "\<And>e. ge_fromError g e = None"
  shows "fst (GetRegistrationStatus g registrationID s) = Inl \<lparr>st_Code = codes_Internal, st_Message = ''Internal Server Error''\<rparr>"
proof -
  have "find (\<lambda>r. r_registration_id r = registrationID) (registrations s) = None"
    using assms(5) by (auto simp: find_None_iff)
  then have "fst (GetByRegistrationID None registrationID (rg_pg s)) =
      Inl (sqlErrorf (''get registration by ID '' @ go_quote registrationID @ '': '') NoRows)"
    using assms(2,4) by (simp add: GetByRegistrationID_def stmtCtx_None onSql_stmt_quiet selectRegistrationSQL_def)
  then have "fst (onReg (GetByRegistrationID None registrationID) s) =
      Inl (sqlErrorf (''get registration by ID '' @ go_quote registrationID @ '': '') NoRows)"
    by (simp add: onReg_apply)
  then have "fst (GetRegistrationStatus g registrationID s) = Inl (ToGRPCError (ge_fromError g)
      (sqlErrorf (''get registration by ID '' @ go_quote registrationID @ '': '') NoRows))"
    using assms(1,3) unfolding GetRegistrationStatus_def GetRegistration_def whenStored_def
    by (intro respond_Inl) simp
  then show ?thesis by (simp add: assms(6) ToGRPCError_def sqlErrorf_def)
qed

section \<open>Ownership as the two services see it\<close>

text \<open>Rows are written by claims of a primary owner only, with the statuses of the table.\<close>

definition primary_rows :: "registrations_row list \<Rightarrow> bool" where
  "primary_rows R \<longleftrightarrow> (\<forall>r \<in> set R. r_role r = ''PRIMARY_OWNER'' \<and> r_approval_status r \<in> approval_statuses)"

lemma primary_restates:
  assumes "restates reg status R R'" "status \<in> approval_statuses" "primary_rows R"
  shows "primary_rows R'"
  unfolding primary_rows_def
proof
  fix r' assume "r' \<in> set R'"
  then obtain r where r: "r \<in> set R" "restated reg status r r'" using restates_in assms(1) by metis
  with assms(2,3) restated_same(5) [OF r(2)] show "r_role r' = ''PRIMARY_OWNER'' \<and> r_approval_status r' \<in> approval_statuses"
    unfolding primary_rows_def restated_def by metis
qed

lemma pending_known: "''DEWA_APPROVAL_PENDING'' \<in> approval_statuses"
  by (simp add: approval_statuses_def)

lemma primary_new:
  assumes "new_claim u (pending_claim q) R row" "primary_rows R"
  shows "primary_rows (R @ [row])"
  using assms pending_known by (auto simp: primary_rows_def new_claim_def pending_claim_def)

lemma reg_step_primary:
  assumes "reg_step env svc h h'" "primary_rows (registrations (hs_state h))"
  shows "primary_rows (registrations (hs_state h'))"
  using assms(1)
proof (cases rule: reg_step.cases)
  case (claim reply request r s')
  from claim(2,3) show ?thesis
    by (cases rule: claim_effect) (use claim(1) assms(2) primary_new in auto)
next
  case (reverify reply request r s')
  from reverify(2) show ?thesis
    by (cases rule: reverify_effect) (use reverify(1) assms(2) primary_new primary_restates pending_known in auto)
next
  case (poll p run s')
  from poll(3) obtain status where "restates (pl_RegistrationID p) status (registrations (hs_state h)) (registrations s')"
    "status \<in> approval_statuses"
    by (rule runPollLoop_effect) auto
  from primary_restates [OF this assms(2)] poll(1) show ?thesis by simp
qed (use assms(2) in simp)

lemma reachable_primary:
  assumes "(reg_step env svc)\<^sup>*\<^sup>* h0 h" "fresh_history h0"
  shows "primary_rows (registrations (hs_state h))"
  using assms(1)
proof (induction rule: rtranclp_induct)
  case base
  from assms(2) show ?case by (simp add: fresh_history_def primary_rows_def)
qed (rule reg_step_primary)

lemma upper_statuses:
  "s \<in> approval_statuses \<Longrightarrow> ToUpper u (TrimSpace s) = ''APPROVED'' \<longleftrightarrow> s = ''APPROVED''"
proof -
  have "ToUpper u (TrimSpace ''DEWA_APPROVAL_PENDING'') = ''DEWA_APPROVAL_PENDING''"
    "ToUpper u (TrimSpace ''EXPIRED'') = ''EXPIRED''" by code_simp+
  then show "s \<in> approval_statuses \<Longrightarrow> ToUpper u (TrimSpace s) = ''APPROVED'' \<longleftrightarrow> s = ''APPROVED''"
    by (auto simp: approval_statuses_def)
qed

text \<open>
  C38. The two services agree on who owns a meter: in every history of claims, reverifications and polls, on a database
  that answers, the association of a meter names exactly the owner the queries give its house, and reports
  a meter as unregistered exactly when its house has no owner.
\<close>

theorem association_agrees_with_owner:
  assumes "fresh_history h0" "(reg_step (ge_env g) (ge_service g))\<^sup>*\<^sup>* h0 h"
    and "sv_store (ge_service g)" "pg_quiet (rg_pg (hs_state h))" "meterID \<noteq> []" "text_ok meterID"
  shows "\<exists>answer. ValidateDeviceAssociation g meterID (hs_state h) = (Inr answer, hs_state h) \<and>
    (\<forall>house. h_meter_id house = Some meterID \<longrightarrow>
       owner_of (pg_tables (rg_pg (hs_state h))) house =
         (if va_IsRegistered answer then Some (va_PrimaryUserId answer) else None))"
proof -
  let ?s = "hs_state h" and ?T = "pg_tables (rg_pg (hs_state h))"
  have ok: "rows_ok (registrations ?s)" using history_inv [OF assms(2,1)] by (simp add: reg_inv_def)
  have prim: "primary_rows (registrations ?s)" using reachable_primary [OF assms(2,1)] .
  have get: "onReg (GetRegistrationByMeterID meterID) ?s =
      (failWith (sqlErrorf (''get registration by meter ID '' @ go_quote meterID @ '': ''))
         (fst (selectRegistrationSQL r_meter_id meterID (pg_clock (rg_pg ?s)) ?T)), ?s)"
    using assms(4) by (simp add: onReg_apply GetRegistrationByMeterID_def onSql_stmt_quiet)
  have run: "ValidateDeviceAssociation g meterID ?s =
      respond (ge_fromError g) (orElse \<lparr>va_IsRegistered = False, va_PrimaryUserId = []\<rparr>
          (andThen (onReg (GetRegistrationByMeterID meterID)) (\<lambda>record.
           if ToUpper (re_unicode (ge_env g)) (TrimSpace (rr_ApprovalStatus record)) \<noteq> ''APPROVED''
           then ret \<lparr>va_IsRegistered = False, va_PrimaryUserId = []\<rparr>
           else ret \<lparr>va_IsRegistered = True, va_PrimaryUserId = rr_UserID record\<rparr>))) (\<lambda>x. x) ?s"
    using assms(3,5) by (simp add: ValidateDeviceAssociation_def GetByMeterID_def whenStored_def)
  show ?thesis
  proof (cases "find (\<lambda>r. r_meter_id r = meterID) (registrations ?s)")
    case None
    have "owner_of ?T house = None" if "h_meter_id house = Some meterID" for house
    proof (cases "find (approved_owner meterID) (registrations ?s)")
      case (Some r)
      with find_Some_in [OF this] find_None_in [OF None] show ?thesis by (auto simp: approved_owner_def)
    qed (use that in \<open>simp add: owner_of_def\<close>)
    moreover have "ValidateDeviceAssociation g meterID ?s = (Inr \<lparr>va_IsRegistered = False, va_PrimaryUserId = []\<rparr>, ?s)"
      using None assms(6) unfolding run by (simp add: respond_def orElse_def andThen_def get selectRegistrationSQL_def)
    ultimately show ?thesis by simp
  next
    case (Some r)
    have r: "r \<in> set (registrations ?s)" "r_meter_id r = meterID" using find_Some_in [OF Some] by simp_all
    have role: "r_role r = ''PRIMARY_OWNER''" "r_approval_status r \<in> approval_statuses" using prim r(1) by (auto simp: primary_rows_def)
    have only: "r2 = r" if "r2 \<in> set (registrations ?s)" "r_meter_id r2 = meterID" for r2
    proof -
      have "r_role r2 = ''PRIMARY_OWNER''" using prim that(1) by (simp add: primary_rows_def)
      with r role that ok show ?thesis unfolding rows_ok_def distinct_map inj_on_def by fastforce
    qed
    have owner: "owner_of ?T house = (if r_approval_status r = ''APPROVED'' then Some (r_user_id r) else None)"
      if "h_meter_id house = Some meterID" for house
    proof (cases "find (approved_owner meterID) (registrations ?s)")
      case None
      with r role find_None_in [OF None r(1)] that show ?thesis by (auto simp: owner_of_def approved_owner_def)
    next
      case (Some r2)
      with find_Some_in [OF Some] only [of r2] that show ?thesis by (auto simp: owner_of_def approved_owner_def)
    qed
    have "ValidateDeviceAssociation g meterID ?s =
        (Inr (if r_approval_status r = ''APPROVED'' then \<lparr>va_IsRegistered = True, va_PrimaryUserId = r_user_id r\<rparr>
              else \<lparr>va_IsRegistered = False, va_PrimaryUserId = []\<rparr>), ?s)"
      using Some assms(6) upper_statuses [OF role(2)] unfolding run
      by (simp add: respond_def orElse_def andThen_def get selectRegistrationSQL_def)
    with owner show ?thesis by auto
  qed
qed

definition sample_handler :: registration_env where
  "sample_handler = \<lparr>ge_env = sample_env_reg, ge_service = sample_service, ge_fromError = \<lambda>_. None\<rparr>"

theorem association_agrees_with_owner_witness:
  "\<exists>(h :: history) answer. ValidateDeviceAssociation sample_handler ''m1'' (hs_state h) = (Inr answer, hs_state h) \<and>
     va_IsRegistered answer \<and> va_PrimaryUserId answer = ''u1'' \<and>
     owner_of (pg_tables (rg_pg (hs_state h))) sample_owned_house = Some ''u1''"
proof -
  obtain h where run: "(reg_step sample_env_reg sample_service)\<^sup>*\<^sup>* sample_history h"
    and r: "registrations (hs_state h) = [sample_row ''APPROVED'']" "pg_quiet (rg_pg (hs_state h))" using sample_reaches by blast
  have s: "ge_env sample_handler = sample_env_reg" "ge_service sample_handler = sample_service" "sv_store sample_service"
    by (simp_all add: sample_handler_def sample_service_def NewService_def Let_def)
  have o: "owner_of (pg_tables (rg_pg (hs_state h))) sample_owned_house = Some ''u1''"
    by (simp add: owner_of_def sample_owned_house_def r sample_row_def approved_owner_def)
  obtain answer where a: "ValidateDeviceAssociation sample_handler ''m1'' (hs_state h) = (Inr answer, hs_state h)"
    "\<forall>house. h_meter_id house = Some ''m1'' \<longrightarrow> owner_of (pg_tables (rg_pg (hs_state h))) house =
         (if va_IsRegistered answer then Some (va_PrimaryUserId answer) else None)"
    using association_agrees_with_owner [of sample_history sample_handler h "''m1''"] run r(2) s sample_fresh sample_texts(2) by auto
  have "h_meter_id sample_owned_house = Some ''m1''" by (simp add: sample_owned_house_def)
  with a(2) o have "va_IsRegistered answer \<and> va_PrimaryUserId answer = ''u1''" by (auto split: if_splits)
  with a(1) o show ?thesis by (intro exI [of _ h] exI [of _ answer]) simp
qed

end
