(* ===== verification/App.thy ===== *)
theory App
  imports Settings Consumer Grpc "HOL-Library.AList"
begin

text \<open>
  \<^verbatim>\<open>internal/app\<close>: the constructor with its clean-up on every failure, the security options, the eviction and
  migration checks, the start-up sequence up to readiness, and the shutdown.  Connections, servers and
  clients are third-party objects: what their constructors and calls return are inputs, and the state keeps which
  of them are open and, for \<^verbatim>\<open>Run\<close>, the order in which things are started and stopped.
\<close>

section \<open>Kafka security and Redis eviction\<close>

definition kafkaSecurityOpts :: "KafkaConfig \<Rightarrow> go_error + kgo_opt list" where
  "kafkaSecurityOpts c =
     (let opts = (if kc_TLS c then [DialTLSConfig] else []) in
      if kc_SASLMech c = [] then Inr opts
      else if kc_SASLMech c = ''PLAIN'' then Inr (opts @ [SASL_Plain (kc_SASLUser c) (kc_SASLPass c)])
      else if kc_SASLMech c = ''SCRAM-SHA-256'' then Inr (opts @ [SASL_Sha256 (kc_SASLUser c) (kc_SASLPass c)])
      else if kc_SASLMech c = ''SCRAM-SHA-512'' then Inr (opts @ [SASL_Sha512 (kc_SASLUser c) (kc_SASLPass c)])
      else Inl (errors_New (''unsupported SASL mechanism '' @ go_quote (kc_SASLMech c))))"

text \<open>\<open>reply\<close> is the answer to \<^verbatim>\<open>CONFIG GET maxmemory-policy\<close>.\<close>

definition EvictionPolicy :: "go_error + (string \<times> string) list \<Rightarrow> go_error + string" where
  "EvictionPolicy reply =
     bindE (failWith (Errorf_w ''redis: config get maxmemory-policy: '') reply)
       (\<lambda>res. Inr (case map_of res ''maxmemory-policy'' of Some v \<Rightarrow> v | None \<Rightarrow> []))"

definition checkRedisEviction :: "unicode \<Rightarrow> go_error + (string \<times> string) list \<Rightarrow> AppConfig \<Rightarrow> go_error option" where
  "checkRedisEviction u reply c =
     (case EvictionPolicy reply of
        Inl e \<Rightarrow> None
      | Inr policy \<Rightarrow>
          if LivenessAndLatestSafe policy then None
          else if IsProduction u (ac_Service c)
          then Some (errors_New (''redis maxmemory-policy '' @ go_quote policy @
                 '' can evict liveness/latest keys; use noeviction or a volatile-* policy''))
          else None)"

section \<open>Connections\<close>

record PoolConfig =
  pl_MaxConns :: int
  pl_MinConns :: int
  pl_ConnectTimeout :: int
  pl_StatementTimeout :: int
  pl_MaxConnLifetime :: int

text \<open>The fields of the driver's configuration the code sets.\<close>

record pgxpool_config =
  px_MaxConns :: int
  px_MinConns :: int
  px_MaxConnLifetime :: int
  px_ConnectTimeout :: int
  px_RuntimeParams :: "(string \<times> string) list"

definition pool_settings :: "PoolConfig \<Rightarrow> pgxpool_config \<Rightarrow> pgxpool_config" where
  "pool_settings pool c0 =
     (let c1 = (if pl_MaxConns pool > 0 then c0\<lparr>px_MaxConns := pl_MaxConns pool\<rparr> else c0);
          c2 = (if pl_MinConns pool > 0 then c1\<lparr>px_MinConns := pl_MinConns pool\<rparr> else c1);
          c3 = (if pl_MaxConnLifetime pool > 0 then c2\<lparr>px_MaxConnLifetime := pl_MaxConnLifetime pool\<rparr> else c2);
          c4 = (if pl_ConnectTimeout pool > 0 then c3\<lparr>px_ConnectTimeout := pl_ConnectTimeout pool\<rparr> else c3)
      in if pl_StatementTimeout pool > 0
         then c4\<lparr>px_RuntimeParams := AList.update ''statement_timeout''
                   (show_int (go_quot (pl_StatementTimeout pool) ns_millisecond)) (px_RuntimeParams c4)\<rparr>
         else c4)"

text \<open>The fields of the Redis client's options; \<open>op_TLS\<close> holds \<^verbatim>\<open>InsecureSkipVerify\<close> when TLS is on.\<close>

record redis_options =
  op_Addr :: string
  op_Username :: string
  op_Password :: string
  op_DB :: int
  op_DialTimeout :: int
  op_ReadTimeout :: int
  op_WriteTimeout :: int
  op_PoolSize :: int
  op_MinIdleConns :: int
  op_MaxRetries :: int
  op_TLS :: "bool option"

definition options_of :: "RedisConfig \<Rightarrow> redis_options" where
  "options_of c =
     \<lparr>op_Addr = rc_Address c, op_Username = rc_Username c, op_Password = rc_Password c, op_DB = rc_DB c,
      op_DialTimeout = rc_DialTimeout c, op_ReadTimeout = rc_ReadTimeout c, op_WriteTimeout = rc_WriteTimeout c,
      op_PoolSize = rc_PoolSize c, op_MinIdleConns = rc_MinIdleConns c,
      op_MaxRetries = (if rc_MaxRetries c = 0 then -1 else rc_MaxRetries c),
      op_TLS = (if rc_TLS c then Some (rc_TLSSkipVerif c) else None)\<rparr>"

text \<open>What is open, and the operations that open and close.\<close>

datatype resource = Tracing | PostgresPool | RedisClient | ConsumerClient | ProducerClient

type_synonym 'a building = "(resource list, 'a) act"

definition opened :: "resource \<Rightarrow> go_error option \<Rightarrow> unit building" where
  "opened r result s = (case result of Some e \<Rightarrow> (Inl e, s) | None \<Rightarrow> (Inr (), s @ [r]))"

definition closing :: "resource list \<Rightarrow> unit building" where
  "closing rs s = (Inr (), fold remove1 rs s)"

text \<open>\<^verbatim>\<open>if err != nil\<close> with clean-up: close \<open>rs\<close> and return the error as \<open>g\<close> has it.\<close>

definition cleanup :: "resource list \<Rightarrow> (go_error \<Rightarrow> go_error) \<Rightarrow> 'a building \<Rightarrow> 'a building" where
  "cleanup rs g m s = (case m s of (Inl e, s') \<Rightarrow> (Inl (g e), snd (closing rs s')) | (Inr x, s') \<Rightarrow> (Inr x, s'))"

text \<open>The results of the outside world during construction.\<close>

record boot =
  bt_exporter :: "string \<Rightarrow> bool \<Rightarrow> go_error option"
  bt_resource :: "string \<Rightarrow> go_error option"
  bt_parseConfig :: "string \<Rightarrow> go_error + pgxpool_config"
  bt_newPool :: "pgxpool_config \<Rightarrow> go_error option"
  bt_pingPostgres :: "go_error option"
  bt_pingRedis :: "redis_options \<Rightarrow> go_error option"
  bt_eviction :: "go_error + (string \<times> string) list"
  bt_consumer :: "kgo_opt list \<Rightarrow> go_error option"
  bt_producer :: "kgo_opt list \<Rightarrow> go_error option"

definition SetupTracing :: "boot \<Rightarrow> string \<Rightarrow> string \<Rightarrow> bool \<Rightarrow> go_error option" where
  "SetupTracing b service endpoint insecure =
     (if endpoint = [] then None
      else case bt_exporter b endpoint insecure of
        Some e \<Rightarrow> Some (Errorf_w ''create OTLP trace exporter: '' e)
      | None \<Rightarrow> map_option (Errorf_w ''create trace resource: '') (bt_resource b service))"

definition NewWithPool :: "boot \<Rightarrow> string \<Rightarrow> PoolConfig \<Rightarrow> unit building" where
  "NewWithPool b url pool =
     andThen (liftE (failWith (Errorf_w ''parse postgres config: '') (bt_parseConfig b url))) (\<lambda>config0.
     let config = pool_settings pool config0 in
     andThen (wrapErr (Errorf_w ''create progress pool: '') (opened PostgresPool (bt_newPool b config))) (\<lambda>_.
     cleanup [PostgresPool] (Errorf_w ''ping postgres: '') (liftE (checkE (bt_pingPostgres b) (Inr ())))))"

definition redis_New :: "boot \<Rightarrow> RedisConfig \<Rightarrow> unit building" where
  "redis_New b c =
     andThen (opened RedisClient None) (\<lambda>_.
     cleanup [RedisClient] (Errorf_w ''redis: ping: '') (liftE (checkE (bt_pingRedis b (options_of c)) (Inr ()))))"

definition NewKafkaActuationProducer :: "boot \<Rightarrow> string list \<Rightarrow> string \<Rightarrow> kgo_opt list \<Rightarrow> KafkaActuationProducer building" where
  "NewKafkaActuationProducer b brokers topic extraOpts =
     andThen (wrapErr (Errorf_w ''failed to create kafka producer client: '')
                (opened ProducerClient (bt_producer b (SeedBrokers brokers # extraOpts)))) (\<lambda>_.
     ret \<lparr>kp_topic = topic\<rparr>)"

section \<open>The constructor\<close>

record App =
  app_config :: AppConfig
  app_registry :: Registry
  app_refresher :: RefresherConfig
  app_router :: Router
  app_consumer :: Consumer
  app_producer :: KafkaActuationProducer
  app_registration :: Service
  app_metricsHTTP :: bool

definition limits_of :: "InputConfig \<Rightarrow> InputLimits" where
  "limits_of i = \<lparr>il_MaxRecordBytes = ic_MaxRecordBytes i, il_EnforceHouseKey = ic_EnforceHouseKey i\<rparr>"

definition policy_for :: "string \<Rightarrow> CachePolicy" where
  "policy_for ack = (if IsAsyncRepair ack then CacheAsyncRepair else CacheRequired)"

definition consumer_config :: "AppConfig \<Rightarrow> kgo_opt list \<Rightarrow> Config" where
  "consumer_config c securityOpts =
     (let k = ac_Kafka c; y = ac_Retry c in
      \<lparr>cf_Brokers = kc_Brokers k, cf_ConsumerGroup = kc_ConsumerGroup k, cf_MeterTopic = kc_MeterTopic k,
       cf_HeartbeatTopic = kc_HeartbeatTopic k, cf_ActuationResponseTopic = kc_ActuationResponseTopic k,
       cf_MaxConcurrentHandlers = ic_MaxConcurrentHandlers (ac_Input c), cf_PartitionQueueDepth = 0,
       cf_Retry = \<lparr>rp_MaxTries = ry_MaxTries y, rp_InitialInterval = ry_InitialInterval y, rp_MaxInterval = ry_MaxInterval y\<rparr>,
       cf_SessionTimeout = kc_SessionTime k, cf_HeartbeatInterval = kc_Heartbeat k,
       cf_FetchMaxBytes = kc_FetchMaxBytes k, cf_MaxPartitionBytes = kc_MaxPartitionBytes k,
       cf_ExtraOpts = securityOpts\<rparr>)"

definition newConsumer :: "boot \<Rightarrow> Config \<Rightarrow> Router \<Rightarrow> Consumer building" where
  "newConsumer b config router s =
     (case NewConsumer (bt_consumer b) config (Some router) (Some pg_recorder) of
        Inl e \<Rightarrow> (Inl e, s)
      | Inr c \<Rightarrow> (Inr c, s @ [ConsumerClient]))"

definition App_New :: "unicode \<Rightarrow> boot \<Rightarrow> AppConfig \<Rightarrow> App building" where
  "App_New u b c =
     (let p = ac_Postgres c; k = ac_Kafka c; stores = [RedisClient, PostgresPool, Tracing] in
      andThen (cleanup [] (Errorf_w ''tracing: '') 
                 (opened Tracing (SetupTracing b (sc_Name (ac_Service c)) (tc_Endpoint (ac_Tracing c)) (tc_Insecure (ac_Tracing c))))) (\<lambda>_.
      andThen (cleanup [Tracing] (Errorf_w ''postgres: '')
                 (NewWithPool b (pc_URL p)
                    \<lparr>pl_MaxConns = pc_MaxConns p, pl_MinConns = pc_MinConns p, pl_ConnectTimeout = pc_ConnectTimeout p,
                     pl_StatementTimeout = pc_StatementTimeout p, pl_MaxConnLifetime = pc_MaxConnLifetime p\<rparr>)) (\<lambda>_.
      andThen (cleanup [PostgresPool, Tracing] (Errorf_w ''redis: '') (redis_New b (ac_Redis c))) (\<lambda>_.
      andThen (cleanup stores (\<lambda>e. e) (liftE (checkE (checkRedisEviction u (bt_eviction b) c) (Inr ())))) (\<lambda>_.
      andThen (cleanup stores (\<lambda>e. e)
                 (liftE (wire_router \<lparr>kt_MeterTopic = kc_MeterTopic k, kt_HeartbeatTopic = kc_HeartbeatTopic k,
                                      kt_ActuationResponseTopic = kc_ActuationResponseTopic k\<rparr>
                    (limits_of (ac_Input c)) (policy_for (rc_AckPolicy (ac_Redis c)))))) (\<lambda>router.
      andThen (cleanup stores (Errorf_w ''kafka: '') (liftE (kafkaSecurityOpts k))) (\<lambda>securityOpts.
      andThen (cleanup stores (Errorf_w ''kafka: '') (newConsumer b (consumer_config c securityOpts) router)) (\<lambda>consumer.
      andThen (cleanup stores (Errorf_w ''actuation kafka producer: '')
                 (NewKafkaActuationProducer b (kc_Brokers k) ''iot.actuation.commands'' securityOpts)) (\<lambda>producer.
      let client = NewClient (ac_BaseUrl c) in
      ret \<lparr>app_config = c, app_registry = NewRegistry, app_refresher = \<lparr>rf_Interval = ac_RefreshInterval c\<rparr>,
           app_router = router, app_consumer = consumer, app_producer = producer,
           app_registration = NewService (Some client) (Some (NewPoller client)) True (Some producer),
           app_metricsHTTP = (ac_Metrics_Address c \<noteq> [])\<rparr>)))))))))"


section \<open>What construction leaves open\<close>

lemma cleanup_Inr [inversion]: "cleanup rs g m s = (Inr x, s') \<longleftrightarrow> m s = (Inr x, s')"
  by (auto simp: cleanup_def split: prod.splits sum.splits)

lemma cleanup_Inl [inversion]:
  "cleanup rs g m s = (Inl e, s') \<longleftrightarrow> (\<exists>e0 s0. m s = (Inl e0, s0) \<and> e = g e0 \<and> s' = fold remove1 rs s0)"
  by (auto simp: cleanup_def closing_def split: prod.splits sum.splits)

text \<open>
  \<open>opens s rs m\<close>: from \<open>s\<close>, a failing constructor leaves nothing of its own open and a successful one opens \<open>rs\<close>.
  \<open>builds left s t m\<close>: a step of \<^verbatim>\<open>New\<close> that fails leaves open what \<open>left\<close> allows, and goes from \<open>s\<close> to \<open>t\<close> otherwise.
\<close>

definition opens :: "resource list \<Rightarrow> resource list \<Rightarrow> 'a building \<Rightarrow> bool" where
  "opens s rs m \<longleftrightarrow> (\<forall>r s'. m s = (r, s') \<longrightarrow> s' = (if isl r then s else s @ rs))"

definition builds :: "(resource list \<Rightarrow> bool) \<Rightarrow> resource list \<Rightarrow> resource list \<Rightarrow> 'a building \<Rightarrow> bool" where
  "builds left s t m \<longleftrightarrow> (\<forall>r s'. m s = (r, s') \<longrightarrow> (if isl r then left s' else s' = t))"

lemma opens_opened: "opens s [x] (opened x res)"
  by (auto simp: opens_def opened_def split: option.splits)

lemma opens_liftE: "opens s [] (liftE r)"
  by (auto simp: opens_def liftE_def)

lemma opens_wrapErr: "opens s rs m \<Longrightarrow> opens s rs (wrapErr g m)"
  by (auto simp: opens_def wrapErr_def failWith_def split: prod.splits sum.splits)

lemma opens_lift_then: "(\<And>x. opens s rs (k x)) \<Longrightarrow> opens s rs (andThen (liftE r) k)"
  by (cases r) (fastforce simp: opens_def andThen_def liftE_def)+

lemma opens_then_ret: "opens s rs m \<Longrightarrow> opens s rs (andThen m (\<lambda>x. ret (f x)))"
  by (auto simp: opens_def andThen_def ret_def split: prod.splits sum.splits)

text \<open>A connection that is opened, checked, and closed again when the check fails.\<close>

lemma opens_checked:
  assumes "x \<notin> set s"
  shows "opens s [x] (andThen (wrapErr g (opened x res)) (\<lambda>_. cleanup [x] h (liftE r)))"
  using assms
  by (auto simp: opens_def andThen_def wrapErr_def opened_def cleanup_def closing_def liftE_def failWith_def
      remove1_append split: sum.splits option.splits)

lemma opens_NewWithPool: "PostgresPool \<notin> set s \<Longrightarrow> opens s [PostgresPool] (NewWithPool b url pool)"
  unfolding NewWithPool_def Let_def by (intro opens_lift_then opens_checked)

lemma opens_redis_New: "RedisClient \<notin> set s \<Longrightarrow> opens s [RedisClient] (redis_New b c)"
proof -
  have "redis_New b c s = andThen (wrapErr (\<lambda>e. e) (opened RedisClient None)) (\<lambda>_.
      cleanup [RedisClient] (Errorf_w ''redis: ping: '') (liftE (checkE (bt_pingRedis b (options_of c)) (Inr ())))) s"
    by (simp add: redis_New_def opened_def wrapErr_def failWith_def andThen_def)
  then show "RedisClient \<notin> set s \<Longrightarrow> ?thesis"
    using opens_checked [of RedisClient s] unfolding opens_def by metis
qed

lemma opens_producer: "opens s [ProducerClient] (NewKafkaActuationProducer b brokers topic opts)"
  unfolding NewKafkaActuationProducer_def by (intro opens_then_ret opens_wrapErr opens_opened)

lemma opens_newConsumer: "opens s [ConsumerClient] (newConsumer b config router)"
  by (auto simp: opens_def newConsumer_def split: sum.splits)

lemma builds_andThen: "builds left s t m \<Longrightarrow> (\<And>x. builds left t v (k x)) \<Longrightarrow> builds left s v (andThen m k)"
  unfolding builds_def andThen_def by (auto split: prod.splits sum.splits)

lemma builds_ret: "builds left s s (ret x)"
  by (simp add: builds_def)

lemma builds_cleanup:
  assumes "opens s rs m" "left (fold remove1 closers s)"
  shows "builds left s (s @ rs) (cleanup closers g m)"
  using assms by (auto simp: builds_def opens_def cleanup_def closing_def split: prod.splits sum.splits)

lemma builds_cleanup_lift:
  "left (fold remove1 closers s) \<Longrightarrow> builds left s s (cleanup closers g (liftE r))"
  using builds_cleanup [OF opens_liftE] by fastforce

definition all_open :: "resource list" where
  "all_open = [Tracing, PostgresPool, RedisClient, ConsumerClient, ProducerClient]"

definition leftover :: "boot \<Rightarrow> resource list \<Rightarrow> bool" where
  "leftover b s \<longleftrightarrow> s = [] \<or> s = [ConsumerClient] \<and> (\<exists>opts. bt_producer b opts \<noteq> None)"

lemma builds_producer:
  "builds (leftover b) [Tracing, PostgresPool, RedisClient, ConsumerClient] all_open
     (cleanup [RedisClient, PostgresPool, Tracing] g (NewKafkaActuationProducer b brokers topic opts))"
proof -
  have "\<exists>opts. bt_producer b opts \<noteq> None" if "NewKafkaActuationProducer b brokers topic opts s = (Inl e, s')" for s e s'
    using that by (auto simp: NewKafkaActuationProducer_def andThen_def wrapErr_def opened_def failWith_def
        split: option.splits)
  with opens_producer show ?thesis
    by (fastforce simp: builds_def opens_def cleanup_def closing_def leftover_def all_open_def split: prod.splits sum.splits)
qed

lemma App_New_builds: "builds (leftover b) [] all_open (App_New u b c)"
proof -
  have none: "leftover b []" by (simp add: leftover_def)
  note open1 = builds_cleanup [OF opens_opened [where x = Tracing], where s = "[]" and closers = "[]" and left = "leftover b"]
  note pool = builds_cleanup [OF opens_NewWithPool, where s = "[Tracing]" and closers = "[Tracing]" and left = "leftover b"]
  note cache = builds_cleanup [OF opens_redis_New, where s = "[Tracing, PostgresPool]"
      and closers = "[PostgresPool, Tracing]" and left = "leftover b"]
  note kafka = builds_cleanup [OF opens_newConsumer, where s = "[Tracing, PostgresPool, RedisClient]"
      and closers = "[RedisClient, PostgresPool, Tracing]" and left = "leftover b"]
  note steps = open1 [simplified] pool [simplified] cache [simplified] kafka [simplified]
  show ?thesis
    unfolding App_New_def Let_def
    by (intro builds_andThen [OF steps(1)] builds_andThen [OF steps(2)] builds_andThen [OF steps(3)]
        builds_andThen [OF steps(4)] builds_andThen [OF builds_cleanup_lift] builds_andThen [OF builds_producer]
        builds_ret none) (simp_all add: none)
qed

text \<open>What the constructor checked and how it wired the parts, when it succeeds.\<close>

lemma App_New_Inr:
  assumes "App_New u b c s = (Inr a, s')"
  obtains router opts where
    "checkRedisEviction u (bt_eviction b) c = None"
    "wire_router \<lparr>kt_MeterTopic = kc_MeterTopic (ac_Kafka c), kt_HeartbeatTopic = kc_HeartbeatTopic (ac_Kafka c),
       kt_ActuationResponseTopic = kc_ActuationResponseTopic (ac_Kafka c)\<rparr>
       (limits_of (ac_Input c)) (policy_for (rc_AckPolicy (ac_Redis c))) = Inr router"
    "kafkaSecurityOpts (ac_Kafka c) = Inr opts"
    "NewConsumer (bt_consumer b) (consumer_config c opts) (Some router) (Some pg_recorder) = Inr (app_consumer a)"
    "app_config a = c" "app_registry a = NewRegistry" "app_router a = router"
    "app_refresher a = \<lparr>rf_Interval = ac_RefreshInterval c\<rparr>" "app_metricsHTTP a = (ac_Metrics_Address c \<noteq> [])"
proof -
  have evict: "x = None" if "liftE (checkE x (Inr ())) t = (Inr v, t')" for x :: "go_error option" and t t' :: "resource list" and v
    using that by (cases x) (simp_all add: checkE_def liftE_def)
  have kafka: "NewConsumer (bt_consumer b) cf (Some rt) (Some pg_recorder) = Inr x" if "newConsumer b cf rt t = (Inr x, t')"
    for cf rt t x t'
    using that by (simp add: newConsumer_def split: sum.splits)
  have lifted: "r = Inr x" if "liftE r t = (Inr x, t')" for r and t t' :: "resource list" and x :: 'b
    using that by (simp add: liftE_def)
  from assms show thesis
    unfolding App_New_def Let_def andThen_Inr_iff cleanup_Inr ret_apply prod.inject sum.inject
    by (elim exE conjE, intro that [OF evict lifted lifted trans [OF kafka]])
       (assumption | drule sym, simp)+
qed

text \<open>
  A constructor that fails has closed what it opened, but for the consumer's client when the producer's cannot be
  created; one that succeeds has opened all five, starts from an empty registry and a consumer without partitions,
  and in production has a Redis that does not evict or cannot be asked.
\<close>

theorem App_New_outcome:
  assumes "App_New u b c [] = (res, s)"
  shows "case res of
      Inl e \<Rightarrow> s = [] \<or> s = [ConsumerClient] \<and> (\<exists>opts. bt_producer b opts \<noteq> None)
    | Inr a \<Rightarrow> s = all_open \<and> app_config a = c \<and> app_registry a = NewRegistry \<and>
        kc_MeterTopic (ac_Kafka c) \<noteq> kc_HeartbeatTopic (ac_Kafka c) \<and>
        ownership (app_consumer a) \<and> abs_consumer (app_consumer a) = ({}, False) \<and>
        (IsProduction u (ac_Service c) \<longrightarrow>
           (\<forall>policy. EvictionPolicy (bt_eviction b) = Inr policy \<longrightarrow> LivenessAndLatestSafe policy))"
proof (cases res)
  case (Inl e)
  with assms App_New_builds [of b u c] show ?thesis by (auto simp: builds_def leftover_def)
next
  case (Inr a)
  with assms have a: "App_New u b c [] = (Inr a, s)" by simp
  then have "s = all_open" using App_New_builds [of b u c] by (auto simp: builds_def)
  with a Inr show ?thesis
    by (elim App_New_Inr)
       (auto simp: checkRedisEviction_def wire_router_def dest: NewConsumer_Inr split: if_splits)
qed

section \<open>The migration check\<close>

text \<open>
  \<^verbatim>\<open>migrations/version.go\<close>: an entry of the embedded directory is its name and whether it is a directory.  The
  number of a file is what its name has before the first underscore.
\<close>

definition HasSuffix :: "string \<Rightarrow> string \<Rightarrow> bool" where
  "HasSuffix s t = HasPrefix (rev s) (rev t)"

definition version_of :: "string \<times> bool \<Rightarrow> int option" where
  "version_of entry =
     (case entry of (name, isDir) \<Rightarrow>
        if isDir \<or> \<not> HasSuffix name ''.sql'' then None
        else if CHR 0x5F \<notin> set name then None
        else ParseInt 64 (takeWhile (\<lambda>ch. ch \<noteq> CHR 0x5F) name))"

fun versionLoop :: "int \<Rightarrow> (string \<times> bool) list \<Rightarrow> int" where
  "versionLoop latest [] = latest"
| "versionLoop latest (entry # entries) =
     versionLoop (case version_of entry of None \<Rightarrow> latest | Some v \<Rightarrow> if v > latest then v else latest) entries"

definition LatestVersion :: "go_error + (string \<times> bool) list \<Rightarrow> go_error + int" where
  "LatestVersion dir =
     bindE (failWith (Errorf_w ''migrations: read embedded dir: '') dir) (\<lambda>entries.
       let latest = versionLoop 0 entries in
       if latest = 0 then Inl (errors_New ''migrations: no valid migration files found in embedded FS'')
       else Inr latest)"

text \<open>The embedded files of the repository.\<close>

definition embedded :: "(string \<times> bool) list" where
  "embedded = map (\<lambda>f. (f, False))
     [''00001_create_migration_smoke_test.sql'', ''00002_initial_iot_schema.sql'', ''00004_rename_house_last_heartbeat.sql'',
      ''00005_add_discovered_assets.sql'', ''00006_add_meter_id_to_houses.sql'', ''00007_ingestion_failures.sql'',
      ''00008_allow_handler_panic_failure_stage.sql'', ''00009_integrity_checks_and_columnstore.sql'',
      ''00011_create_meter_registrations.sql'']"

text \<open>\<open>rows\<close>: the version and the applied flag of every row of goose's version table.\<close>

definition CurrentMigrationVersion :: "go_error + (int \<times> bool) list \<Rightarrow> go_error + int" where
  "CurrentMigrationVersion rows =
     bindE (failWith (Errorf_w ''postgres: read current migration version: '') rows) (\<lambda>rs.
       Inr (case map fst (filter snd rs) of [] \<Rightarrow> 0 | v # vs \<Rightarrow> fold max vs v))"

definition ensureMigrationsCurrent ::
    "AppConfig \<Rightarrow> go_error + (string \<times> bool) list \<Rightarrow> go_error + (int \<times> bool) list \<Rightarrow> go_error + unit" where
  "ensureMigrationsCurrent c dir rows =
     bindE (failWith (Errorf_w ''determine expected migration version: '') (LatestVersion dir)) (\<lambda>embeddedVersion.
     let pinned = pc_ExpectedMigration (ac_Postgres c);
         expected = (if pinned > 0 then pinned else embeddedVersion) in
     bindE (failWith (Errorf_w ''read current migration version: '') (CurrentMigrationVersion rows)) (\<lambda>current.
     if current \<noteq> expected
     then Inl (errors_New (''database migration version '' @ show_int current @ '' does not match expected version '' @
                 show_int expected @ '' - run cmd/migrate before starting this service''))
     else Inr ()))"

text \<open>The version the schema must have: the pinned one, or the highest this binary embeds.\<close>

definition expected_version :: "AppConfig \<Rightarrow> (string \<times> bool) list \<Rightarrow> int" where
  "expected_version c entries =
     (if pc_ExpectedMigration (ac_Postgres c) > 0 then pc_ExpectedMigration (ac_Postgres c)
      else Max (insert 0 (set (List.map_filter version_of entries))))"

lemma versionLoop_Max: "versionLoop v entries = Max (insert v (set (List.map_filter version_of entries)))"
proof (induction entries arbitrary: v)
  case (Cons x xs)
  have m: "Max (insert (if b > v then b else v) S) = Max (insert v (insert b S))" if "finite S" for b :: int and S
    using that by (cases "S = {}") (auto simp: max_def)
  show ?case using Cons m by (cases "version_of x") (simp_all add: map_filter_simps)
qed (simp add: map_filter_simps)

text \<open>The version the schema has.\<close>

definition applied_version :: "(int \<times> bool) list \<Rightarrow> int" where
  "applied_version rs = (if \<exists>r \<in> set rs. snd r then Max (fst ` {r \<in> set rs. snd r}) else 0)"

lemma applied_Max:
  "(case map fst (filter snd rs) of [] \<Rightarrow> 0 | v # vs \<Rightarrow> fold max vs v) = applied_version rs"
proof (cases "map fst (filter snd rs)")
  case (Cons v vs)
  then have "set (v # vs) = fst ` {r \<in> set rs. snd r}" by (metis list.set_map set_filter)
  moreover from Cons have "filter snd rs \<noteq> []" by auto
  then have "\<exists>r \<in> set rs. snd r" by (simp add: filter_empty_conv)
  ultimately show ?thesis using Cons Max.set_eq_fold [of v vs] by (simp add: applied_version_def del: list.set)
qed (auto simp: applied_version_def filter_empty_conv)

lemma ensureMigrationsCurrent_Inr:
  assumes "ensureMigrationsCurrent c dir rows = Inr u"
  obtains entries rs where "dir = Inr entries" "rows = Inr rs"
    "applied_version rs = expected_version c entries"
  using assms
  by (auto simp: applied_Max ensureMigrationsCurrent_def LatestVersion_def CurrentMigrationVersion_def expected_version_def
      versionLoop_Max [symmetric] bindE_def failWith_def Let_def split: sum.splits if_splits)

lemma embedded_latest: "LatestVersion (Inr embedded) = Inr 11"
  by code_simp

section \<open>Running\<close>

datatype component = HealthServer | MetricsServer | GrpcServer | KafkaConsumer

datatype lifecycle =
    Started component | StartedMonitor | StartedRefresher
  | HealthReady bool | GrpcReady bool
  | AwaitedConsumer | ClosedConsumer | StoppedGrpc | ShutHealth | ShutMetrics | StoppedTracing
  | ClosedRedis | ClosedProducer | ClosedPostgres

record running =
  rn_registry :: Registry
  rn_pg :: pg
  rn_consumer :: Consumer
  rn_trace :: "lifecycle list"

text \<open>
  What the outside world does during \<^verbatim>\<open>Run\<close>: the directory and version rows read at start-up, what the refresher and
  the consumer go through, the components' goroutines that return and with what, in order, whether the context of the
  caller is done, which branch of the \<^verbatim>\<open>select\<close> is taken when both are possible, and what the shutdown steps return
  (for the two waits, the error of the shutdown context when its deadline comes first).
\<close>

record run_env =
  re_embedded :: "go_error + (string \<times> bool) list"
  re_versions :: "go_error + (int \<times> bool) list"
  re_ticks :: "(pg \<Rightarrow> pg) list"
  re_events :: "event list"
  re_returns :: "(component \<times> go_error option) list"
  re_ctxDone :: bool
  re_preferDone :: bool
  re_await :: "go_error option"
  re_close :: "go_error option"
  re_health :: "go_error option"
  re_metrics :: "go_error option"
  re_tracing :: "go_error option"
  re_redis :: "go_error option"

definition log_event :: "lifecycle list \<Rightarrow> running \<Rightarrow> running" where
  "log_event es s = s\<lparr>rn_trace := rn_trace s @ es\<rparr>"

text \<open>What a component's goroutine puts on the error channel when its \<^verbatim>\<open>Run\<close> returns.\<close>

definition report :: "component \<times> go_error option \<Rightarrow> go_error option" where
  "report r =
     (case r of
        (c, None) \<Rightarrow> None
      | (HealthServer, Some e) \<Rightarrow> Some (Errorf_w ''health error: '' e)
      | (MetricsServer, Some e) \<Rightarrow> Some (Errorf_w ''metrics error: '' e)
      | (GrpcServer, Some e) \<Rightarrow> Some (Errorf_w ''grpc server: '' e)
      | (KafkaConsumer, Some e) \<Rightarrow>
          if errors_Is e ContextCanceled then None else Some (Errorf_w ''kafka consumer: '' e))"

text \<open>The \<^verbatim>\<open>select\<close>: \<open>None\<close> while it blocks, else the error taken from the channel, if that branch was taken.\<close>

definition select_end :: "bool \<Rightarrow> bool \<Rightarrow> go_error list \<Rightarrow> go_error option option" where
  "select_end ctxDone preferDone errorChannel =
     (case errorChannel of
        [] \<Rightarrow> if ctxDone then Some None else None
      | e # _ \<Rightarrow> if ctxDone \<and> preferDone then Some None else Some (Some e))"

definition failure_of :: "string \<Rightarrow> go_error option \<Rightarrow> go_error list" where
  "failure_of pre r = (case r of None \<Rightarrow> [] | Some e \<Rightarrow> [Errorf_w pre e])"

definition shutdown :: "run_env \<Rightarrow> App \<Rightarrow> running \<Rightarrow> go_error option \<times> running" where
  "shutdown env a s0 =
     (let s1 = log_event [HealthReady False, GrpcReady False] s0;
          s2 = log_event [AwaitedConsumer] s1;
          errs2 = failure_of ''wait for kafka consumer: '' (re_await env);
          s3 = log_event [ClosedConsumer] (s2\<lparr>rn_consumer := Close (rn_consumer s2)\<rparr>);
          errs3 = errs2 @ failure_of ''close kafka consumer: '' (re_close env);
          s4 = log_event [StoppedGrpc, ShutHealth] s3;
          errs4 = errs3 @ failure_of ''close health server: '' (re_health env);
          s5 = (if app_metricsHTTP a then log_event [ShutMetrics] s4 else s4);
          errs5 = errs4 @ (if app_metricsHTTP a then failure_of ''close metrics server: '' (re_metrics env) else []);
          s6 = log_event [StoppedTracing] s5;
          errs6 = errs5 @ failure_of ''flush tracing: '' (re_tracing env);
          s7 = log_event [ClosedRedis] s6;
          errs7 = errs6 @ failure_of ''close redis: '' (re_redis env);
          s8 = log_event [ClosedProducer, ClosedPostgres] s7
      in (errors_Join errs7, s8))"

text \<open>\<^verbatim>\<open>Run\<close>: the result is \<open>None\<close> as long as it waits, \<open>Some None\<close> when it returns nil.\<close>

definition App_Run :: "run_env \<Rightarrow> App \<Rightarrow> running \<Rightarrow> go_error option option \<times> running" where
  "App_Run env a s0 =
     (case ensureMigrationsCurrent (app_config a) (re_embedded env) (re_versions env) of
        Inl e \<Rightarrow> (Some (Some (Errorf_w ''migration version check: '' e)), s0)
      | Inr _ \<Rightarrow>
          (let s1 = log_event [Started HealthServer] s0;
               s2 = (if app_metricsHTTP a then log_event [Started MetricsServer] s1 else s1);
               s3 = log_event [StartedMonitor, Started GrpcServer] s2 in
           case Bootstrap LoadGrids (rn_registry s3, rn_pg s3) of
             (Inl e, (r, p)) \<Rightarrow> (Some (Some (Errorf_w ''grid registry bootstrap: '' e)), s3\<lparr>rn_registry := r, rn_pg := p\<rparr>)
           | (Inr n, (r, p)) \<Rightarrow>
               (let s4 = log_event [StartedRefresher, Started KafkaConsumer] (s3\<lparr>rn_registry := r, rn_pg := p\<rparr>);
                    s5 = log_event [HealthReady True, GrpcReady True] s4 in
                case Start LoadGrids (re_ticks env) (rn_registry s5, rn_pg s5) of (r', p') \<Rightarrow>
                let s6 = s5\<lparr>rn_registry := r', rn_pg := p', rn_consumer := fold on_event (re_events env) (rn_consumer s5)\<rparr>;
                    running = filter (\<lambda>x. fst x \<noteq> MetricsServer \<or> app_metricsHTTP a) (re_returns env) in
                case select_end (re_ctxDone env) (re_preferDone env) (List.map_filter report running) of
                  None \<Rightarrow> (None, s6)
                | Some runErr \<Rightarrow>
                    (case shutdown env a s6 of (shutdownErr, s7) \<Rightarrow>
                       (Some (errors_Join (List.map_filter (\<lambda>e. e) [runErr, shutdownErr])), s7)))))"

text \<open>\<^verbatim>\<open>cmd/iot-ingestion/main.go\<close>: the exit code, absent while the service runs, and the state \<^verbatim>\<open>Run\<close> left, if it ran.\<close>

definition iot_ingestion_main ::
    "unicode \<Rightarrow> getenv \<Rightarrow> boot \<Rightarrow> run_env \<Rightarrow> pg \<Rightarrow> int option \<times> running option" where
  "iot_ingestion_main u g b env p =
     (case Load u g of
        Inl _ \<Rightarrow> (Some 1, None)
      | Inr c \<Rightarrow>
          (case App_New u b c [] of
             (Inl _, _) \<Rightarrow> (Some 1, None)
           | (Inr a, _) \<Rightarrow>
               (case App_Run env a \<lparr>rn_registry = app_registry a, rn_pg = p, rn_consumer = app_consumer a, rn_trace = []\<rparr> of
                  (None, s) \<Rightarrow> (None, Some s)
                | (Some (Some _), s) \<Rightarrow> (Some 1, Some s)
                | (Some None, s) \<Rightarrow> (Some 0, Some s))))"

section \<open>The life of the service\<close>

definition starts :: "bool \<Rightarrow> lifecycle list" where
  "starts m = Started HealthServer # (if m then [Started MetricsServer] else []) @ [StartedMonitor, Started GrpcServer]"

definition readies :: "lifecycle list" where
  "readies = [StartedRefresher, Started KafkaConsumer, HealthReady True, GrpcReady True]"

definition stops :: "bool \<Rightarrow> lifecycle list" where
  "stops m = [HealthReady False, GrpcReady False, AwaitedConsumer, ClosedConsumer, StoppedGrpc, ShutHealth] @
     (if m then [ShutMetrics] else []) @ [StoppedTracing, ClosedRedis, ClosedProducer, ClosedPostgres]"

lemma failure_of_Nil [simp]: "failure_of pre r = [] \<longleftrightarrow> r = None"
  by (simp add: failure_of_def split: option.splits)

lemma shutdown_spec:
  assumes "shutdown env a s = (r, s')"
  shows "rn_registry s' = rn_registry s" "rn_consumer s' = Close (rn_consumer s)"
    "rn_trace s' = rn_trace s @ stops (app_metricsHTTP a)"
    "r = None \<longleftrightarrow> re_await env = None \<and> re_close env = None \<and> re_health env = None \<and>
       (app_metricsHTTP a \<longrightarrow> re_metrics env = None) \<and> re_tracing env = None \<and> re_redis env = None"
  using assms by (auto simp: shutdown_def log_event_def stops_def Let_def)

text \<open>\<^verbatim>\<open>Run\<close> ends before anything is ready, keeps running, or was ready and has shut down.\<close>

lemma App_Run_cases:
  assumes "App_Run env a s0 = (res, s)" "rn_trace s0 = []"
  obtains
    (refused) e where "res = Some (Some e)" "rn_trace s \<in> {[], starts (app_metricsHTTP a)}"
  | (ready) n r p where "ensureMigrationsCurrent (app_config a) (re_embedded env) (re_versions env) = Inr ()"
      "Bootstrap LoadGrids (rn_registry s0, rn_pg s0) = (Inr n, (r, p))"
      "rn_registry s = fst (Start LoadGrids (re_ticks env) (r, p))"
      "rn_trace s = starts (app_metricsHTTP a) @ readies @ (if res = None then [] else stops (app_metricsHTTP a))"
      "rn_consumer s = (if res = None then id else Close) (fold on_event (re_events env) (rn_consumer s0))"
      "res = Some None \<longrightarrow> re_ctxDone env \<and> re_await env = None \<and> re_close env = None \<and> re_health env = None \<and>
         (app_metricsHTTP a \<longrightarrow> re_metrics env = None) \<and> re_tracing env = None \<and> re_redis env = None"
proof (cases "ensureMigrationsCurrent (app_config a) (re_embedded env) (re_versions env)")
  case (Inl e)
  with assms show thesis by (intro refused) (auto simp: App_Run_def)
next
  case m: (Inr u)
  obtain bres r p where b: "Bootstrap LoadGrids (rn_registry s0, rn_pg s0) = (bres, (r, p))" by (metis surj_pair)
  show thesis
  proof (cases bres)
    case (Inl e)
    with assms m b show thesis
      by (intro refused [of "Errorf_w ''grid registry bootstrap: '' e"])
         (auto simp: App_Run_def log_event_def starts_def Let_def split: if_splits)
  next
    case (Inr n)
    obtain r' p' where st: "Start LoadGrids (re_ticks env) (r, p) = (r', p')" by (metis surj_pair)
    define sel where "sel = select_end (re_ctxDone env) (re_preferDone env)
      (List.map_filter report (filter (\<lambda>x. fst x \<noteq> MetricsServer \<or> app_metricsHTTP a) (re_returns env)))"
    have ctx: "re_ctxDone env" if "sel = Some None"
      using that unfolding sel_def by (auto simp: select_end_def split: list.splits if_splits)
    define s6 where "s6 = s0\<lparr>rn_registry := r', rn_pg := p', rn_consumer := fold on_event (re_events env) (rn_consumer s0),
      rn_trace := starts (app_metricsHTTP a) @ readies\<rparr>"
    have run: "App_Run env a s0 = (case sel of None \<Rightarrow> (None, s6)
        | Some runErr \<Rightarrow> (case shutdown env a s6 of (shutdownErr, s7) \<Rightarrow>
            (Some (errors_Join (List.map_filter (\<lambda>e. e) [runErr, shutdownErr])), s7)))"
    proof -
      obtain rg pg cn where s0: "s0 = \<lparr>rn_registry = rg, rn_pg = pg, rn_consumer = cn, rn_trace = []\<rparr>"
        using assms(2) by (cases s0) simp
      have b': "Bootstrap LoadGrids (rg, pg) = (Inr n, (r, p))" using b Inr by (simp add: s0)
      show ?thesis
        unfolding App_Run_def m sel_def s6_def
        by (simp add: s0 b' st log_event_def Let_def starts_def readies_def cong: option.case_cong)
    qed
    obtain serr s7 where sh: "shutdown env a s6 = (serr, s7)" by (metis surj_pair)
    have none: "errors_Join (List.map_filter (\<lambda>e. e) [x, serr]) = None \<longleftrightarrow> x = None \<and> serr = None" for x
      by (cases x; cases serr) (simp_all add: map_filter_simps)
    show thesis
    proof (cases sel)
      case None
      with run assms(1) m b Inr st show thesis by (intro ready [of n r p]) (simp_all add: s6_def)
    next
      case (Some runErr)
      then have res: "res = Some (errors_Join (List.map_filter (\<lambda>e. e) [runErr, serr]))" "s = s7"
        using run assms(1) sh by simp_all
      with m b Inr st shutdown_spec [OF sh] ctx Some none show thesis
        by (intro ready [of n r p]) (simp_all add: s6_def)
    qed
  qed
qed

text \<open>\<open>y\<close> happens only after \<open>x\<close> has.\<close>

fun precedes :: "lifecycle \<Rightarrow> lifecycle \<Rightarrow> lifecycle list \<Rightarrow> bool" where
  "precedes x y [] \<longleftrightarrow> True"
| "precedes x y (z # zs) \<longleftrightarrow> z = x \<or> z \<noteq> y \<and> precedes x y zs"

text \<open>The order of an orderly stop: traffic is refused first, the consumer is closed before what its handlers write to.\<close>

definition stopped_orderly :: "lifecycle list \<Rightarrow> bool" where
  "stopped_orderly tr \<longleftrightarrow>
     list_all (\<lambda>x. count_list tr x = 1)
       [HealthReady True, HealthReady False, GrpcReady True, GrpcReady False, ClosedConsumer, ClosedRedis,
        ClosedProducer, ClosedPostgres] \<and>
     precedes (HealthReady True) (HealthReady False) tr \<and> precedes (GrpcReady True) (GrpcReady False) tr \<and>
     precedes (HealthReady False) ClosedConsumer tr \<and> precedes (GrpcReady False) ClosedConsumer tr \<and>
     list_all (\<lambda>x. precedes ClosedConsumer x tr) [StoppedGrpc, ClosedRedis, ClosedProducer, ClosedPostgres]"

lemma orderly: "stopped_orderly (starts m @ readies @ stops m)"
  by (cases m) (simp_all add: stopped_orderly_def starts_def readies_def stops_def)

lemma never_ready:
  "tr \<in> {[], starts m} \<Longrightarrow> HealthReady True \<notin> set tr \<and> GrpcReady True \<notin> set tr \<and> Started KafkaConsumer \<notin> set tr"
  by (auto simp: starts_def)

lemma never_ready_before:
  "Started KafkaConsumer \<notin> set tr \<Longrightarrow> y \<notin> set tr \<Longrightarrow> precedes x y tr"
  by (induction tr) auto

lemma ready_after_consumer:
  "x \<in> {HealthReady True, GrpcReady True} \<Longrightarrow> precedes (Started KafkaConsumer) x (starts m @ readies @ zs)"
  by (cases m) (auto simp: starts_def readies_def)

lemma main_runs:
  assumes "iot_ingestion_main u g b env p = (code, Some s)"
  obtains c a t res where "Load u g = Inr c" "App_New u b c [] = (Inr a, t)"
    "App_Run env a \<lparr>rn_registry = app_registry a, rn_pg = p, rn_consumer = app_consumer a, rn_trace = []\<rparr> = (res, s)"
    "code = (case res of None \<Rightarrow> None | Some None \<Rightarrow> Some 0 | Some (Some e) \<Rightarrow> Some 1)"
proof (cases "Load u g")
  case (Inl e)
  with assms show thesis by (simp add: iot_ingestion_main_def)
next
  case c: (Inr c)
  obtain ar t where n: "App_New u b c [] = (ar, t)" by force
  show thesis
  proof (cases ar)
    case (Inl e)
    with assms c n show thesis by (simp add: iot_ingestion_main_def)
  next
    case (Inr a)
    obtain res s' where r: "App_Run env a
        \<lparr>rn_registry = app_registry a, rn_pg = p, rn_consumer = app_consumer a, rn_trace = []\<rparr> = (res, s')" by force
    with assms c n Inr show thesis
      by (intro that [of c a t res]) (auto simp: iot_ingestion_main_def split: option.splits)
  qed
qed

text \<open>The registry from the bootstrap through the refreshes of the run.\<close>

lemma running_registry:
  assumes "tables_ok (pg_tables p)" "\<forall>t \<in> set ticks. \<forall>q. tables_ok (pg_tables q) \<longrightarrow> tables_ok (pg_tables (t q))"
    and "Bootstrap LoadGrids (NewRegistry, p) = (Inr n, (r, p1))"
  shows "Ready (fst (Start LoadGrids ticks (r, p1))) \<and>
    (\<exists>q. tables_ok (pg_tables q) \<and> Registry_Lookup (fst (Start LoadGrids ticks (r, p1))) = provisioned_grids q \<and>
      (\<exists>k. provisioned_grids q k \<noteq> None))"
proof -
  obtain added removed where b: "refreshOnce LoadGrids (NewRegistry, p) = (Refreshed n added removed, (r, p1))"
    using assms(3) by (auto simp: Bootstrap_refresh split: prod.splits refresh_note.splits)
  have r: "registry_ok r"
    by (rule refreshOnce_registry_ok [OF b]) (simp add: registry_ok_def NewRegistry_def)
  have ready: "Ready r" using b by (cases rule: refreshOnce_cases) (auto simp: Ready_def)
  have p1: "tables_ok (pg_tables p1)"
    using b assms(1) by (cases rule: refreshOnce_cases) (auto dest: LoadGrids_tables)
  obtain r' p' where st: "Start LoadGrids ticks (r, p1) = (r', p')" by force
  from grids.Start_snapshot [OF r ready p1 assms(2) st] grids.refreshed_exact [OF assms(1) b] assms(1) st
  show ?thesis by auto
qed


definition sample_pool :: pgxpool_config where
  "sample_pool = \<lparr>px_MaxConns = 4, px_MinConns = 0, px_MaxConnLifetime = ns_hour, px_ConnectTimeout = 0, px_RuntimeParams = []\<rparr>"

definition sample_boot :: boot where
  "sample_boot =
     \<lparr>bt_exporter = (\<lambda>_ _. None), bt_resource = (\<lambda>_. None), bt_parseConfig = (\<lambda>_. Inr sample_pool), bt_newPool = (\<lambda>_. None), bt_pingPostgres = None,
      bt_pingRedis = (\<lambda>_. None), bt_eviction = Inr [(''maxmemory-policy'', ''noeviction'')],
      bt_consumer = (\<lambda>_. None), bt_producer = (\<lambda>_. None)\<rparr>"

definition sample_run :: run_env where
  "sample_run =
     \<lparr>re_embedded = Inr embedded, re_versions = Inr [(0, True), (11, True), (5, True)], re_ticks = [],
      re_events = [Assigned [(''iot.heartbeats'', [0])]], re_returns = [(KafkaConsumer, None)], re_ctxDone = True,
      re_preferDone = False, re_await = None, re_close = None, re_health = None, re_metrics = None,
      re_tracing = None, re_redis = None\<rparr>"

lemma App_New_sample:
  assumes "kc_MeterTopic (ac_Kafka c) \<noteq> kc_HeartbeatTopic (ac_Kafka c)" "kc_SASLMech (ac_Kafka c) = []"
  shows "\<exists>a t. App_New u sample_boot c [] = (Inr a, t) \<and> app_config a = c"
proof -
  have e: "checkRedisEviction u (bt_eviction sample_boot) c = None"
    by (simp add: checkRedisEviction_def EvictionPolicy_def sample_boot_def LivenessAndLatestSafe_def)
  show ?thesis
    unfolding App_New_def Let_def e
    using assms
    by (simp add: sample_boot_def SetupTracing_def andThen_def cleanup_def opened_def NewWithPool_def liftE_def
        wrapErr_def checkE_def redis_New_def wire_router_def kafkaSecurityOpts_def newConsumer_def NewConsumer_def
        NewKafkaActuationProducer_def Let_def)
qed


end
