(* ===== verification/Rebuild.thy ===== *)
theory Rebuild
  imports World Samples
begin

text \<open>
  \<^verbatim>\<open>internal/rebuild/rebuild.go\<close> and \<^verbatim>\<open>internal/store/postgres/rebuild_reader.go\<close>: repopulating the Redis
  projection from the database in keyset pages.
\<close>

section \<open>Reading the database\<close>

record HouseRow =
  rw_HouseID :: string
  rw_GridID :: string
  rw_LastHeartbeatAt :: "int option"

definition house_row :: "houses_row \<Rightarrow> HouseRow" where
  "house_row h = \<lparr>rw_HouseID = h_house_id h, rw_GridID = h_grid_id h,
     rw_LastHeartbeatAt = Some (h_last_heartbeat_at h)\<rparr>"

definition housesPageSQL :: "string \<Rightarrow> int \<Rightarrow> int \<Rightarrow> tables \<Rightarrow> (sql_error + HouseRow list) \<times> tables" where
  "housesPageSQL after limit now T =
     (Inr (take (nat limit) (filter (\<lambda>h. after < rw_HouseID h)
        (sort_key rw_HouseID (map house_row (t_houses T))))), T)"

definition HousesPage :: "string \<Rightarrow> int \<Rightarrow> (pg, HouseRow list) act" where
  "HousesPage after limit = onSql (sqlErrorf ''postgres: houses page: '') (stmt (housesPageSQL after limit))"

text \<open>\<^verbatim>\<open>DISTINCT ON (house_id) ... ORDER BY house_id, time DESC, seq DESC\<close>: the newest row of each house.\<close>

definition row_before :: "meter_row \<Rightarrow> meter_row \<Rightarrow> bool" where
  "row_before r q \<longleftrightarrow> m_time r < m_time q \<or> m_time r = m_time q \<and> m_seq r < m_seq q"

fun newest_row :: "meter_row list \<Rightarrow> meter_row option" where
  "newest_row [] = None"
| "newest_row (r # rs) =
     (case newest_row rs of None \<Rightarrow> Some r | Some q \<Rightarrow> if row_before r q then Some q else Some r)"

definition newest_rows :: "int \<Rightarrow> tables \<Rightarrow> meter_row list" where
  "newest_rows since T =
     (let rows = filter (\<lambda>r. since \<le> m_time r) (t_meter_readings T) in
      List.map_filter (\<lambda>h. newest_row (filter (\<lambda>r. m_house_id r = h) rows)) (sort (remdups (map m_house_id rows))))"

definition latestReadingsPageSQL ::
    "int \<Rightarrow> string \<Rightarrow> int \<Rightarrow> int \<Rightarrow> tables \<Rightarrow> (sql_error + meter_row list) \<times> tables" where
  "latestReadingsPageSQL since after limit now T =
     (Inr (take (nat limit) (filter (\<lambda>r. after < m_house_id r) (newest_rows since T))), T)"

definition latestStorageSQL ::
    "int \<Rightarrow> string \<Rightarrow> int \<Rightarrow> tables \<Rightarrow> (sql_error + storage_row list) \<times> tables" where
  "latestStorageSQL time meter now T =
     (Inr (sort_key s_asset_id
        (filter (\<lambda>r. s_time r = time \<and> s_meter_id r = meter) (t_storage_readings T))), T)"

definition latest_of_row :: "meter_row \<Rightarrow> MeterReading" where
  "latest_of_row r =
     \<lparr>mr_SchemaVersion = m_schema_version r, mr_MeterID = m_meter_id r, mr_HouseID = m_house_id r,
      mr_GridID = m_grid_id r, mr_DeviceClass = m_device_class r, mr_EventTime = m_time r,
      mr_Seq = m_seq r, mr_SolarKw = m_solar_kw r, mr_ConsumptionKw = m_consumption_kw r,
      mr_NetKw = m_net_kw r, mr_StorageAssets = [], mr_WeatherIrradianceWm2 = None, mr_CloudCoverPct = None\<rparr>"

fun loadStorage :: "MeterReading list \<Rightarrow> (pg, MeterReading list) act" where
  "loadStorage [] = ret []"
| "loadStorage (r # rs) =
     andThen (onSql (sqlErrorf ''postgres: latest storage query: '')
                (stmt (latestStorageSQL (mr_EventTime r) (mr_MeterID r)))) (\<lambda>assets.
     andThen (loadStorage rs) (\<lambda>out.
     ret (r\<lparr>mr_StorageAssets := map storage_of_row assets\<rparr> # out)))"

definition LatestReadingsPage :: "int \<Rightarrow> string \<Rightarrow> int \<Rightarrow> (pg, MeterReading list) act" where
  "LatestReadingsPage since after limit =
     andThen (onSql (sqlErrorf ''postgres: latest readings page: '')
                (stmt (latestReadingsPageSQL since after limit))) (\<lambda>rows.
     loadStorage (map latest_of_row rows))"

text \<open>Pages only read.\<close>

lemma HousesPage_reads:
  "HousesPage after limit p = (r, q) \<Longrightarrow> pg_tables q = pg_tables p"
  by (auto simp: HousesPage_def onSql_def housesPageSQL_def split: prod.splits dest!: stmt_tables)

lemma keeps_loadStorage: "keeps id (loadStorage rs)"
proof (induction rs)
  case (Cons r rs)
  have "keeps id (onSql g (stmt (latestStorageSQL t m)))" for g t m
    by (rule keeping) (simp add: latestStorageSQL_def)
  with Cons show ?case unfolding loadStorage.simps by (intro keeps_andThen keeps_ret)
qed (simp only: loadStorage.simps keeps_ret)

lemma LatestReadingsPage_reads:
  assumes "LatestReadingsPage since after limit p = (r, q)"
  shows "pg_tables q = pg_tables p"
proof -
  have "keeps id (onSql g (stmt (latestReadingsPageSQL since after limit)))" for g
    by (rule keeping) (simp add: latestReadingsPageSQL_def)
  then have "keeps id (LatestReadingsPage since after limit)"
    unfolding LatestReadingsPage_def by (intro keeps_andThen keeps_loadStorage)
  from keepsD [OF this assms] show ?thesis by simp
qed

lemma HousesPage_Inr:
  "HousesPage after limit p = (Inr hs, q) \<Longrightarrow>
     hs = take (nat limit) (filter (\<lambda>h. after < rw_HouseID h) (sort_key rw_HouseID (map house_row (t_houses (pg_tables p)))))"
  by (auto simp: HousesPage_def onSql_Inr_iff housesPageSQL_def dest!: stmt_InrD)

lemma loadStorage_Inr:
  "loadStorage rs p = (Inr out, q) \<Longrightarrow> list_all2 (\<lambda>r m. \<exists>as. m = r\<lparr>mr_StorageAssets := as\<rparr>) rs out"
proof (induction rs arbitrary: p out)
  case (Cons r rs)
  then show ?case by (auto simp: andThen_Inr_iff)
qed simp

lemma LatestReadingsPage_Inr:
  assumes "LatestReadingsPage since after limit p = (Inr out, q)"
  shows "list_all2 (\<lambda>r m. \<exists>as. m = (latest_of_row r)\<lparr>mr_StorageAssets := as\<rparr>)
    (take (nat limit) (filter (\<lambda>r. after < m_house_id r) (newest_rows since (pg_tables p)))) out"
proof -
  obtain rows p1 where r: "stmt (latestReadingsPageSQL since after limit) p = (Inr rows, p1)"
    and l: "loadStorage (map latest_of_row rows) p1 = (Inr out, q)"
    using assms by (auto simp: LatestReadingsPage_def andThen_Inr_iff onSql_Inr_iff)
  have "rows = take (nat limit) (filter (\<lambda>r. after < m_house_id r) (newest_rows since (pg_tables p)))"
    using stmt_InrD [OF r] by (auto simp: latestReadingsPageSQL_def)
  with loadStorage_Inr [OF l] show ?thesis by (simp add: list_all2_map1)
qed

section \<open>The rebuild\<close>

record Options =
  opt_Lookback :: int
  opt_PageSize :: int
  opt_DryRun :: bool

record Result =
  re_Houses :: nat
  re_Memberships :: nat
  re_StatusRestored :: nat
  re_Latest :: nat
  re_LatestApplied :: nat

text \<open>The loop bodies over one page; an error returns the counts so far.\<close>

fun restoreHouses :: "Options \<Rightarrow> int \<Rightarrow> HouseRow list \<Rightarrow> Result \<Rightarrow> redis \<Rightarrow> (go_error option \<times> Result) \<times> redis" where
  "restoreHouses opts now [] res c = ((None, res), c)"
| "restoreHouses opts now (h # hs) res0 c =
     (let res1 = res0\<lparr>re_Houses := re_Houses res0 + 1\<rparr> in
      if opt_DryRun opts then restoreHouses opts now hs res1 c
      else case AddHouseToGrid (rw_GridID h) (rw_HouseID h) c of
        (Inl e, c1) \<Rightarrow> ((Some e, res1), c1)
      | (Inr _, c1) \<Rightarrow>
          (let res2 = res1\<lparr>re_Memberships := re_Memberships res1 + 1\<rparr> in
           case rw_LastHeartbeatAt h of
             None \<Rightarrow> restoreHouses opts now hs res2 c1
           | Some t \<Rightarrow>
               (case RestoreHeartbeat (rw_GridID h) (rw_HouseID h)
                       \<lparr>hs_Status = ''online'', hs_LastHeartbeatAt = t\<rparr> now c1 of
                  (Inl e, c2) \<Rightarrow> ((Some e, res2), c2)
                | (Inr ok, c2) \<Rightarrow>
                    restoreHouses opts now hs
                      (if ok then res2\<lparr>re_StatusRestored := re_StatusRestored res2 + 1\<rparr> else res2) c2)))"

fun restoreLatest :: "Options \<Rightarrow> MeterReading list \<Rightarrow> Result \<Rightarrow> redis \<Rightarrow> (go_error option \<times> Result) \<times> redis" where
  "restoreLatest opts [] res c = ((None, res), c)"
| "restoreLatest opts (r # rs) res0 c =
     (let res1 = res0\<lparr>re_Latest := re_Latest res0 + 1\<rparr> in
      if opt_DryRun opts then restoreLatest opts rs res1 c
      else case SetLatestIfNewer (ProjectionOf r) c of
        (Inl e, c1) \<Rightarrow> ((Some (Errorf_w (''rebuild latest for '' @ mr_MeterID r @ '': '') e), res1), c1)
      | (Inr applied, c1) \<Rightarrow>
          restoreLatest opts rs
            (if applied then res1\<lparr>re_LatestApplied := re_LatestApplied res1 + 1\<rparr> else res1) c1)"

text \<open>
  The page loops.  They end because each page starts after the last row of the one before, and reading does
  not change the tables.
\<close>

function houseLoop :: "Options \<Rightarrow> int \<Rightarrow> string \<Rightarrow> Result \<Rightarrow> world \<Rightarrow> (go_error option \<times> Result) \<times> world" where
  "houseLoop opts now after res w =
     (case HousesPage after (opt_PageSize opts) (w_pg w) of
        (Inl e, p) \<Rightarrow> ((Some e, res), w\<lparr>w_pg := p\<rparr>)
      | (Inr houses, p) \<Rightarrow>
          if houses = [] then ((None, res), w\<lparr>w_pg := p\<rparr>)
          else (case restoreHouses opts now houses res (w_redis w) of
            ((Some e, res'), c) \<Rightarrow> ((Some e, res'), \<lparr>w_pg = p, w_redis = c\<rparr>)
          | ((None, res'), c) \<Rightarrow>
              houseLoop opts now (rw_HouseID (last houses)) res' \<lparr>w_pg = p, w_redis = c\<rparr>))"
  by pat_completeness auto

lemma cursor_decreases:
  fixes a b :: "'k::linorder"
  assumes "a < b" "x \<in> set xs" "key x = b"
  shows "length (filter (\<lambda>y. b < key y) xs) < length (filter (\<lambda>y. a < key y) xs)"
proof -
  have "filter (\<lambda>y. b < key y) xs = filter (\<lambda>y. b < key y) (filter (\<lambda>y. a < key y) xs)"
    using assms(1) by (auto simp: filter_filter intro!: filter_cong)
  also have "length \<dots> < length (filter (\<lambda>y. a < key y) xs)"
    using assms by (intro length_filter_less [of x]) auto
  finally show ?thesis .
qed

lemma HousesPage_last:
  assumes "HousesPage after limit p = (Inr hs, q)" "hs \<noteq> []"
  shows "after < rw_HouseID (last hs) \<and> last hs \<in> house_row ` set (t_houses (pg_tables p))"
proof -
  have "last hs \<in> set hs" using assms(2) by simp
  then have "last hs \<in> set (filter (\<lambda>h. after < rw_HouseID h) (sort_key rw_HouseID (map house_row (t_houses (pg_tables p)))))"
    unfolding HousesPage_Inr [OF assms(1)] by (rule in_set_takeD)
  then show ?thesis by auto
qed

definition houses_after :: "string \<Rightarrow> tables \<Rightarrow> nat" where
  "houses_after after T = length (filter (\<lambda>h. after < rw_HouseID h) (map house_row (t_houses T)))"

lemma HousesPage_progress:
  assumes "HousesPage after limit p = (Inr hs, q)" "hs \<noteq> []"
  shows "houses_after (rw_HouseID (last hs)) (pg_tables q) < houses_after after (pg_tables p)"
  unfolding houses_after_def HousesPage_reads [OF assms(1)]
  by (rule cursor_decreases [of _ _ "last hs"]) (use HousesPage_last [OF assms] in simp_all)

termination houseLoop
  by (relation "measure (\<lambda>(opts, now, after, res, w). houses_after after (pg_tables (w_pg w)))")
     (auto intro: HousesPage_progress [OF sym])

declare houseLoop.simps [simp del]

function latestLoop :: "Options \<Rightarrow> int \<Rightarrow> string \<Rightarrow> Result \<Rightarrow> world \<Rightarrow> (go_error option \<times> Result) \<times> world" where
  "latestLoop opts since after res w =
     (case LatestReadingsPage since after (opt_PageSize opts) (w_pg w) of
        (Inl e, p) \<Rightarrow> ((Some e, res), w\<lparr>w_pg := p\<rparr>)
      | (Inr readings, p) \<Rightarrow>
          if readings = [] then ((None, res), w\<lparr>w_pg := p\<rparr>)
          else (case restoreLatest opts readings res (w_redis w) of
            ((Some e, res'), c) \<Rightarrow> ((Some e, res'), \<lparr>w_pg = p, w_redis = c\<rparr>)
          | ((None, res'), c) \<Rightarrow>
              latestLoop opts since (mr_HouseID (last readings)) res' \<lparr>w_pg = p, w_redis = c\<rparr>))"
  by pat_completeness auto

definition latest_after :: "int \<Rightarrow> string \<Rightarrow> tables \<Rightarrow> nat" where
  "latest_after since after T = length (filter (\<lambda>r. after < m_house_id r) (newest_rows since T))"

lemma list_all2_last:
  "list_all2 P xs ys \<Longrightarrow> ys \<noteq> [] \<Longrightarrow> xs \<noteq> [] \<and> P (last xs) (last ys)"
  by (induction rule: list_all2_induct) auto

lemma LatestReadingsPage_last:
  assumes "LatestReadingsPage since after limit p = (Inr rs, q)" "rs \<noteq> []"
  shows "\<exists>r \<in> set (newest_rows since (pg_tables p)). after < m_house_id r \<and> mr_HouseID (last rs) = m_house_id r"
proof -
  let ?page = "take (nat limit) (filter (\<lambda>r. after < m_house_id r) (newest_rows since (pg_tables p)))"
  have l: "?page \<noteq> []" "mr_HouseID (last rs) = m_house_id (last ?page)"
    using list_all2_last [OF LatestReadingsPage_Inr [OF assms(1)] assms(2)] by (auto simp: latest_of_row_def)
  then have "last ?page \<in> set (filter (\<lambda>r. after < m_house_id r) (newest_rows since (pg_tables p)))"
    by (metis in_set_takeD last_in_set)
  with l(2) show ?thesis by auto
qed

lemma LatestReadingsPage_progress:
  assumes "LatestReadingsPage since after limit p = (Inr rs, q)" "rs \<noteq> []"
  shows "latest_after since (mr_HouseID (last rs)) (pg_tables q) < latest_after since after (pg_tables p)"
  using LatestReadingsPage_last [OF assms] LatestReadingsPage_reads [OF assms(1)]
  by (auto simp: latest_after_def intro!: cursor_decreases)

termination latestLoop
  by (relation "measure (\<lambda>(opts, since, after, res, w). latest_after since after (pg_tables (w_pg w)))")
     (auto intro: LatestReadingsPage_progress [OF sym])

declare latestLoop.simps [simp del]

definition Options_withDefaults :: "Options \<Rightarrow> Options" where
  "Options_withDefaults o0 =
     (let o1 = (if opt_Lookback o0 \<le> 0 then o0\<lparr>opt_Lookback := ns_hour\<rparr> else o0)
      in if opt_PageSize o1 \<le> 0 then o1\<lparr>opt_PageSize := 500\<rparr> else o1)"

definition Rebuild_Run :: "Options \<Rightarrow> int \<Rightarrow> world \<Rightarrow> (go_error option \<times> Result) \<times> world" where
  "Rebuild_Run opts0 now w =
     (let opts = Options_withDefaults opts0;
          zero = \<lparr>re_Houses = 0, re_Memberships = 0, re_StatusRestored = 0, re_Latest = 0, re_LatestApplied = 0\<rparr> in
      case houseLoop opts now '''' zero w of
        ((Some e, res), w1) \<Rightarrow> ((Some e, res), w1)
      | ((None, res), w1) \<Rightarrow> latestLoop opts (now - opt_Lookback opts) '''' res w1)"


section \<open>What a rebuild leaves behind\<close>

text \<open>Houses stay members of their grids.\<close>

definition joins :: "redis \<Rightarrow> redis \<Rightarrow> bool" where
  "joins r r' \<longleftrightarrow> redis_ok r' \<and> rd_clock r' = rd_clock r \<and>
     (\<forall>g. members (rd_clock r) (rd_db r) g \<subseteq> members (rd_clock r) (rd_db r') g)"

lemma joins_refl: "redis_ok r \<Longrightarrow> joins r r"
  by (simp add: joins_def)

lemma joins_trans: "joins r s \<Longrightarrow> joins s t \<Longrightarrow> joins r t"
  by (auto simp: joins_def)

lemma members_cong: "db' (GridHousesKey g) = db (GridHousesKey g) \<Longrightarrow> members now db' g = members now db g"
  by (simp add: members_def live_def)

lemma members_insert_joins:
  assumes "keyspace_ok db'" "rd_db r' = db'" "rd_clock r' = rd_clock r"
    and "members (rd_clock r) db' g = insert h (members (rd_clock r) (rd_db r) g)"
    and "\<And>g'. g' \<noteq> g \<Longrightarrow> db' (GridHousesKey g') = rd_db r (GridHousesKey g')"
  shows "joins r r' \<and> h \<in> members (rd_clock r) (rd_db r') g"
proof -
  have "members (rd_clock r) (rd_db r) g' \<subseteq> members (rd_clock r) db' g'" for g'
    by (cases "g' = g") (use assms(4,5) members_cong [of db' g' "rd_db r"] in auto)
  with assms show ?thesis by (simp add: joins_def)
qed

lemma AddHouseToGrid_joins:
  assumes "redis_ok r" "AddHouseToGrid g h r = (res, r')"
  shows "joins r r' \<and> (\<not> isl res \<longrightarrow> h \<in> members (rd_clock r) (rd_db r') g)"
proof -
  obtain xs where s: "redis_SADD (GridHousesKey g) h (rd_clock r) (rd_db r) =
      (Inr (), (rd_db r)(GridHousesKey g \<mapsto> \<lparr>re_val = RSet xs, re_expire = None\<rparr>))"
    and xs: "set xs = insert h (members (rd_clock r) (rd_db r) g)" "distinct xs"
    using redis_SADD_ok [OF assms(1)] by blast
  let ?db = "(rd_db r)(GridHousesKey g \<mapsto> \<lparr>re_val = RSet xs, re_expire = None\<rparr>)"
  have k: "keyspace_ok ?db"
    using assms(1) by (rule keyspace_ok_update) (auto simp: entry_ok_def xs)
  have m: "members (rd_clock r) ?db g = insert h (members (rd_clock r) (rd_db r) g)"
    using xs by (simp add: members_def live_def)
  have new: "joins r r' \<and> h \<in> members (rd_clock r) (rd_db r') g" if "rd_db r' = ?db" "rd_clock r' = rd_clock r"
    by (rule members_insert_joins [OF k that m]) simp
  from assms(2) show ?thesis
    unfolding AddHouseToGrid_def
  proof (cases rule: onCmd_cases)
    case run
    with s new show ?thesis by simp
  next
    case failed
    with assms(1) show ?thesis by (simp add: joins_def)
  next
    case lost
    with s new show ?thesis by simp
  qed
qed

lemma updateHeartbeatWithTTL_joins:
  assumes "redis_ok r" "ns_second \<le> ttl" "updateHeartbeatWithTTL g h st ttl r = (res, r')"
  shows "joins r r'"
proof -
  have secs: "0 < ttl_seconds ttl" using assms(2) by (simp add: ttl_seconds_def pos_imp_zdiv_pos_iff)
  obtain db' where run: "update_heartbeat (HouseStatusKey h) (GridHousesKey g) (ttl_seconds ttl)
      (hs_Status st) (Format_RFC3339 (hs_LastHeartbeatAt st)) h (rd_clock r) (rd_db r) = (Inr 1, db')"
    and db': "keyspace_ok db'" "\<And>t. members t db' g = insert h (members (rd_clock r) (rd_db r) g)"
      "\<And>k. k \<noteq> HouseStatusKey h \<Longrightarrow> k \<noteq> GridHousesKey g \<Longrightarrow> db' k = rd_db r k"
    using update_heartbeat_ok [OF assms(1) secs, of h g "hs_Status st"
        "Format_RFC3339 (hs_LastHeartbeatAt st)" "rd_clock r"] by metis
  obtain y where "onCmd (''redis: update_heartbeat for house '' @ h @ '': '')
      (update_heartbeat (HouseStatusKey h) (GridHousesKey g) (ttl_seconds ttl)
         (hs_Status st) (Format_RFC3339 (hs_LastHeartbeatAt st)) h) r = (y, r')"
    using assms(3) by (auto simp: updateHeartbeatWithTTL_def andThen_def split: prod.splits sum.splits)
  then have "rd_clock r' = rd_clock r \<and> (rd_db r' = rd_db r \<or> rd_db r' = db')"
    by (cases rule: onCmd_cases) (auto simp: run)
  moreover have "joins r r'" if "rd_db r' = db'" "rd_clock r' = rd_clock r"
    using members_insert_joins [OF db'(1) that db'(2)] db'(3) by simp
  ultimately show ?thesis using assms(1) by (auto simp: joins_def)
qed

lemma RestoreHeartbeat_joins:
  assumes "redis_ok r" "RestoreHeartbeat g h st now r = (res, r')"
  shows "joins r r'"
proof (cases "HeartbeatTTL - (now - hs_LastHeartbeatAt st) < ns_second")
  case True
  with assms show ?thesis by (simp add: RestoreHeartbeat_def Let_def joins_refl)
next
  case False
  with assms(2) obtain y where
    "updateHeartbeatWithTTL g h st (HeartbeatTTL - (now - hs_LastHeartbeatAt st)) r = (y, r')"
    by (auto simp: RestoreHeartbeat_def Let_def andThen_def split: prod.splits sum.splits)
  from updateHeartbeatWithTTL_joins [OF assms(1) _ this] False show ?thesis by simp
qed

lemma set_latest_other:
  "k \<noteq> key \<Longrightarrow> snd (set_latest_if_newer key a b v now db) k = db k"
  by (auto simp: set_latest_if_newer_def Let_def
      split: prod.splits sum.splits option.splits latest_text.splits)

lemma SetLatestIfNewer_joins:
  assumes "redis_ok r" "exact_projection p" "SetLatestIfNewer p r = (res, r')"
  shows "joins r r'"
proof -
  have "rd_clock r' = rd_clock r \<and> (\<forall>g. rd_db r' (GridHousesKey g) = rd_db r (GridHousesKey g))"
    using assms
  proof (cases rule: SetLatestIfNewer_cases)
    case (run x)
    have "GridHousesKey g \<noteq> latest_key p" for g by (simp add: latest_key_def)
    from set_latest_other [OF this] run show ?thesis by (metis snd_conv)
  qed simp
  with assms latest.put_inv [OF assms] show ?thesis by (simp add: joins_def members_def live_def)
qed


lemma restoreHouses_effect:
  assumes "restoreHouses opts now hs res c = ((err, res'), c')"
  shows "(opt_DryRun opts \<longrightarrow> c' = c \<and> err = None) \<and>
    (redis_ok c \<longrightarrow> joins c c') \<and>
    (err = None \<longrightarrow> re_Houses res' = re_Houses res + length hs) \<and>
    (redis_ok c \<and> err = None \<and> \<not> opt_DryRun opts \<longrightarrow>
       (\<forall>h \<in> set hs. rw_HouseID h \<in> members (rd_clock c) (rd_db c') (rw_GridID h)))"
  using assms
proof (induction hs arbitrary: res c)
  case Nil
  then show ?case by (simp add: joins_refl)
next
  case (Cons h hs)
  show ?case
  proof (cases "opt_DryRun opts")
    case True
    with Cons.prems have "restoreHouses opts now hs (res\<lparr>re_Houses := re_Houses res + 1\<rparr>) c = ((err, res'), c')"
      by simp
    from Cons.IH [OF this] True show ?thesis by (auto simp: joins_refl)
  next
    case dry: False
    obtain x c1 where a: "AddHouseToGrid (rw_GridID h) (rw_HouseID h) c = (x, c1)" by force
    note j1 = AddHouseToGrid_joins [OF _ a]
    have rest: ?thesis if r: "restoreHouses opts now hs res2 c2 = ((err, res'), c')"
      and n: "re_Houses res2 = re_Houses res + 1" and c2: "redis_ok c \<Longrightarrow> joins c1 c2" and ok: "\<not> isl x" for res2 c2
    proof -
      note ih = Cons.IH [OF r]
      have "joins c1 c'" if "redis_ok c"
        using ih c2 [OF that] joins_trans by (auto simp: joins_def)
      moreover have "joins c c'" if "redis_ok c"
        using calculation [OF that] j1 [OF that] joins_trans by blast
      moreover have "rw_HouseID h \<in> members (rd_clock c) (rd_db c') (rw_GridID h)" if "redis_ok c"
        using j1 [OF that] ok calculation(1) [OF that] by (auto simp: joins_def)
      moreover have "\<forall>k \<in> set hs. rw_HouseID k \<in> members (rd_clock c) (rd_db c') (rw_GridID k)"
        if "redis_ok c" "err = None"
        using ih c2 [OF that(1)] j1 [OF that(1)] dry that(2) by (auto simp: joins_def)
      ultimately show ?thesis using ih n dry by auto
    qed
    show ?thesis
    proof (cases x)
      case (Inl e)
      with Cons.prems dry a j1 show ?thesis by (auto simp: Let_def)
    next
      case (Inr u)
      show ?thesis
      proof (cases "rw_LastHeartbeatAt h")
        case None
        with Cons.prems dry a Inr have "restoreHouses opts now hs
            (res\<lparr>re_Houses := re_Houses res + 1, re_Memberships := re_Memberships res + 1\<rparr>) c1 = ((err, res'), c')"
          by (simp add: Let_def)
        then show ?thesis by (rule rest) (use j1 Inr in \<open>auto simp: joins_def\<close>)
      next
        case (Some t)
        obtain y c2 where b: "RestoreHeartbeat (rw_GridID h) (rw_HouseID h)
            \<lparr>hs_Status = ''online'', hs_LastHeartbeatAt = t\<rparr> now c1 = (y, c2)" by force
        have j2: "joins c1 c2" if "redis_ok c"
          using RestoreHeartbeat_joins [OF _ b] j1 [OF that] by (simp add: joins_def)
        show ?thesis
        proof (cases y)
          case e: (Inl e)
          with Cons.prems dry a Inr Some b have "err = Some e" "c' = c2" by (simp_all add: Let_def)
          with j2 j1 joins_trans dry show ?thesis by blast
        next
          case ok: (Inr ok)
          with Cons.prems dry a Inr Some b obtain res2 where "restoreHouses opts now hs res2 c2 = ((err, res'), c')"
            "re_Houses res2 = re_Houses res + 1"
            by (auto simp: Let_def split: if_splits)
          then show ?thesis by (rule rest) (use j2 Inr in auto)
        qed
      qed
    qed
  qed
qed

lemma exact_latest_of_row:
  "exact_projection (ProjectionOf ((latest_of_row r)\<lparr>mr_StorageAssets := as\<rparr>)) \<longleftrightarrow>
     exact_projection (ProjectionOf (latest_of_row r))"
  "version_of (ProjectionOf ((latest_of_row r)\<lparr>mr_StorageAssets := as\<rparr>)) = version_of (ProjectionOf (latest_of_row r))"
  "latest_key (ProjectionOf ((latest_of_row r)\<lparr>mr_StorageAssets := as\<rparr>)) = MeterLatestKey (m_grid_id r) (m_house_id r)"
  by (simp_all add: exact_projection_def ProjectionOf_def version_of_def latest_key_def latest_of_row_def)

text \<open>A reading is reflected when the house's latest state is not older.\<close>

definition reflected :: "MeterReading \<Rightarrow> redis \<Rightarrow> bool" where
  "reflected r c \<longleftrightarrow>
     not_newer version_of (Some (ProjectionOf r)) (latest_at (latest_key (ProjectionOf r)) c)"

lemma restoreLatest_effect:
  assumes "restoreLatest opts rs res c = ((err, res'), c')"
    and "\<forall>r \<in> set rs. exact_projection (ProjectionOf r)"
  shows "(opt_DryRun opts \<longrightarrow> c' = c \<and> err = None) \<and>
    (redis_ok c \<longrightarrow> joins c c' \<and> (\<forall>k. not_newer version_of (latest_at k c) (latest_at k c'))) \<and>
    (redis_ok c \<and> err = None \<and> \<not> opt_DryRun opts \<longrightarrow> (\<forall>r \<in> set rs. reflected r c')) \<and>
    re_Houses res' = re_Houses res"
  using assms
proof (induction rs arbitrary: res c)
  case Nil
  then show ?case by (auto simp: joins_refl not_newer_refl)
next
  case (Cons r rs)
  show ?case
  proof (cases "opt_DryRun opts")
    case True
    with Cons.prems have "restoreLatest opts rs (res\<lparr>re_Latest := re_Latest res + 1\<rparr>) c = ((err, res'), c')" by simp
    from Cons.IH [OF this] True Cons.prems(2) show ?thesis by (auto simp: joins_refl not_newer_refl)
  next
    case dry: False
    obtain x c1 where a: "SetLatestIfNewer (ProjectionOf r) c = (x, c1)" by force
    have ex: "exact_projection (ProjectionOf r)" using Cons.prems(2) by simp
    have j1: "joins c c1" "not_newer version_of (latest_at k c) (latest_at k c1)" if "redis_ok c" for k
      using SetLatestIfNewer_joins [OF that ex a] latest.put_never_regresses [OF that ex a] by auto
    show ?thesis
    proof (cases x)
      case (Inl e)
      with Cons.prems dry a j1 show ?thesis by (auto simp: Let_def)
    next
      case (Inr applied)
      with Cons.prems dry a obtain res1 where r: "restoreLatest opts rs res1 c1 = ((err, res'), c')"
        "re_Houses res1 = re_Houses res"
        by (auto simp: Let_def split: if_splits)
      have exs: "\<forall>r \<in> set rs. exact_projection (ProjectionOf r)" using Cons.prems(2) by simp
      note ih = Cons.IH [OF r(1) exs]
      have one: "reflected r c1" if "redis_ok c"
        using latest.put_same [OF that ex a] Inr newest_at_least by (auto simp: reflected_def)
      have mono: "joins c1 c'" "not_newer version_of (latest_at k c1) (latest_at k c')" if "redis_ok c" for k
        using ih j1(1) [OF that] by (auto simp: joins_def)
      have "reflected r c'" if "redis_ok c"
        using one [OF that] mono(2) [OF that] unfolding reflected_def by (rule not_newer_trans)
      moreover have "joins c c'" "not_newer version_of (latest_at k c) (latest_at k c')" if "redis_ok c" for k
        using j1 [OF that] mono [OF that] joins_trans not_newer_trans by blast+
      moreover have "\<forall>q \<in> set rs. reflected q c'" if "redis_ok c" "err = None"
        using ih j1(1) [OF that(1)] dry that(2) by (auto simp: joins_def)
      ultimately show ?thesis using ih r(2) dry by auto
    qed
  qed
qed


section \<open>Every page is read\<close>

abbreviation house_rows :: "tables \<Rightarrow> HouseRow list" where
  "house_rows T \<equiv> sort_key rw_HouseID (map house_row (t_houses T))"

interpretation house_pages: keyset_pages
  "\<lambda>(T, n) after. take (nat n) (filter (\<lambda>h. after < rw_HouseID h) (house_rows T))"
  "\<lambda>(T, n). house_rows T" rw_HouseID "\<lambda>(T, n). tables_ok T \<and> 0 < n"
proof (unfold_locales, goal_cases)
  case (1 s after)
  then show ?case by (cases s) (auto intro!: exI [of _ "nat (snd s)"])
next
  case (2 s)
  then show ?case by (cases s) simp
next
  case (3 s)
  obtain T n where s: "s = (T, n)" by (cases s)
  have "distinct (map rw_HouseID (map house_row (t_houses T)))"
    using 3 s by (simp add: tables_ok_def house_row_def comp_def)
  then have "distinct (map rw_HouseID (house_rows T))"
    by (auto simp: distinct_map comp_def inj_on_def)
  then show ?case using s by simp
qed

lemma newest_row_in: "rows \<noteq> [] \<Longrightarrow> \<exists>r \<in> set rows. newest_row rows = Some r"
proof (induction rows)
  case (Cons r rows)
  then show ?case by (cases "rows = []") force+
qed simp

lemma newest_rows_houses:
  "map m_house_id (newest_rows since T) =
     sort (remdups (map m_house_id (filter (\<lambda>r. since \<le> m_time r) (t_meter_readings T))))"
proof -
  let ?rows = "filter (\<lambda>r. since \<le> m_time r) (t_meter_readings T)"
  let ?f = "\<lambda>h. newest_row (filter (\<lambda>r. m_house_id r = h) ?rows)"
  have "map m_house_id (List.map_filter ?f hs) = hs" if "set hs \<subseteq> m_house_id ` set ?rows" for hs
    using that
  proof (induction hs)
    case (Cons h hs)
    then have "filter (\<lambda>r. m_house_id r = h) ?rows \<noteq> []" by (auto simp: filter_empty_conv)
    from newest_row_in [OF this] obtain r where r: "?f h = Some r" "m_house_id r = h" by auto
    have "map m_house_id (List.map_filter ?f hs) = hs" using Cons by simp
    with r show ?case by (simp add: map_filter_simps)
  qed (simp add: map_filter_simps)
  from this [of "sort (remdups (map m_house_id ?rows))"] show ?thesis
    by (simp add: newest_rows_def Let_def)
qed

interpretation latest_pages: keyset_pages
  "\<lambda>(since, T, n) after. take (nat n) (filter (\<lambda>r. after < m_house_id r) (newest_rows since T))"
  "\<lambda>(since, T, n). newest_rows since T" m_house_id "\<lambda>(since, T, n). 0 < (n :: int)"
proof (unfold_locales, goal_cases)
  case (1 s after)
  then show ?case by (cases s) (auto intro!: exI [of _ "nat (snd (snd s))"])
qed (auto simp: newest_rows_houses)


lemma houseLoop_effect:
  assumes "houseLoop opts now after res w = ((err, res'), w')" "tables_ok (pg_tables (w_pg w))" "0 < opt_PageSize opts"
  shows "pg_tables (w_pg w') = pg_tables (w_pg w) \<and> (opt_DryRun opts \<longrightarrow> w_redis w' = w_redis w) \<and>
    (redis_ok (w_redis w) \<longrightarrow> joins (w_redis w) (w_redis w')) \<and>
    (err = None \<longrightarrow> re_Houses res' = re_Houses res +
       length (filter (\<lambda>h. after < rw_HouseID h) (house_rows (pg_tables (w_pg w))))) \<and>
    (redis_ok (w_redis w) \<and> err = None \<and> \<not> opt_DryRun opts \<longrightarrow>
       (\<forall>h \<in> set (filter (\<lambda>h. after < rw_HouseID h) (house_rows (pg_tables (w_pg w)))).
          rw_HouseID h \<in> members (rd_clock (w_redis w)) (rd_db (w_redis w')) (rw_GridID h)))"
  using assms
proof (induction opts now after res w rule: houseLoop.induct)
  case (1 opts now after res w)
  obtain x p where pg: "HousesPage after (opt_PageSize opts) (w_pg w) = (x, p)" by force
  let ?T = "pg_tables (w_pg w)"
  let ?todo = "\<lambda>a. filter (\<lambda>h. a < rw_HouseID h) (house_rows ?T)"
  have T: "pg_tables p = ?T" using HousesPage_reads [OF pg] .
  show ?case
  proof (cases x)
    case (Inl e)
    with 1(2) pg T show ?thesis by (subst (asm) houseLoop.simps) (auto simp: joins_refl)
  next
    case (Inr hs)
    note page = HousesPage_Inr [OF pg [unfolded Inr]]
    have good: "case (?T, opt_PageSize opts) of (T, n) \<Rightarrow> tables_ok T \<and> 0 < n" using 1(3,4) by simp
    show ?thesis
    proof (cases "hs = []")
      case True
      then have "?todo after = []" using house_pages.page_empty [OF good, of after] page by simp
      with 1(2) pg Inr True T show ?thesis by (subst (asm) houseLoop.simps) (auto simp: joins_refl)
    next
      case False
      have todo: "?todo after = hs @ ?todo (rw_HouseID (last hs))"
        using house_pages.page_rest [OF good, of after] page False by simp
      obtain e res1 c where r: "restoreHouses opts now hs res (w_redis w) = ((e, res1), c)" by (metis prod.exhaust)
      note one = restoreHouses_effect [OF r]
      show ?thesis
      proof (cases e)
        case (Some err')
        with 1(2) pg Inr False r have "err = Some err'" "w' = \<lparr>w_pg = p, w_redis = c\<rparr>"
          by (subst (asm) houseLoop.simps, simp)+
        with one T Some show ?thesis by auto
      next
        case None
        with 1(2) pg Inr False r
        have rest: "houseLoop opts now (rw_HouseID (last hs)) res1 \<lparr>w_pg = p, w_redis = c\<rparr> = ((err, res'), w')"
          by (subst (asm) houseLoop.simps) simp
        note ih = 1(1) [OF pg [symmetric] Inr False r [symmetric] refl None rest, simplified, unfolded T, OF 1(3,4)]
        show ?thesis
        proof (intro conjI impI)
          assume ok: "redis_ok (w_redis w)"
          then have "joins (w_redis w) c" "joins c (w_redis w')" using one ih by (auto simp: joins_def)
          then show "joins (w_redis w) (w_redis w')" by (rule joins_trans)
        next
          assume a: "redis_ok (w_redis w) \<and> err = None \<and> \<not> opt_DryRun opts"
          then have j: "joins (w_redis w) c" "joins c (w_redis w')" using one ih by (auto simp: joins_def)
          then have "\<forall>h \<in> set hs. rw_HouseID h \<in> members (rd_clock (w_redis w)) (rd_db (w_redis w')) (rw_GridID h)"
            using one None a by (auto simp: joins_def subset_iff)
          with ih j a show "\<forall>h \<in> set (?todo after).
              rw_HouseID h \<in> members (rd_clock (w_redis w)) (rd_db (w_redis w')) (rw_GridID h)"
            unfolding todo by (auto simp: joins_def)
        qed (use ih one todo None in auto)
      qed
    qed
  qed
qed

lemma list_all2_members:
  "list_all2 P xs ys \<Longrightarrow> y \<in> set ys \<Longrightarrow> \<exists>x \<in> set xs. P x y"
  "list_all2 P xs ys \<Longrightarrow> x \<in> set xs \<Longrightarrow> \<exists>y \<in> set ys. P x y"
  by (induction rule: list_all2_induct) auto

lemma reflected_assets:
  "reflected ((latest_of_row r)\<lparr>mr_StorageAssets := as\<rparr>) c \<longleftrightarrow> reflected (latest_of_row r) c"
proof -
  have "latest_key (ProjectionOf (latest_of_row r)) = MeterLatestKey (m_grid_id r) (m_house_id r)"
    by (simp add: ProjectionOf_def latest_key_def latest_of_row_def)
  then show ?thesis
    by (auto simp: reflected_def not_newer_def exact_latest_of_row split: option.splits)
qed

lemma latestLoop_effect:
  assumes "latestLoop opts since after res w = ((err, res'), w')" "0 < opt_PageSize opts"
    and "\<forall>r \<in> set (newest_rows since (pg_tables (w_pg w))). exact_projection (ProjectionOf (latest_of_row r))"
  shows "pg_tables (w_pg w') = pg_tables (w_pg w) \<and> (opt_DryRun opts \<longrightarrow> w_redis w' = w_redis w) \<and>
    (redis_ok (w_redis w) \<longrightarrow> joins (w_redis w) (w_redis w') \<and>
       (\<forall>k. not_newer version_of (latest_at k (w_redis w)) (latest_at k (w_redis w')))) \<and>
    re_Houses res' = re_Houses res \<and>
    (redis_ok (w_redis w) \<and> err = None \<and> \<not> opt_DryRun opts \<longrightarrow>
       (\<forall>r \<in> set (filter (\<lambda>r. after < m_house_id r) (newest_rows since (pg_tables (w_pg w)))).
          reflected (latest_of_row r) (w_redis w')))"
  using assms
proof (induction opts since after res w rule: latestLoop.induct)
  case (1 opts since after res w)
  obtain x p where pg: "LatestReadingsPage since after (opt_PageSize opts) (w_pg w) = (x, p)" by force
  let ?T = "pg_tables (w_pg w)"
  let ?todo = "\<lambda>a. filter (\<lambda>r. a < m_house_id r) (newest_rows since ?T)"
  have T: "pg_tables p = ?T" using LatestReadingsPage_reads [OF pg] .
  show ?case
  proof (cases x)
    case (Inl e)
    with 1(2) pg T show ?thesis by (subst (asm) latestLoop.simps) (auto simp: joins_refl not_newer_refl)
  next
    case (Inr rs)
    let ?page = "take (nat (opt_PageSize opts)) (?todo after)"
    note page = LatestReadingsPage_Inr [OF pg [unfolded Inr]]
    have good: "case (since, ?T, opt_PageSize opts) of (since, T, n) \<Rightarrow> 0 < n" using 1(3) by simp
    show ?thesis
    proof (cases "rs = []")
      case True
      with page have "?page = []" by simp
      then have "?todo after = []" using latest_pages.page_empty [OF good, of after] by simp
      with 1(2) pg Inr True T show ?thesis
        by (subst (asm) latestLoop.simps) (auto simp: joins_refl not_newer_refl)
    next
      case False
      with list_all2_last [OF page] have l: "?page \<noteq> []" "mr_HouseID (last rs) = m_house_id (last ?page)"
        by (auto simp: latest_of_row_def)
      have todo: "?todo after = ?page @ ?todo (mr_HouseID (last rs))"
        using latest_pages.page_rest [OF good, of after] l by simp
      have "\<exists>r \<in> set ?page. \<exists>as. m = (latest_of_row r)\<lparr>mr_StorageAssets := as\<rparr>" if "m \<in> set rs" for m
        using list_all2_members(1) [OF page that] .
      then have ex: "\<forall>m \<in> set rs. exact_projection (ProjectionOf m)"
        using 1(4) by (metis exact_latest_of_row(1) filter_is_subset in_set_takeD subsetD)
      obtain e res1 c where r: "restoreLatest opts rs res (w_redis w) = ((e, res1), c)" by (metis prod.exhaust)
      note one = restoreLatest_effect [OF r ex]
      show ?thesis
      proof (cases e)
        case (Some err')
        with 1(2) pg Inr False r have "err = Some err'" "w' = \<lparr>w_pg = p, w_redis = c\<rparr>" "res' = res1"
          by (subst (asm) latestLoop.simps, simp)+
        with one T Some show ?thesis by auto
      next
        case None
        with 1(2) pg Inr False r
        have rest: "latestLoop opts since (mr_HouseID (last rs)) res1 \<lparr>w_pg = p, w_redis = c\<rparr> = ((err, res'), w')"
          by (subst (asm) latestLoop.simps) simp
        note ih = 1(1) [OF pg [symmetric] Inr False r [symmetric] refl None rest, simplified, unfolded T, OF 1(3,4)]
        have mono: "joins (w_redis w) (w_redis w')" "\<forall>k. not_newer version_of (latest_at k c) (latest_at k (w_redis w'))"
          "\<forall>k. not_newer version_of (latest_at k (w_redis w)) (latest_at k (w_redis w'))"
          if "redis_ok (w_redis w)"
        proof -
          have j: "joins (w_redis w) c" "redis_ok c" using one that by (auto simp: joins_def)
          with ih have "joins c (w_redis w')" by blast
          with j show "joins (w_redis w) (w_redis w')" using joins_trans by blast
          show m: "\<forall>k. not_newer version_of (latest_at k c) (latest_at k (w_redis w'))" using ih j by blast
          show "\<forall>k. not_newer version_of (latest_at k (w_redis w)) (latest_at k (w_redis w'))"
            using one that m not_newer_trans by blast
        qed
        have "reflected (latest_of_row r) (w_redis w')"
          if "r \<in> set (?todo after)" and a: "redis_ok (w_redis w)" "err = None" "\<not> opt_DryRun opts" for r
        proof (cases "r \<in> set ?page")
          case True
          from list_all2_members(2) [OF page this] obtain m as
            where m: "m = (latest_of_row r)\<lparr>mr_StorageAssets := as\<rparr>" "m \<in> set rs" by blast
          then have "reflected m c" using one None a by blast
          then have "reflected m (w_redis w')"
            using mono(2) [OF a(1)] not_newer_trans unfolding reflected_def by blast
          with m show ?thesis by (simp add: reflected_assets)
        next
          case False
          with that todo have "r \<in> set (?todo (mr_HouseID (last rs)))" by (metis Un_iff set_append)
          with ih one a show ?thesis by (auto simp: joins_def)
        qed
        with mono ih one show ?thesis by auto
      qed
    qed
  qed
qed


lemma newest_row_max: "newest_row rows = Some q \<Longrightarrow> r \<in> set rows \<Longrightarrow> \<not> row_before q r"
proof (induction rows arbitrary: q)
  case (Cons a rows)
  show ?case
  proof (cases "newest_row rows")
    case None
    then have "rows = []" using newest_row_in [of rows] by auto
    with Cons show ?thesis by (auto simp: row_before_def)
  next
    case (Some p)
    with Cons.prems(1) have q: "q = (if row_before a p then p else a)" by (simp split: if_splits)
    have "\<not> row_before p r" if "r \<noteq> a" using Cons.IH [OF Some] Cons.prems(2) that by simp
    then show ?thesis using q unfolding row_before_def by (cases "r = a") (simp_all split: if_splits, linarith+)
  qed
qed simp

text \<open>Each row of the window is at or before the newest row of its house.\<close>

lemma newest_rows_cover:
  assumes "r \<in> set (t_meter_readings T)" "since \<le> m_time r"
  obtains q where "q \<in> set (newest_rows since T)" "q \<in> set (t_meter_readings T)"
    "m_house_id q = m_house_id r" "\<not> row_before q r"
proof -
  let ?rows = "filter (\<lambda>q. m_house_id q = m_house_id r) (filter (\<lambda>r. since \<le> m_time r) (t_meter_readings T))"
  have r: "r \<in> set ?rows" using assms by simp
  then obtain q where q: "newest_row ?rows = Some q" "q \<in> set ?rows" using newest_row_in [of ?rows] by (metis length_pos_if_in_set list.size(3) less_irrefl)
  have "q \<in> set (newest_rows since T)"
    using q(1) assms unfolding newest_rows_def Let_def List.map_filter_def
    by (force intro!: image_eqI [of _ _ "m_house_id r"])
  with q(2) newest_row_max [OF q(1) r] that show thesis by auto
qed

lemma newest_rows_subset: "r \<in> set (newest_rows since T) \<Longrightarrow> r \<in> set (t_meter_readings T)"
proof -
  have "newest_row rows = Some r \<Longrightarrow> r \<in> set rows" for rows
    using newest_row_in [of rows] by (cases "rows = []") auto
  then show "r \<in> set (newest_rows since T) \<Longrightarrow> r \<in> set (t_meter_readings T)"
    by (fastforce simp: newest_rows_def Let_def List.map_filter_def)
qed

lemma Options_withDefaults_ok:
  "0 < opt_PageSize (Options_withDefaults opts)" "0 < opt_Lookback (Options_withDefaults opts)"
  "opt_DryRun (Options_withDefaults opts) = opt_DryRun opts"
  by (simp_all add: Options_withDefaults_def Let_def)


definition rebuild_world :: world where
  "rebuild_world =
     \<lparr>w_pg = quiet_pg (sample_tables\<lparr>t_meter_readings := [meter_row_of (sample_reading ''b1'' 7)]\<rparr>) 0,
      w_redis = empty_redis []\<rparr>"

definition rebuild_options :: Options where
  "rebuild_options = \<lparr>opt_Lookback = 10 ^ 15, opt_PageSize = 0, opt_DryRun = False\<rparr>"

lemma rebuild_world_ok: "world_ok rebuild_world"
  by (simp add: world_ok_def rebuild_world_def empty_redis_ok tables_ok_def sample_tables_def empty_tables_def
      meter_row_of_def sample_reading_def)

lemmas house_eval = HousesPage_def onSql_def stmt_quiet housesPageSQL_def house_row_def AddHouseToGrid_def
  onCmd_quiet redis_SADD_def RestoreHeartbeat_def HeartbeatTTL_def ret_def live_def empty_redis_def
  sample_tables_def empty_tables_def rebuild_world_def

lemmas latest_eval = LatestReadingsPage_def onSql_def stmt_quiet latestReadingsPageSQL_def newest_rows_def
  meter_row_of_def sample_reading_def andThen_def ret_def latest_of_row_def latestStorageSQL_def

lemma rebuild_world_runs: "fst (fst (Rebuild_Run rebuild_options (10 ^ 15) rebuild_world)) = None"
  apply (simp add: Rebuild_Run_def rebuild_options_def Options_withDefaults_def Let_def)
  apply (subst houseLoop.simps, simp add: house_eval)
  apply (subst houseLoop.simps, simp add: house_eval)
  apply (subst latestLoop.simps, simp add: latest_eval)
  apply (simp add: Let_def ProjectionOf_def SetLatestIfNewer_def andThen_def onCmd_quiet set_latest_if_newer_def
      live_def ret_def json_Marshal_def projection_floats_def redis_GET_def)
  apply (subst latestLoop.simps, simp add: latest_eval)
  done


end
