(* ===== verification/Commands.thy ===== *)
theory Commands
  imports App Rebuild
begin

text \<open>
  The other commands, \<^verbatim>\<open>cmd/failure-replay\<close>, \<^verbatim>\<open>cmd/redis-rebuild\<close> and \<^verbatim>\<open>cmd/migrate\<close>, the readiness the health
  endpoints answer with, and the dependency probe.  The standard library's flag parsing gives a command its
  values; the migration provider is a third-party object whose calls are parameters.
\<close>

section \<open>Opening and closing connections around a command\<close>

type_synonym 'a command = "(resource list \<times> world, 'a) act"

definition onResources :: "'a building \<Rightarrow> 'a command" where
  "onResources m s = (case m (fst s) of (r, rs) \<Rightarrow> (r, (rs, snd s)))"

definition onStores :: "(world, 'a) act \<Rightarrow> 'a command" where
  "onStores m s = (case m (snd s) of (r, w) \<Rightarrow> (r, (fst s, w)))"

text \<open>\<^verbatim>\<open>defer x.Close()\<close>: however \<open>m\<close> ends, \<open>x\<close> is closed.\<close>

definition deferring :: "resource \<Rightarrow> 'a command \<Rightarrow> 'a command" where
  "deferring x m s = (case m s of (r, (rs, w)) \<Rightarrow> (r, (remove1 x rs, w)))"

definition pool_of_size :: "int \<Rightarrow> PoolConfig" where
  "pool_of_size n = \<lparr>pl_MaxConns = n, pl_MinConns = 0, pl_ConnectTimeout = 0, pl_StatementTimeout = 0, pl_MaxConnLifetime = 0\<rparr>"

text \<open>The Redis settings of the operator commands: four connections and no idle ones.\<close>

definition command_redis :: "RedisConfig \<Rightarrow> RedisConfig" where
  "command_redis r = r\<lparr>rc_PoolSize := 4, rc_MinIdleConns := 0\<rparr>"

section \<open>failure-replay\<close>

definition maxBatch :: nat where "maxBatch = 100"

definition idList_Set :: "int list \<Rightarrow> string \<Rightarrow> go_error + int list" where
  "idList_Set l v =
     (case ParseInt 64 v of
        None \<Rightarrow> Inl (errors_New (''invalid failure id '' @ go_quote v))
      | Some i \<Rightarrow> if i \<le> 0 then Inl (errors_New (''invalid failure id '' @ go_quote v)) else Inr (l @ [i]))"

fun setAll :: "int list \<Rightarrow> string list \<Rightarrow> go_error + int list" where
  "setAll l [] = Inr l"
| "setAll l (v # vs) =
     bindE (failWith (\<lambda>e. errors_New (''invalid value '' @ go_quote v @ '' for flag -id: '' @ err_text e)) (idList_Set l v))
       (\<lambda>l'. setAll l' vs)"

text \<open>The flags as given: the values of \<^verbatim>\<open>-limit\<close>, \<^verbatim>\<open>-after\<close> and \<^verbatim>\<open>-actor\<close>, and of every \<^verbatim>\<open>-id\<close> in order.\<close>

record replay_flags =
  fl_limit :: int
  fl_after :: int
  fl_actor :: string
  fl_ids :: "string list"

definition check_command :: "string \<Rightarrow> string \<Rightarrow> int list \<Rightarrow> go_error option" where
  "check_command command actor ids =
     (if command = ''list'' then None
      else if command \<in> {''replay'', ''discard''} then
        (if actor = [] then Some (errors_New ''-actor is required'')
         else if ids = [] then Some (errors_New ''at least one -id is required'')
         else if length ids > maxBatch then Some (errors_New (''at most '' @ show_nat maxBatch @ '' ids per run''))
         else None)
      else Some (errors_New (''unknown command '' @ go_quote command)))"

datatype replay_output = Listed "FailureRow list" | Lines "replay_line list"

definition list_failures :: "int \<Rightarrow> int \<Rightarrow> (world, replay_output) act" where
  "list_failures after limit =
     (if limit \<le> 0 \<or> limit > 500 then throw (errors_New ''-limit must be between 1 and 500'')
      else andThen (onPg (ListUnresolvedFailures after limit)) (\<lambda>rows. ret (Listed rows)))"

text \<open>The registry of one run: a bootstrap from the grids provisioned now.\<close>

definition bootstrap_registry :: "(world, Registry) act" where
  "bootstrap_registry w =
     (case Bootstrap LoadGrids (NewRegistry, w_pg w) of
        (Inl e, (r, p)) \<Rightarrow> (Inl (Errorf_w ''grid registry: '' e), w\<lparr>w_pg := p\<rparr>)
      | (Inr n, (r, p)) \<Rightarrow> (Inr r, w\<lparr>w_pg := p\<rparr>))"

definition replay_topics :: "AppConfig \<Rightarrow> kafka_topics" where
  "replay_topics c =
     \<lparr>kt_MeterTopic = kc_MeterTopic (ac_Kafka c), kt_HeartbeatTopic = kc_HeartbeatTopic (ac_Kafka c),
      kt_ActuationResponseTopic = kc_ActuationResponseTopic (ac_Kafka c)\<rparr>"

definition failure_replay_run ::
    "unicode \<Rightarrow> getenv \<Rightarrow> boot \<Rightarrow> handler_env \<Rightarrow> string list \<Rightarrow> (string list \<Rightarrow> go_error + replay_flags) \<Rightarrow> replay_output command" where
  "failure_replay_run u g b env args parse =
     (case args of
        [] \<Rightarrow> throw (errors_New ''usage: failure-replay list|replay|discard [flags]'')
      | command # rest \<Rightarrow>
          andThen (liftE (parse rest)) (\<lambda>fl.
          andThen (liftE (setAll [] (fl_ids fl))) (\<lambda>ids.
          andThen (liftE (checkE (check_command command (fl_actor fl) ids) (Inr ()))) (\<lambda>_.
          andThen (liftE (failWith (Errorf_w ''load configuration: '') (Load u g))) (\<lambda>c.
          andThen (onResources (wrapErr (Errorf_w ''postgres: '') (NewWithPool b (pc_URL (ac_Postgres c)) (pool_of_size 4)))) (\<lambda>_.
          deferring PostgresPool
            (if command = ''list'' then onStores (list_failures (fl_after fl) (fl_limit fl))
             else if command = ''discard''
             then andThen (onStores (resolveAll (fl_actor fl) discard ids)) (\<lambda>ls. ret (Lines ls))
             else
               andThen (onResources (wrapErr (Errorf_w ''redis: '') (redis_New b (command_redis (ac_Redis c))))) (\<lambda>_.
               deferring RedisClient
                 (andThen (onStores bootstrap_registry) (\<lambda>registry.
                  andThen (onStores (resolveAll (fl_actor fl)
                     (replay_record (replay_topics c) (limits_of (ac_Input c)) (env\<lparr>he_registry := registry\<rparr>)) ids)) (\<lambda>ls.
                  ret (Lines ls))))))))))))"

section \<open>redis-rebuild\<close>

definition redis_rebuild_run :: "unicode \<Rightarrow> getenv \<Rightarrow> boot \<Rightarrow> Options \<Rightarrow> int \<Rightarrow> unit command" where
  "redis_rebuild_run u g b opts now =
     andThen (liftE (failWith (Errorf_w ''load configuration: '') (Load u g))) (\<lambda>c.
     andThen (onResources (wrapErr (Errorf_w ''postgres: '') (NewWithPool b (pc_URL (ac_Postgres c)) (pool_of_size 2)))) (\<lambda>_.
     deferring PostgresPool
       (andThen (onResources (wrapErr (Errorf_w ''redis: '') (redis_New b (command_redis (ac_Redis c))))) (\<lambda>_.
        deferring RedisClient
          (onStores (\<lambda>w. case Rebuild_Run opts now w of
             ((None, res), w') \<Rightarrow> (Inr (), w') | ((Some e, res), w') \<Rightarrow> (Inl e, w')))))))"

section \<open>migrate\<close>

definition validCommand :: "string \<Rightarrow> bool" where
  "validCommand command \<longleftrightarrow> command \<in> {''up'', ''down'', ''status'', ''version''}"

text \<open>The database as the migration provider sees it, and what its constructors and calls return.\<close>

record 'd migrator =
  mg_parse :: "string \<Rightarrow> go_error option"
  mg_ping :: "'d \<Rightarrow> go_error option"
  mg_provider :: "'d \<Rightarrow> go_error option"
  mg_up :: "'d \<Rightarrow> go_error option \<times> 'd"
  mg_down :: "'d \<Rightarrow> go_error option \<times> 'd"
  mg_status :: "'d \<Rightarrow> go_error option"
  mg_version :: "'d \<Rightarrow> go_error option"

definition migrate_run :: "'d migrator \<Rightarrow> string \<Rightarrow> string \<Rightarrow> 'd \<Rightarrow> go_error option \<times> 'd" where
  "migrate_run m databaseURL command db =
     (case mg_parse m databaseURL of
        Some e \<Rightarrow> (Some (Errorf_w ''parse database configuration: '' e), db)
      | None \<Rightarrow>
      (case mg_ping m db of
        Some e \<Rightarrow> (Some (Errorf_w ''ping database: '' e), db)
      | None \<Rightarrow>
      (case mg_provider m db of
        Some e \<Rightarrow> (Some (Errorf_w ''create migration provider: '' e), db)
      | None \<Rightarrow>
      (case (if command = ''up'' then mg_up m db
             else if command = ''down'' then mg_down m db
             else if command = ''status'' then (mg_status m db, db)
             else if command = ''version'' then (mg_version m db, db)
             else (None, db)) of
         (Some e, db') \<Rightarrow> (Some (Errorf_w (''execute '' @ go_quote command @ '' migration command: '') e), db')
       | (None, db') \<Rightarrow> (None, db')))))"

text \<open>The exit code and the database; \<open>args\<close> without the program's name.\<close>

definition migrate_main :: "'d migrator \<Rightarrow> getenv \<Rightarrow> string list \<Rightarrow> 'd \<Rightarrow> int \<times> 'd" where
  "migrate_main m g args db =
     (let databaseURL = g ''POSTGRES_URL''; command = (case args of [] \<Rightarrow> ''up'' | a # _ \<Rightarrow> a) in
      if databaseURL = [] then (1, db)
      else if \<not> validCommand command then (1, db)
      else case migrate_run m databaseURL command db of
        (Some e, db') \<Rightarrow> (1, db')
      | (None, db') \<Rightarrow> (0, db'))"

section \<open>Health endpoints and probe\<close>

record health_server =
  hv_ready :: bool

definition New_health :: health_server where
  "New_health = \<lparr>hv_ready = False\<rparr>"

definition SetReady :: "bool \<Rightarrow> health_server \<Rightarrow> health_server" where
  "SetReady ready h = h\<lparr>hv_ready := ready\<rparr>"

definition healthz :: "health_server \<Rightarrow> int \<times> string" where
  "healthz h = (200, ''ok'')"

definition readyz :: "health_server \<Rightarrow> int \<times> string" where
  "readyz h = (if \<not> hv_ready h then (503, ''not ready'') else (200, ''ok''))"

datatype serving_status = NOT_SERVING | SERVING

definition grpc_SetReady :: "bool \<Rightarrow> serving_status" where
  "grpc_SetReady ready = (if ready then SERVING else NOT_SERVING)"

text \<open>The state of both after the calls in a trace of \<^verbatim>\<open>Run\<close>.\<close>

definition health_after :: "lifecycle list \<Rightarrow> health_server" where
  "health_after tr = fold (\<lambda>x h. case x of HealthReady b \<Rightarrow> SetReady b h | _ \<Rightarrow> h) tr New_health"

definition grpc_after :: "lifecycle list \<Rightarrow> serving_status" where
  "grpc_after tr = fold (\<lambda>x s. case x of GrpcReady b \<Rightarrow> grpc_SetReady b | _ \<Rightarrow> s) tr NOT_SERVING"

text \<open>The gauges a probe sets; \<open>ga_up\<close> by dependency, \<open>ga_backlog\<close> with the age in nanoseconds.\<close>

record gauges =
  ga_up :: "string \<Rightarrow> bool option"
  ga_backlog :: "(int \<times> int) option"

definition SetDependencyUp :: "string \<Rightarrow> bool \<Rightarrow> gauges \<Rightarrow> gauges" where
  "SetDependencyUp name up m = m\<lparr>ga_up := (ga_up m)(name \<mapsto> up)\<rparr>"

definition SetFailureBacklog :: "int \<Rightarrow> int \<Rightarrow> gauges \<Rightarrow> gauges" where
  "SetFailureBacklog unresolved oldestAge m = m\<lparr>ga_backlog := Some (unresolved, oldestAge)\<rparr>"

text \<open>\<open>pgErr\<close> and \<open>redisErr\<close> are the answers to the pings.\<close>

definition probe :: "go_error option \<Rightarrow> go_error option \<Rightarrow> gauges \<times> pg \<Rightarrow> gauges \<times> pg" where
  "probe pgErr redisErr s =
     (case s of (m0, p) \<Rightarrow>
      (let m1 = SetDependencyUp ''postgres'' (pgErr = None) m0;
           m2 = SetDependencyUp ''redis'' (redisErr = None) m1 in
       if pgErr = None
       then (case FailureBacklog p of
               (Inr (n, oldest), p') \<Rightarrow> (SetFailureBacklog n oldest m2, p')
             | (Inl e, p') \<Rightarrow> (m2, p'))
       else (m2, p)))"

section \<open>Connections are closed\<close>

lemma onResources_iff [inversion]:
  "onResources m s = (r, s') \<longleftrightarrow> m (fst s) = (r, fst s') \<and> snd s' = snd s"
  by (cases s; cases s') (auto simp: onResources_def split: prod.splits)

lemma onStores_iff [inversion]: "onStores m s = (r, s') \<longleftrightarrow> m (snd s) = (r, snd s') \<and> fst s' = fst s"
  by (cases s; cases s') (auto simp: onStores_def split: prod.splits)

lemma deferring_iff [inversion]:
  "deferring x m s = (r, s') \<longleftrightarrow> (\<exists>rs. m s = (r, (rs, snd s')) \<and> fst s' = remove1 x rs)"
  by (cases s') (auto simp: deferring_def split: prod.splits)

definition balanced :: "resource list \<Rightarrow> 'a command \<Rightarrow> bool" where
  "balanced rs m \<longleftrightarrow> (\<forall>w r s'. m (rs, w) = (r, s') \<longrightarrow> fst s' = rs)"

named_theorems balancing \<open>commands that close what they open\<close>

lemma balanced_liftE [balancing]: "balanced rs (liftE x)"
  by (auto simp: balanced_def liftE_def)

lemma balanced_throw [balancing]: "balanced rs (throw e)"
  by (auto simp: balanced_def throw_def)

lemma balanced_ret [balancing]: "balanced rs (ret x)"
  by (auto simp: balanced_def)

lemma balanced_onStores [balancing]: "balanced rs (onStores m)"
  by (auto simp: balanced_def onStores_iff)

lemma balanced_andThen [balancing]: "balanced rs m \<Longrightarrow> (\<And>x. balanced rs (k x)) \<Longrightarrow> balanced rs (andThen m k)"
  unfolding balanced_def andThen_def by (fastforce split: prod.splits sum.splits)

lemma balanced_if [balancing]: "balanced rs m \<Longrightarrow> balanced rs n \<Longrightarrow> balanced rs (if b then m else n)"
  by simp

lemma balanced_connection:
  assumes "opens rs [x] m" "x \<notin> set rs" "balanced (rs @ [x]) k"
  shows "balanced rs (andThen (onResources m) (\<lambda>_. deferring x k))"
  unfolding balanced_def
proof (intro allI impI)
  fix w r s'
  assume run: "andThen (onResources m) (\<lambda>_. deferring x k) (rs, w) = (r, s')"
  obtain r1 rs1 where m: "m rs = (r1, rs1)" by force
  then have rs1: "rs1 = (if isl r1 then rs else rs @ [x])" using assms(1) by (auto simp: opens_def)
  show "fst s' = rs"
  proof (cases r1)
    case (Inl e)
    with run m rs1 show ?thesis by (auto simp: andThen_def onResources_def)
  next
    case (Inr v)
    obtain r2 rs2 w2 where k: "k (rs @ [x], w) = (r2, (rs2, w2))" by (metis prod.exhaust)
    then have "rs2 = rs @ [x]" using assms(3) by (fastforce simp: balanced_def)
    with run m rs1 Inr k assms(2) show ?thesis
      by (auto simp: andThen_def onResources_def deferring_def remove1_append)
  qed
qed

lemma balanced_postgres [balancing]:
  "balanced [PostgresPool] k \<Longrightarrow>
   balanced [] (andThen (onResources (wrapErr g (NewWithPool b url pool))) (\<lambda>_. deferring PostgresPool k))"
  by (rule balanced_connection) (simp_all add: opens_wrapErr opens_NewWithPool)

lemma balanced_redis [balancing]:
  "balanced [PostgresPool, RedisClient] k \<Longrightarrow>
   balanced [PostgresPool] (andThen (onResources (wrapErr g (redis_New b c))) (\<lambda>_. deferring RedisClient k))"
  by (rule balanced_connection) (simp_all add: opens_wrapErr opens_redis_New)

lemma replay_balanced: "balanced [] (failure_replay_run u g b env args parse)"
  unfolding failure_replay_run_def by (cases args) (simp_all only: list.case, (intro balancing)+)

lemma rebuild_balanced: "balanced [] (redis_rebuild_run u g b opts now)"
  unfolding redis_rebuild_run_def by (intro balancing)

section \<open>What the commands do\<close>

lemma setAll_positive: "setAll l vs = Inr ids \<Longrightarrow> \<forall>i \<in> set l. 0 < i \<Longrightarrow> \<forall>i \<in> set ids. 0 < i"
proof (induction vs arbitrary: l)
  case (Cons v vs)
  from Cons.prems obtain i where "setAll (l @ [i]) vs = Inr ids" "0 < i"
    by (auto simp: idList_Set_def bindE_def failWith_def split: sum.splits option.splits if_splits)
  with Cons.IH [of "l @ [i]"] Cons.prems(2) show ?case by auto
qed simp

lemma bootstrap_registry_tables: "bootstrap_registry w = (r, w') \<Longrightarrow> pg_tables (w_pg w') = pg_tables (w_pg w)"
  unfolding bootstrap_registry_def Bootstrap_def
  by (auto split: prod.splits sum.splits dest: LoadGrids_tables)

lemma bootstrap_registry_exact:
  assumes "tables_ok (pg_tables (w_pg w))" "bootstrap_registry w = (Inr r, w')"
  shows "Registry_Lookup r = provisioned_grids (w_pg w)"
proof -
  obtain n p where "Bootstrap LoadGrids (NewRegistry, w_pg w) = (Inr n, (r, p))"
    using assms(2) by (auto simp: bootstrap_registry_def split: prod.splits sum.splits)
  then obtain added removed where "refreshOnce LoadGrids (NewRegistry, w_pg w) = (Refreshed n added removed, (r, p))"
    by (auto simp: Bootstrap_refresh split: prod.splits refresh_note.splits)
  from grids.refreshed_exact(1) [OF assms(1) this] show ?thesis .
qed

lemma ListUnresolvedFailures_tables: "ListUnresolvedFailures after limit p = (r, p') \<Longrightarrow> pg_tables p' = pg_tables p"
  by (auto simp: ListUnresolvedFailures_def throw_def andThen_def onSql_def listUnresolvedFailuresSQL_def
      split: prod.splits sum.splits if_splits dest!: stmt_read [rotated])

text \<open>
  \<open>settling may actor ids w res w'\<close>: the tables are those of \<open>w\<close> and no lines were printed, or, if it may, the result is
  that of a loop over \<open>ids\<close> with a replay function that leaves the failure table alone.
\<close>

definition settling :: "bool \<Rightarrow> string \<Rightarrow> int list \<Rightarrow> world \<Rightarrow> go_error + replay_output \<Rightarrow> world \<Rightarrow> bool" where
  "settling may actor ids w res w' \<longleftrightarrow>
     pg_tables (w_pg w') = pg_tables (w_pg w) \<and> (\<forall>ls. res \<noteq> Inr (Lines ls)) \<or>
     may \<and> (\<exists>fn w1 res1. leaves_failures fn \<and> pg_tables (w_pg w1) = pg_tables (w_pg w) \<and>
        resolveAll actor fn ids w1 = (res1, w') \<and> res = map_sum id Lines res1)"

definition settles :: "bool \<Rightarrow> string \<Rightarrow> int list \<Rightarrow> replay_output command \<Rightarrow> bool" where
  "settles may actor ids m \<longleftrightarrow> (\<forall>s res s'. m s = (res, s') \<longrightarrow> settling may actor ids (snd s) res (snd s'))"

lemma settling_Inl: "pg_tables (w_pg w') = pg_tables (w_pg w) \<Longrightarrow> settling may actor ids w (Inl e) w'"
  by (simp add: settling_def)

lemma settles_after:
  assumes "\<And>s r s'. m s = (r, s') \<Longrightarrow> pg_tables (w_pg (snd s')) = pg_tables (w_pg (snd s))"
    and "\<And>x. settles may actor ids (k x)"
  shows "settles may actor ids (andThen m k)"
  unfolding settles_def
proof (intro allI impI)
  fix s res s'
  assume run: "andThen m k s = (res, s')"
  obtain r s1 where m: "m s = (r, s1)" by (metis surj_pair)
  note same = assms(1) [OF m]
  show "settling may actor ids (snd s) res (snd s')"
  proof (cases r)
    case (Inl e)
    with run m same show ?thesis by (auto simp: andThen_def settling_Inl)
  next
    case (Inr x)
    with run m have "k x s1 = (res, s')" by (simp add: andThen_def)
    with assms(2) [of x] have "settling may actor ids (snd s1) res (snd s')" unfolding settles_def by blast
    then show ?thesis unfolding settling_def same .
  qed
qed

lemma settles_resources: "(\<And>x. settles may actor ids (k x)) \<Longrightarrow> settles may actor ids (andThen (onResources m) k)"
  by (rule settles_after) (simp_all add: onResources_iff)

lemma settles_bootstrap:
  "(\<And>x. settles may actor ids (k x)) \<Longrightarrow> settles may actor ids (andThen (onStores bootstrap_registry) k)"
  by (rule settles_after) (auto simp: onStores_iff dest: bootstrap_registry_tables)

lemma settles_liftE: "(\<And>x. settles may actor ids (k x)) \<Longrightarrow> settles may actor ids (andThen (liftE r) k)"
  by (rule settles_after) (simp_all add: liftE_def)

lemma settles_deferring: "settles may actor ids m \<Longrightarrow> settles may actor ids (deferring x m)"
  by (auto simp: settles_def deferring_iff)

lemma settles_resolve:
  assumes "leaves_failures fn" "may"
  shows "settles may actor ids (andThen (onStores (resolveAll actor fn ids)) (\<lambda>ls. ret (Lines ls)))"
  unfolding settles_def
proof (intro allI impI)
  fix s res s'
  assume run: "andThen (onStores (resolveAll actor fn ids)) (\<lambda>ls. ret (Lines ls)) s = (res, s')"
  obtain res1 w' where r: "resolveAll actor fn ids (snd s) = (res1, w')" by force
  with run have "snd s' = w'" "res = map_sum id Lines res1"
    by (cases res1; auto simp: andThen_def onStores_def)+
  with r assms show "settling may actor ids (snd s) res (snd s')" unfolding settling_def by blast
qed

lemma settles_list: "settles may actor ids (onStores (list_failures after limit))"
  by (auto simp: settles_def onStores_iff list_failures_def settling_def andThen_def onPg_def
      split: if_splits prod.splits sum.splits dest!: ListUnresolvedFailures_tables)

lemma settles_if: "(b \<Longrightarrow> settles may actor ids m) \<Longrightarrow> (\<not> b \<Longrightarrow> settles may actor ids n) \<Longrightarrow> settles may actor ids (if b then m else n)"
  by simp

lemmas settling_rules = settles_if settles_resources settles_bootstrap settles_liftE settles_deferring settles_resolve settles_list

lemma replay_run_cases:
  assumes "failure_replay_run u g b env args parse s = (res, s')"
  obtains (refused) e where "res = Inl e" "s' = s"
  | (ran) command rest fl ids where "args = command # rest" "parse rest = Inr fl" "setAll [] (fl_ids fl) = Inr ids"
      "check_command command (fl_actor fl) ids = None" "settling (command \<noteq> ''list'') (fl_actor fl) ids (snd s) res (snd s')"
proof (cases args)
  case Nil
  with assms refused show thesis by (auto simp: failure_replay_run_def)
next
  case (Cons command rest)
  show thesis
  proof (cases "parse rest")
    case (Inl e)
    with assms Cons refused show thesis by (auto simp: failure_replay_run_def andThen_def liftE_def)
  next
    case p: (Inr fl)
    show thesis
    proof (cases "setAll [] (fl_ids fl)")
      case (Inl e)
      with assms Cons p refused show thesis by (auto simp: failure_replay_run_def andThen_def liftE_def)
    next
      case ids: (Inr ids)
      show thesis
      proof (cases "check_command command (fl_actor fl) ids")
        case (Some e)
        with assms Cons p ids refused show thesis
          by (auto simp: failure_replay_run_def andThen_def liftE_def checkE_def)
      next
        case None
        have enter: "andThen (liftE (Inr x)) k = k x" for x :: 'x and k :: "'x \<Rightarrow> replay_output command"
          by (simp add: fun_eq_iff andThen_def liftE_def)
        have "settles (command \<noteq> ''list'') (fl_actor fl) ids (failure_replay_run u g b env args parse)"
          unfolding failure_replay_run_def Cons p list.case enter ids None checkE_def option.case
          by (intro settling_rules discard_leaves replay_leaves_failures; assumption?)
        with assms show thesis unfolding settles_def by (blast intro: ran [OF Cons p ids None])
      qed
    qed
  qed
qed



text \<open>A replay admits its records against the grids provisioned when it starts.\<close>

theorem replay_registry_current:
  assumes "tables_ok (pg_tables (w_pg w))" "bootstrap_registry w = (Inr r, w')"
  shows "Registry_Lookup r = provisioned_grids (w_pg w) \<and> pg_tables (w_pg w') = pg_tables (w_pg w)"
  using bootstrap_registry_exact [OF assms] bootstrap_registry_tables [OF assms(2)] by blast

text \<open>The rebuild command closes its connections, and reports success only for a complete rebuild.\<close>

theorem redis_rebuild_reports:
  assumes "redis_rebuild_run u g b opts now ([], w) = (res, (left, w'))"
  shows "left = [] \<and> (res = Inr () \<longrightarrow> (\<exists>out. Rebuild_Run opts now w = ((None, out), w')))"
proof
  show "left = []" using rebuild_balanced assms by (fastforce simp: balanced_def)
  show "res = Inr () \<longrightarrow> (\<exists>out. Rebuild_Run opts now w = ((None, out), w'))"
    using assms
    by (auto simp: redis_rebuild_run_def andThen_Inr_iff onResources_iff deferring_iff onStores_iff liftE_def
        split: prod.splits option.splits)
qed

text \<open>
  The migration command changes the database only through the operation the operator named, \<^verbatim>\<open>up\<close> when none is,
  and exits with 0 only when that operation succeeded.
\<close>

theorem migrate_only_named:
  assumes "migrate_main m g args db = (code, db')"
  shows "db' = db \<or> (args = [] \<or> hd args = ''up'') \<and> db' = snd (mg_up m db) \<or>
      args \<noteq> [] \<and> hd args = ''down'' \<and> db' = snd (mg_down m db)"
    "code = 0 \<Longrightarrow> args = [] \<or> hd args = ''up'' \<Longrightarrow> mg_up m db = (None, db')"
    "code = 0 \<Longrightarrow> args \<noteq> [] \<Longrightarrow> hd args = ''down'' \<Longrightarrow> mg_down m db = (None, db')"
  using assms
  by (auto simp: migrate_main_def migrate_run_def validCommand_def Let_def
      split: option.splits prod.splits list.splits if_splits)

text \<open>After an orderly stop both endpoints report that the service does not take traffic.\<close>

lemma precedes_split:
  "precedes x y tr \<Longrightarrow> y \<in> set tr \<Longrightarrow> x \<noteq> y \<Longrightarrow> \<exists>us vs. tr = us @ y # vs \<and> x \<in> set us \<and> y \<notin> set us"
proof (induction tr)
  case (Cons z zs)
  show ?case
  proof (cases "z = x")
    case True
    then have "y \<in> set zs" using Cons.prems by auto
    then obtain us vs where "zs = us @ y # vs" "y \<notin> set us" by (metis split_list_first)
    with True Cons.prems(3) show ?thesis by (intro exI [of _ "z # us"] exI [of _ vs]) auto
  next
    case False
    with Cons obtain us vs where "zs = us @ y # vs" "x \<in> set us" "y \<notin> set us" by auto
    with False Cons.prems show ?thesis by (intro exI [of _ "z # us"] exI [of _ vs]) auto
  qed
qed simp

lemma withdrawn_split:
  assumes "precedes x y tr" "count_list tr x = 1" "count_list tr y = 1" "x \<noteq> y"
  shows "\<exists>us vs. tr = us @ y # vs \<and> x \<notin> set vs \<and> y \<notin> set vs"
proof -
  have "y \<in> set tr" using assms(3) by (metis count_notin zero_neq_one)
  with precedes_split [OF assms(1) _ assms(4)] obtain us vs where s: "tr = us @ y # vs" "x \<in> set us" by blast
  have "count_list us x \<noteq> 0" using s(2) by (simp add: count_list_0_iff)
  with s assms(2-4) have "count_list vs x = 0" "count_list vs y = 0" by auto
  with s show ?thesis by (auto simp: count_list_0_iff)
qed

theorem not_serving_after_stop:
  assumes "stopped_orderly tr"
  shows "readyz (health_after tr) = (503, ''not ready'')" "grpc_after tr = NOT_SERVING" "healthz (health_after tr) = (200, ''ok'')"
proof -
  have quiet: "fold (\<lambda>x h. case x of HealthReady b \<Rightarrow> SetReady b h | _ \<Rightarrow> h) vs h = h"
    if "HealthReady True \<notin> set vs" "HealthReady False \<notin> set vs" for vs h
    using that by (induction vs arbitrary: h) (auto split: lifecycle.split)
  have quiet': "fold (\<lambda>x s. case x of GrpcReady b \<Rightarrow> grpc_SetReady b | _ \<Rightarrow> s) vs h = h"
    if "GrpcReady True \<notin> set vs" "GrpcReady False \<notin> set vs" for vs h
    using that by (induction vs arbitrary: h) (auto split: lifecycle.split)
  obtain us vs where "tr = us @ HealthReady False # vs" "HealthReady True \<notin> set vs" "HealthReady False \<notin> set vs"
    using withdrawn_split [of "HealthReady True" "HealthReady False" tr] assms by (auto simp: stopped_orderly_def)
  then show "readyz (health_after tr) = (503, ''not ready'')"
    by (simp add: health_after_def quiet readyz_def SetReady_def)
  obtain us vs where "tr = us @ GrpcReady False # vs" "GrpcReady True \<notin> set vs" "GrpcReady False \<notin> set vs"
    using withdrawn_split [of "GrpcReady True" "GrpcReady False" tr] assms by (auto simp: stopped_orderly_def)
  then show "grpc_after tr = NOT_SERVING"
    by (simp add: grpc_after_def quiet' grpc_SetReady_def)
  show "healthz (health_after tr) = (200, ''ok'')" by (simp add: healthz_def)
qed

text \<open>A probe changes no table and reports the dependencies as they answered.\<close>

theorem probe_reports:
  assumes "probe pgErr redisErr (m, p) = (m', p')"
  shows "pg_tables p' = pg_tables p" "ga_up m' ''postgres'' = Some (pgErr = None)" "ga_up m' ''redis'' = Some (redisErr = None)"
    "pgErr \<noteq> None \<Longrightarrow> ga_backlog m' = ga_backlog m"
proof -
  have t: "FailureBacklog p = (r, q) \<Longrightarrow> pg_tables q = pg_tables p" for r q
    by (auto simp: FailureBacklog_def onSql_def backlogSQL_def Let_def split: prod.splits sum.splits
        dest!: stmt_read [rotated])
  show "pg_tables p' = pg_tables p" "ga_up m' ''postgres'' = Some (pgErr = None)" "ga_up m' ''redis'' = Some (redisErr = None)"
    "pgErr \<noteq> None \<Longrightarrow> ga_backlog m' = ga_backlog m"
    using assms by (auto simp: probe_def SetDependencyUp_def SetFailureBacklog_def Let_def
        split: prod.splits sum.splits if_splits dest: t)
qed

end
